(* ===== verification/Gateway_Prelude.thy ===== *)
theory Gateway_Prelude
  imports Main "HOL-Library.Sublist" "HOL-Library.Multiset"
begin

text \<open>
  Shared vocabulary of the development: byte strings, the Python string helpers the gateway
  uses, decimal numbers, results with errors, and the generic lemmas on lists that several
  components need.

  A Python \<open>bytes\<close> value is a list of HOL characters (one HOL character is one byte). A Python
  \<open>str\<close> is represented by its UTF-8 encoding, again a list of characters: concatenation,
  equality, splitting at ASCII characters and substring tests agree with the code-point view.
  Case mapping is the ASCII case mapping (exact for \<open>bytes\<close> and for the ASCII-only atoms of the
  protocol; other letters are left alone).
\<close>

type_synonym bytes = "char list"
type_synonym str = "char list"

named_theorems view_simps \<open>definitions of the model unfolded together\<close>
named_theorems wire_safe \<open>texts that cannot break out of a response line\<close>

subsection \<open>Characters\<close>

abbreviation ordc :: "char \<Rightarrow> nat" where "ordc c \<equiv> of_char c"

definition cr :: char where "cr = CHR 0x0D"
definition lf :: char where "lf = CHR 0x0A"
definition dquote :: char where "dquote = CHR 0x22"
definition backslash :: char where "backslash = CHR 0x5C"

lemmas special_chars = cr_def lf_def dquote_def backslash_def

definition is_digit :: "char \<Rightarrow> bool" where
  "is_digit c \<longleftrightarrow> 48 \<le> ordc c \<and> ordc c \<le> 57"

definition up_char :: "char \<Rightarrow> char" where
  "up_char c = (if 97 \<le> ordc c \<and> ordc c \<le> 122 then char_of (ordc c - 32) else c)"

definition low_char :: "char \<Rightarrow> char" where
  "low_char c = (if 65 \<le> ordc c \<and> ordc c \<le> 90 then char_of (ordc c + 32) else c)"

definition py_upper :: "str \<Rightarrow> str" where "py_upper = map up_char"
definition py_lower :: "str \<Rightarrow> str" where "py_lower = map low_char"

definition is_control :: "char \<Rightarrow> bool" where
  "is_control c \<longleftrightarrow> ordc c < 32 \<or> ordc c = 127"

definition printable_char :: "char \<Rightarrow> bool" where
  "printable_char c \<longleftrightarrow> 33 \<le> ordc c \<and> ordc c \<le> 126"

text \<open>White space for \<open>bytes\<close> methods, and the ASCII part of white space for \<open>str\<close> methods.\<close>

definition bytes_space :: "char \<Rightarrow> bool" where
  "bytes_space c \<longleftrightarrow> ordc c = 32 \<or> (9 \<le> ordc c \<and> ordc c \<le> 13)"

definition str_space :: "char \<Rightarrow> bool" where
  "str_space c \<longleftrightarrow> bytes_space c \<or> (28 \<le> ordc c \<and> ordc c \<le> 31)"

lemma ordc_inj [simp]: "ordc a = ordc b \<longleftrightarrow> a = b"
  by simp

lemma ordc_char_of [simp]: "n < 256 \<Longrightarrow> ordc (char_of n) = n"
  by simp

lemma up_char_idem [simp]: "up_char (up_char c) = up_char c"
  by (auto simp: up_char_def)

lemma py_upper_idem [simp]: "py_upper (py_upper s) = py_upper s"
  by (simp add: py_upper_def o_def)

lemma length_py_upper [simp]: "length (py_upper s) = length s"
  by (simp add: py_upper_def)

lemma py_upper_append [simp]: "py_upper (a @ b) = py_upper a @ py_upper b"
  by (simp add: py_upper_def)

lemma py_upper_Nil [simp]: "py_upper [] = []"
  by (simp add: py_upper_def)

lemma py_upper_eq_Nil [simp]: "py_upper s = [] \<longleftrightarrow> s = []"
  by (simp add: py_upper_def)

lemma length_py_lower [simp]: "length (py_lower s) = length s"
  by (simp add: py_lower_def)

subsection \<open>Decimal numbers\<close>

definition digit_char :: "nat \<Rightarrow> char" where
  "digit_char d = char_of (48 + d)"

definition digit_val :: "char \<Rightarrow> nat" where
  "digit_val c = ordc c - 48"

fun nat_str :: "nat \<Rightarrow> str" where
  "nat_str n = (if n < 10 then [digit_char n] else nat_str (n div 10) @ [digit_char (n mod 10)])"

declare nat_str.simps [simp del]

definition digits_val :: "str \<Rightarrow> nat" where
  "digits_val = foldl (\<lambda>acc c. 10 * acc + digit_val c) 0"

definition py_isdigit :: "str \<Rightarrow> bool" where
  "py_isdigit s \<longleftrightarrow> s \<noteq> [] \<and> list_all is_digit s"

text \<open>
  \<open>int(s)\<close> on a string of ASCII digits: Python 3.12 raises \<open>ValueError\<close> above 4300 digits.
\<close>

definition max_str_digits :: nat where "max_str_digits = 4300"

definition py_int :: "str \<Rightarrow> nat option" where
  "py_int s = (if length s \<le> max_str_digits then Some (digits_val s) else None)"

lemma digit_char_facts [simp]:
  assumes "d < 10"
  shows "is_digit (digit_char d)" and "digit_val (digit_char d) = d"
proof -
  have "ordc (digit_char d) = 48 + d"
    unfolding digit_char_def by (rule ordc_char_of) (use assms in simp)
  then show "is_digit (digit_char d)" and "digit_val (digit_char d) = d"
    using assms by (simp_all add: is_digit_def digit_val_def)
qed

lemma digits_val_snoc [simp]: "digits_val (s @ [c]) = 10 * digits_val s + digit_val c"
  by (simp add: digits_val_def)

lemma nat_str_digits: "list_all is_digit (nat_str n)"
proof (induction n rule: nat_str.induct)
  case (1 n)
  then show ?case by (subst nat_str.simps) auto
qed

lemma nat_str_not_Nil [simp]: "nat_str n \<noteq> []"
  by (subst nat_str.simps) simp

lemma py_isdigit_nat_str [simp]: "py_isdigit (nat_str n)"
  by (simp add: py_isdigit_def nat_str_digits)

lemma digits_val_nat_str [simp]: "digits_val (nat_str n) = n"
proof (induction n rule: nat_str.induct)
  case (1 n)
  show ?case
  proof (cases "n < 10")
    case True
    then show ?thesis by (subst nat_str.simps) (simp add: digits_val_def)
  next
    case False
    then have "nat_str n = nat_str (n div 10) @ [digit_char (n mod 10)]"
      by (subst nat_str.simps) simp
    then have "digits_val (nat_str n) = 10 * digits_val (nat_str (n div 10)) + n mod 10"
      by simp
    then show ?thesis using "1.IH" [OF False] by simp
  qed
qed

lemma nat_str_set: "c \<in> set (nat_str n) \<Longrightarrow> is_digit c"
  using nat_str_digits [of n] by (simp add: list_all_iff)

lemma length_nat_str_pos: "0 < length (nat_str n)"
  by simp

lemma length_nat_str: "n < 10 ^ k \<Longrightarrow> 0 < k \<Longrightarrow> length (nat_str n) \<le> k"
proof (induction k arbitrary: n)
  case 0
  then show ?case by simp
next
  case (Suc k)
  show ?case
  proof (cases "n < 10")
    case True
    then show ?thesis by (subst nat_str.simps) simp
  next
    case False
    with Suc.prems have k: "0 < k" by (cases k) auto
    have "n div 10 < 10 ^ k" using Suc.prems by (simp add: div_less_iff_less_mult mult.commute)
    then have "length (nat_str (n div 10)) \<le> k" using Suc.IH k by blast
    moreover have "nat_str n = nat_str (n div 10) @ [digit_char (n mod 10)]"
      using False by (subst nat_str.simps) simp
    ultimately show ?thesis by simp
  qed
qed

subsection \<open>Splitting, joining, searching\<close>

fun split_on :: "'a \<Rightarrow> 'a list \<Rightarrow> 'a list list" where
  "split_on sep [] = [[]]"
| "split_on sep (c # s) =
     (if c = sep then [] # split_on sep s
      else (case split_on sep s of [] \<Rightarrow> [[c]] | w # ws \<Rightarrow> (c # w) # ws))"

fun join_with :: "'a list \<Rightarrow> 'a list list \<Rightarrow> 'a list" where
  "join_with sep [] = []"
| "join_with sep [w] = w"
| "join_with sep (w # v # ws) = w @ sep @ join_with sep (v # ws)"

text \<open>\<open>s.partition(sep)\<close> for a one-character separator: before, whether found, after.\<close>

fun partition_at :: "'a \<Rightarrow> 'a list \<Rightarrow> 'a list \<times> bool \<times> 'a list" where
  "partition_at sep [] = ([], False, [])"
| "partition_at sep (c # s) =
     (if c = sep then ([], True, s)
      else (case partition_at sep s of (a, f, b) \<Rightarrow> (c # a, f, b)))"

definition starts_with :: "'a list \<Rightarrow> 'a list \<Rightarrow> bool" where
  "starts_with p s \<longleftrightarrow> take (length p) s = p"

text \<open>\<open>s.find(pat)\<close>: the index of the first occurrence.\<close>

fun find_sub :: "'a list \<Rightarrow> 'a list \<Rightarrow> nat option" where
  "find_sub pat [] = (if pat = [] then Some 0 else None)"
| "find_sub pat (c # s) =
     (if starts_with pat (c # s) then Some 0 else map_option Suc (find_sub pat s))"

definition contains_sub :: "'a list \<Rightarrow> 'a list \<Rightarrow> bool" where
  "contains_sub pat s \<longleftrightarrow> find_sub pat s \<noteq> None"

definition lstrip_by :: "('a \<Rightarrow> bool) \<Rightarrow> 'a list \<Rightarrow> 'a list" where
  "lstrip_by p s = dropWhile p s"

definition rstrip_by :: "('a \<Rightarrow> bool) \<Rightarrow> 'a list \<Rightarrow> 'a list" where
  "rstrip_by p s = rev (dropWhile p (rev s))"

definition py_strip :: "str \<Rightarrow> str" where
  "py_strip s = rstrip_by str_space (lstrip_by str_space s)"

definition bytes_strip :: "bytes \<Rightarrow> bytes" where
  "bytes_strip s = rstrip_by bytes_space (lstrip_by bytes_space s)"

text \<open>\<open>s.replace(old, new)\<close>, for a non-empty \<open>old\<close>: left to right, without overlaps.\<close>

function replace_all :: "'a list \<Rightarrow> 'a list \<Rightarrow> 'a list \<Rightarrow> 'a list" where
  "replace_all old new s =
     (if old = [] then s
      else (case s of
          [] \<Rightarrow> []
        | c # t \<Rightarrow>
            if starts_with old s then new @ replace_all old new (drop (length old) s)
            else c # replace_all old new t))"
  by pat_completeness auto
termination
  by (relation "measure (\<lambda>(old, new, s). length s)") auto

declare replace_all.simps [simp del]

lemma split_on_not_Nil [simp]: "split_on sep s \<noteq> []"
  by (induction s) (auto split: list.splits)

lemma split_on_no_sep: "sep \<notin> set s \<Longrightarrow> split_on sep s = [s]"
  by (induction s) auto

lemma split_on_append:
  "sep \<notin> set w \<Longrightarrow> split_on sep (w @ sep # s) = w # split_on sep s"
  by (induction w) auto

lemma split_on_join:
  assumes "ws \<noteq> []" and "\<forall>w \<in> set ws. sep \<notin> set w"
  shows "split_on sep (join_with [sep] ws) = ws"
  using assms
proof (induction "[sep]" ws rule: join_with.induct)
  case (3 w v ws)
  then show ?case by (simp add: split_on_append)
qed (auto simp: split_on_no_sep)

lemma partition_at_no_sep: "sep \<notin> set s \<Longrightarrow> partition_at sep s = (s, False, [])"
  by (induction s) auto

lemma partition_at_append: "sep \<notin> set a \<Longrightarrow> partition_at sep (a @ sep # b) = (a, True, b)"
  by (induction a) auto

lemma set_join_with: "set (join_with sep ws) \<subseteq> set sep \<union> (\<Union>w \<in> set ws. set w)"
  by (induction sep ws rule: join_with.induct) auto

lemma starts_with_append [simp]: "starts_with p (p @ s)"
  by (simp add: starts_with_def)

lemma starts_with_iff: "starts_with p s \<longleftrightarrow> (\<exists>t. s = p @ t)"
  by (auto simp: starts_with_def) (metis append_take_drop_id)

lemma find_sub_Some:
  "find_sub pat s = Some i \<Longrightarrow> \<exists>t. drop i s = pat @ t \<and> i + length pat \<le> length s"
proof (induction s arbitrary: i)
  case Nil
  then show ?case by (auto split: if_splits)
next
  case (Cons c s)
  show ?case
  proof (cases "starts_with pat (c # s)")
    case True
    then obtain t where t: "c # s = pat @ t" by (auto simp: starts_with_iff)
    have "i = 0" using Cons.prems True by simp
    moreover have "length pat \<le> length (c # s)" unfolding t by simp
    ultimately show ?thesis using t by auto
  next
    case False
    then obtain j where j: "find_sub pat s = Some j" "i = Suc j" using Cons.prems by auto
    then show ?thesis using Cons.IH [OF j(1)] by auto
  qed
qed

lemma find_sub_None: "find_sub pat s = None \<Longrightarrow> s \<noteq> a @ pat @ b"
proof (induction s arbitrary: a)
  case Nil
  then show ?case by (auto split: if_splits)
next
  case (Cons c s)
  then have no: "\<not> starts_with pat (c # s)" and rec: "find_sub pat s = None"
    by (auto split: if_splits)
  show ?case
  proof (cases a)
    case Nil
    then show ?thesis using no by (auto simp: starts_with_iff)
  next
    case (Cons x a')
    then show ?thesis using Cons.IH [OF rec, of a'] by simp
  qed
qed

lemma contains_sub_iff: "contains_sub pat s \<longleftrightarrow> (\<exists>a b. s = a @ pat @ b)"
proof
  assume "contains_sub pat s"
  then obtain i where "find_sub pat s = Some i" by (auto simp: contains_sub_def)
  then obtain t where "drop i s = pat @ t" using find_sub_Some by blast
  then have "s = take i s @ pat @ t" by (metis append_take_drop_id)
  then show "\<exists>a b. s = a @ pat @ b" by blast
next
  assume "\<exists>a b. s = a @ pat @ b"
  then show "contains_sub pat s" using find_sub_None [of pat s] by (auto simp: contains_sub_def)
qed

lemma rstrip_by_prefix: "\<exists>t. s = rstrip_by p s @ t"
proof -
  have "rev s = takeWhile p (rev s) @ dropWhile p (rev s)" by simp
  then have "s = rev (dropWhile p (rev s)) @ rev (takeWhile p (rev s))"
    by (metis rev_append rev_rev_ident)
  then show ?thesis by (auto simp: rstrip_by_def)
qed

subsection \<open>Results with errors\<close>

definition ebind :: "'e + 'a \<Rightarrow> ('a \<Rightarrow> 'e + 'b) \<Rightarrow> 'e + 'b" where
  "ebind r f = (case r of Inl e \<Rightarrow> Inl e | Inr x \<Rightarrow> f x)"

lemma ebind_simps [simp]: "ebind (Inl e) f = Inl e" "ebind (Inr x) f = f x"
  by (simp_all add: ebind_def)

lemma ebind_eq_Inr [simp]: "ebind r f = Inr y \<longleftrightarrow> (\<exists>x. r = Inr x \<and> f x = Inr y)"
  by (cases r) auto

lemma ebind_eq_Inl: "ebind r f = Inl e \<longleftrightarrow> r = Inl e \<or> (\<exists>x. r = Inr x \<and> f x = Inl e)"
  by (cases r) auto

lemma ebind_cong [fundef_cong]:
  "r = r' \<Longrightarrow> (\<And>x. r' = Inr x \<Longrightarrow> f x = g x) \<Longrightarrow> ebind r f = ebind r' g"
  by (cases r') auto

fun emap :: "('a \<Rightarrow> 'e + 'b) \<Rightarrow> 'a list \<Rightarrow> 'e + 'b list" where
  "emap f [] = Inr []"
| "emap f (x # xs) = ebind (f x) (\<lambda>y. ebind (emap f xs) (\<lambda>ys. Inr (y # ys)))"

lemma emap_Inr_iff: "emap f xs = Inr ys \<longleftrightarrow> list_all2 (\<lambda>x y. f x = Inr y) xs ys"
proof (induction xs arbitrary: ys)
  case (Cons x xs)
  then show ?case by (cases ys) auto
qed auto

lemma emap_cong [fundef_cong]:
  "xs = ys \<Longrightarrow> (\<And>x. x \<in> set ys \<Longrightarrow> f x = g x) \<Longrightarrow> emap f xs = emap g ys"
proof (induction ys arbitrary: xs)
  case (Cons y ys)
  then show ?case by (auto simp: ebind_def split: sum.splits)
qed simp

subsection \<open>Integers as texts\<close>

definition int_str :: "int \<Rightarrow> str" where
  "int_str i = (if i < 0 then ''-'' @ nat_str (nat (- i)) else nat_str (nat i))"

text \<open>Digits with single underscores between them, as \<open>int()\<close> and \<open>float()\<close> accept them; the underscores
  are dropped.\<close>

fun plain_digits :: "bool \<Rightarrow> str \<Rightarrow> str option" where
  "plain_digits after_digit [] = (if after_digit then Some [] else None)"
| "plain_digits after_digit (c # s) =
     (if is_digit c then map_option (Cons c) (plain_digits True s)
      else if c = CHR ''_'' \<and> after_digit \<and> s \<noteq> [] then plain_digits False s else None)"

definition split_sign :: "str \<Rightarrow> bool \<times> str" where
  "split_sign s = (case s of
     [] \<Rightarrow> (False, [])
   | c # r \<Rightarrow> if c = CHR ''-'' then (True, r) else if c = CHR ''+'' then (False, r) else (False, s))"

definition py_int_text :: "str \<Rightarrow> int option" where
  "py_int_text s = (case split_sign (py_strip s) of (neg, body) \<Rightarrow>
     (case plain_digits False body of
        None \<Rightarrow> None
      | Some ds \<Rightarrow> map_option (\<lambda>n. if neg then - int n else int n) (py_int ds)))"

lemma plain_digits_all: "list_all is_digit ds \<Longrightarrow> (ds \<noteq> [] \<or> b) \<Longrightarrow> plain_digits b ds = Some ds"
  by (induction ds arbitrary: b) auto

lemma str_space_digit [simp]: "is_digit c \<Longrightarrow> \<not> str_space c"
  by (auto simp: is_digit_def str_space_def bytes_space_def)

lemma rstrip_by_none: "s = [] \<or> \<not> p (last s) \<Longrightarrow> rstrip_by p s = s"
  by (cases s rule: rev_cases) (auto simp: rstrip_by_def)

lemma py_strip_int_str [simp]: "py_strip (int_str i) = int_str i"
proof -
  have d: "is_digit (hd (nat_str n))" "is_digit (last (nat_str n))" for n
    by (rule nat_str_set [of _ n], simp)+
  have minus: "\<not> str_space (CHR ''-'')" by (simp add: str_space_def bytes_space_def)
  have "int_str i \<noteq> []" "\<not> str_space (hd (int_str i))" "\<not> str_space (last (int_str i))"
    using str_space_digit [OF d(1)] str_space_digit [OF d(2)] minus by (simp_all add: int_str_def)
  then show ?thesis
    by (cases "int_str i") (auto simp: py_strip_def lstrip_by_def rstrip_by_none)
qed

lemma py_int_text_int_str: "py_int_text (int_str i) = (if length (nat_str (nat \<bar>i\<bar>)) \<le> max_str_digits then Some i else None)"
proof -
  have nodigit: "\<not> is_digit (CHR ''-'')" "\<not> is_digit (CHR ''+'')" by (simp_all add: is_digit_def)
  have pd: "plain_digits False (nat_str n) = Some (nat_str n)" for n by (simp add: plain_digits_all nat_str_digits)
  have "split_sign (int_str i) = (i < 0, nat_str (nat \<bar>i\<bar>))"
  proof (cases "i < 0")
    case False
    obtain c r where c: "nat_str (nat i) = c # r" by (cases "nat_str (nat i)") auto
    then have "is_digit c" using nat_str_set [of c "nat i"] by simp
    then show ?thesis using False c nodigit by (auto simp: int_str_def split_sign_def)
  qed (simp add: int_str_def split_sign_def)
  then show ?thesis by (auto simp: py_int_text_def pd py_int_def)
qed

lemma int_text_roundtrip: "py_int_text (int_str i) = Some m \<Longrightarrow> m = i"
  by (simp add: py_int_text_int_str split: if_splits)

subsection \<open>Lists\<close>

lemma sorted_wrt_less_distinct: "sorted_wrt (<) (xs :: 'a :: linorder list) \<Longrightarrow> distinct xs"
  by (simp add: strict_sorted_iff)

lemma filter_id_conv': "(\<And>x. x \<in> set xs \<Longrightarrow> P x) \<Longrightarrow> filter P xs = xs"
  by (induction xs) auto

end
