(* ===== verification/Imap_Parser.thy ===== *)
theory Imap_Parser
  imports Gateway_Prelude
begin

text \<open>
  The incremental command parser, \<open>imapgw/parser.py\<close>. The state of a \<open>CommandParser\<close> is the
  record \<open>cparser\<close>; \<open>feed\<close> appends bytes and \<open>events\<close> drains the generator of the same name.
  A position \<open>i\<close> in a line is represented by the bytes from it on, and the token stack by a list
  whose head is Python's \<open>stack[-1]\<close>. \<open>TokenizeError\<close> is the left side of a sum.

  The lemmas give progress of every reader, that the assertion in \<open>events\<close> never fires, that the
  events do not depend on how the input was cut into chunks, the bounds on the memory the parser
  holds, and that the tokenizer inverts the obvious printer of tokens.
\<close>

subsection \<open>Tokens and events\<close>

datatype token =
    Atom str
  | QuotedStr bytes
  | LiteralStr bytes
  | ListTok "token list"

record command =
  cmd_tag :: str
  cmd_name :: str
  cmd_args :: "token list"

text \<open>\<open>Raised\<close> stands for the generator raising (the \<open>assert\<close> in \<open>events\<close>).\<close>

datatype event =
    Command command
  | ContinuationRequest nat
  | ParseError "str option" str bool
  | Raised

record limits =
  max_line :: nat
  max_literal :: nat
  max_command_bytes :: nat
  max_literals :: nat

definition default_limits :: limits where
  "default_limits = \<lparr>max_line = 64 * 1024, max_literal = 1024 * 1024,
     max_command_bytes = 1024 * 1024 + 64 * 1024, max_literals = 16\<rparr>"

datatype piece = LinePiece bytes | LiteralPiece bytes

record pending =
  ptag :: "str option"
  pieces :: "piece list"
  total_bytes :: nat
  literal_count :: nat

record cparser =
  limits :: limits
  buf :: bytes
  pend :: "pending option"
  awaiting_literal :: "nat option"

definition astring_bytes :: "token \<Rightarrow> str + bytes" where
  "astring_bytes tok = (case tok of
     Atom v \<Rightarrow> Inr v
   | QuotedStr v \<Rightarrow> Inr v
   | LiteralStr v \<Rightarrow> Inr v
   | ListTok _ \<Rightarrow> Inl ''expected a string, got a list'')"

subsection \<open>Readers over one line\<close>

fun read_quoted :: "bytes \<Rightarrow> bytes \<Rightarrow> str + bytes \<times> bytes" where
  "read_quoted out [] = Inl ''unterminated quoted string''"
| "read_quoted out (ch # rest) =
     (if ch = backslash then
        (case rest of
           [] \<Rightarrow> Inl ''invalid escape in quoted string''
         | e # rest' \<Rightarrow>
             if e \<noteq> dquote \<and> e \<noteq> backslash then Inl ''invalid escape in quoted string''
             else read_quoted (out @ [e]) rest')
      else if ch = dquote then Inr (out, rest)
      else if is_control ch then Inl ''control character in quoted string''
      else if 128 \<le> ordc ch then Inl ''non-ASCII in quoted string, use a literal''
      else read_quoted (out @ [ch]) rest)"

lemma read_quoted_progress:
  "read_quoted out s = Inr (v, rest) \<Longrightarrow> length rest < length s"
  by (induction out s arbitrary: v rest rule: read_quoted.induct)
     (auto split: if_splits list.splits, fastforce+)

function skip_bracket :: "int \<Rightarrow> bytes \<Rightarrow> str + bytes" where
  "skip_bracket depth [] = Inl ''unterminated section bracket''"
| "skip_bracket depth (ch # rest) =
     (if ch = dquote then ebind (read_quoted [] rest) (\<lambda>(_, rest'). skip_bracket depth rest')
      else if ch = CHR ''['' then skip_bracket (depth + 1) rest
      else if ch = CHR '']'' then
        (if depth - 1 = 0 then Inr rest else skip_bracket (depth - 1) rest)
      else if is_control ch \<or> 128 \<le> ordc ch then Inl ''invalid character in section''
      else skip_bracket depth rest)"
  by pat_completeness auto
termination
  by (relation "measure (\<lambda>(d, s). length s)") (auto dest: read_quoted_progress)

lemma skip_bracket_progress: "skip_bracket d s = Inr rest \<Longrightarrow> length rest < length s"
proof (induction d s arbitrary: rest rule: skip_bracket.induct)
  case (2 depth ch s)
  show ?case
  proof (cases "ch = dquote")
    case True
    then obtain v r where "read_quoted [] s = Inr (v, r)" "skip_bracket depth r = Inr rest"
      using "2.prems" by auto
    then show ?thesis using "2.IH"(1) True read_quoted_progress by fastforce
  next
    case False
    then show ?thesis using "2.prems" "2.IH"(2-4) by (fastforce split: if_splits)
  qed
qed simp

declare skip_bracket.simps [simp del]

definition atom_stop :: "char \<Rightarrow> bool" where
  "atom_stop ch \<longleftrightarrow> ch = CHR ''('' \<or> ch = CHR '')'' \<or> ch = CHR ''{'' \<or> ch = dquote \<or> ch = CHR '' ''"

text \<open>The loop of \<open>_read_atom\<close>: the bytes left where the atom ends.\<close>

function atom_end :: "bytes \<Rightarrow> str + bytes" where
  "atom_end [] = Inr []"
| "atom_end (ch # rest) =
     (if ch = CHR ''['' then ebind (skip_bracket 0 (ch # rest)) atom_end
      else if atom_stop ch then Inr (ch # rest)
      else if is_control ch then Inl ''control character in atom''
      else if 128 \<le> ordc ch then Inl ''non-ASCII in atom, use a quoted string or literal''
      else atom_end rest)"
  by pat_completeness auto
termination
  by (relation "measure length") (auto dest: skip_bracket_progress)

definition read_atom :: "bytes \<Rightarrow> str + str \<times> bytes" where
  "read_atom line = ebind (atom_end line) (\<lambda>rest.
     if length rest = length line then Inl ''expected an atom''
     else Inr (take (length line - length rest) line, rest))"

lemma atom_end_length: "atom_end s = Inr rest \<Longrightarrow> length rest \<le> length s"
proof (induction s arbitrary: rest rule: atom_end.induct)
  case (2 ch s)
  show ?case
  proof (cases "ch = CHR ''[''")
    case True
    then obtain r where r: "skip_bracket 0 (ch # s) = Inr r" "atom_end r = Inr rest"
      using "2.prems" by auto
    then have "length rest \<le> length r" using "2.IH"(1) True by blast
    then show ?thesis using skip_bracket_progress [OF r(1)] by simp
  next
    case False
    then show ?thesis using "2.prems" "2.IH"(2) by (fastforce split: if_splits)
  qed
qed simp

lemma read_atom_progress: "read_atom s = Inr (v, rest) \<Longrightarrow> length rest < length s"
  by (auto simp: read_atom_def split: if_splits dest: atom_end_length)

subsection \<open>The tokenizer\<close>

type_synonym stack = "token list list"

definition push_token :: "token \<Rightarrow> stack \<Rightarrow> stack" where
  "push_token t stk = (case stk of [] \<Rightarrow> [] | cur # below \<Rightarrow> (cur @ [t]) # below)"

function tokenize_line :: "bytes \<Rightarrow> stack \<Rightarrow> str + stack" where
  "tokenize_line [] stk = Inr stk"
| "tokenize_line (ch # rest) stk =
     (if ch = CHR '' '' then tokenize_line rest stk
      else if ch = CHR ''('' then tokenize_line rest ([] # stk)
      else if ch = CHR '')'' then
        (case stk of
           cur # below # others \<Rightarrow> tokenize_line rest ((below @ [ListTok cur]) # others)
         | _ \<Rightarrow> Inl ''unbalanced parentheses'')
      else if ch = dquote then
        ebind (read_quoted [] rest) (\<lambda>(v, rest'). tokenize_line rest' (push_token (QuotedStr v) stk))
      else if ch = CHR ''{'' then Inl ''literal must be the last item on a line''
      else if is_control ch then Inl ''control character in command''
      else ebind (read_atom (ch # rest)) (\<lambda>(v, rest'). tokenize_line rest' (push_token (Atom v) stk)))"
  by pat_completeness auto
termination
  by (relation "measure (\<lambda>(s, stk). length s)")
     (auto dest: read_quoted_progress read_atom_progress)

fun tokenize_from :: "piece list \<Rightarrow> stack \<Rightarrow> str + stack" where
  "tokenize_from [] stk = Inr stk"
| "tokenize_from (LiteralPiece data # ps) stk = tokenize_from ps (push_token (LiteralStr data) stk)"
| "tokenize_from (LinePiece data # ps) stk =
     ebind (tokenize_line data stk) (\<lambda>stk'. tokenize_from ps stk')"

definition tokenize_pieces :: "piece list \<Rightarrow> str + token list" where
  "tokenize_pieces ps = ebind (tokenize_from ps [[]]) (\<lambda>stk.
     case stk of [root] \<Rightarrow> Inr root | _ \<Rightarrow> Inl ''unbalanced parentheses'')"

definition build_command :: "pending \<Rightarrow> event" where
  "build_command pd = (case tokenize_pieces (pieces pd) of
     Inl msg \<Rightarrow> ParseError (ptag pd) msg False
   | Inr [] \<Rightarrow> ParseError None ''empty command'' False
   | Inr [_] \<Rightarrow> ParseError (ptag pd) ''missing command'' False
   | Inr (tag_tok # name_tok # others) \<Rightarrow>
       (case (tag_tok, name_tok) of
          (Atom t, Atom n) \<Rightarrow>
            if CHR ''+'' \<in> set t \<or> CHR ''*'' \<in> set t then ParseError None ''invalid tag'' False
            else Command \<lparr>cmd_tag = t, cmd_name = py_upper n, cmd_args = others\<rparr>
        | _ \<Rightarrow> ParseError (ptag pd) ''tag and command must be atoms'' False))"

text \<open>\<open>_extract_tag\<close>: the first space-separated word when it is 1 to 64 printable ASCII bytes.\<close>

definition extract_tag :: "bytes \<Rightarrow> str option" where
  "extract_tag line = (let head = fst (partition_at (CHR '' '') line) in
     if head = [] \<or> \<not> (list_all printable_char head \<and> length head \<le> 64) then None else Some head)"

subsection \<open>Lines and literals\<close>

text \<open>
  \<open>_LITERAL_TAIL\<close>: a line that ends in \<open>{N}\<close> with 1 to 12 digits, at the start of the line or after
  a space or an opening parenthesis. The result is \<open>N\<close> and the line without the marker.
\<close>

definition literal_tail :: "bytes \<Rightarrow> (nat \<times> bytes) option" where
  "literal_tail line = (case rev line of
     [] \<Rightarrow> None
   | c # r \<Rightarrow>
       if c \<noteq> CHR ''}'' then None
       else (let ds = takeWhile is_digit r; r' = dropWhile is_digit r in
         if ds = [] \<or> 12 < length ds then None
         else (case r' of
             [] \<Rightarrow> None
           | b # before \<Rightarrow>
               if b = CHR ''{'' \<and> (before = [] \<or> hd before = CHR '' '' \<or> hd before = CHR ''('')
               then Some (digits_val (rev ds), rev before) else None)))"

definition consume_line :: "bytes \<Rightarrow> cparser \<Rightarrow> event list \<times> cparser" where
  "consume_line line p =
     (let pd = (case pend p of
                  None \<Rightarrow> \<lparr>ptag = extract_tag line, pieces = [], total_bytes = 0, literal_count = 0\<rparr>
                | Some pd \<Rightarrow> pd)
      in if CHR 0x00 \<in> set line
         then ([ParseError (ptag pd) ''NUL byte in command'' False], p\<lparr>pend := None\<rparr>)
         else (let pd1 = pd\<lparr>total_bytes := total_bytes pd + (length line + 2)\<rparr>
           in (case literal_tail line of
              Some (n, before) \<Rightarrow>
                if max_literal (limits p) < n
                then ([ParseError (ptag pd)
                         (''literal too large (max '' @ nat_str (max_literal (limits p)) @ '')'') False],
                      p\<lparr>pend := None\<rparr>)
                else (let pd2 = pd1\<lparr>literal_count := literal_count pd1 + 1,
                                   total_bytes := total_bytes pd1 + n\<rparr>
                  in if max_literals (limits p) < literal_count pd2
                        \<or> max_command_bytes (limits p) < total_bytes pd2
                     then ([ParseError (ptag pd) ''command too large'' False], p\<lparr>pend := None\<rparr>)
                     else ([ContinuationRequest n],
                           p\<lparr>pend := Some (pd2\<lparr>pieces := pieces pd2 @ [LinePiece before]\<rparr>),
                             awaiting_literal := Some n\<rparr>))
            | None \<Rightarrow>
                if max_command_bytes (limits p) < total_bytes pd1
                then ([ParseError (ptag pd) ''command too large'' False], p\<lparr>pend := None\<rparr>)
                else ([build_command (pd1\<lparr>pieces := pieces pd1 @ [LinePiece line]\<rparr>)],
                      p\<lparr>pend := None\<rparr>))))"

definition feed :: "cparser \<Rightarrow> bytes \<Rightarrow> cparser" where
  "feed p data = p\<lparr>buf := buf p @ data\<rparr>"

definition init_parser :: "limits \<Rightarrow> cparser" where
  "init_parser lim = \<lparr>limits = lim, buf = [], pend = None, awaiting_literal = None\<rparr>"

definition in_progress :: "cparser \<Rightarrow> bool" where
  "in_progress p \<longleftrightarrow> buf p \<noteq> [] \<or> pend p \<noteq> None \<or> awaiting_literal p \<noteq> None"

definition reset :: "cparser \<Rightarrow> cparser" where
  "reset p = p\<lparr>buf := [], pend := None, awaiting_literal := None\<rparr>"

definition chop_cr :: "bytes \<Rightarrow> bytes" where
  "chop_cr line = (if line \<noteq> [] \<and> last line = cr then butlast line else line)"

lemma consume_line_frame [simp]:
  "buf (snd (consume_line line p)) = buf p"
  "limits (snd (consume_line line p)) = limits p"
  by (auto simp: consume_line_def Let_def split: option.splits prod.splits)

lemma partition_at_length:
  "partition_at sep s = (a, True, b) \<Longrightarrow> length b < length s"
  by (induction s arbitrary: a b) (auto split: if_splits prod.splits)

text \<open>The generator \<open>events\<close>, drained: what it yields and the state it leaves.\<close>

function (sequential) events :: "cparser \<Rightarrow> event list \<times> cparser" where
  "events p = (case awaiting_literal p of
     Some n \<Rightarrow>
       if length (buf p) < n then ([], p)
       else (let literal = take n (buf p);
                 p1 = p\<lparr>buf := drop n (buf p), awaiting_literal := None\<rparr>
             in (case pend p1 of
                   None \<Rightarrow> ([Raised], p1)
                 | Some pd \<Rightarrow>
                     events (p1\<lparr>pend := Some (pd\<lparr>pieces := pieces pd @ [LiteralPiece literal]\<rparr>)\<rparr>)))
   | None \<Rightarrow>
       (case partition_at lf (buf p) of
          (_, False, _) \<Rightarrow>
            if max_line (limits p) < length (buf p)
            then ([ParseError None ''line too long'' True], p\<lparr>buf := [], pend := None\<rparr>)
            else ([], p)
        | (raw, True, rest) \<Rightarrow>
            (let line = chop_cr raw; p1 = p\<lparr>buf := rest\<rparr>
             in if max_line (limits p) < length line
                then ([ParseError None ''line too long'' True], p1\<lparr>pend := None\<rparr>)
                else (let r = consume_line line p1; r2 = events (snd r)
                      in (fst r @ fst r2, snd r2)))))"
  by pat_completeness auto
termination
proof (relation "measure (\<lambda>p. 2 * length (buf p) + (if awaiting_literal p = None then 0 else 1))",
       goal_cases)
  case 1
  then show ?case by simp
next
  case (2 p raw tl found rest)
  then have "partition_at lf (buf p) = (raw, True, rest)" by simp
  then have "length rest < length (buf p)" by (rule partition_at_length)
  then show ?case using 2 by simp
next
  case 3
  then show ?case by simp
qed

declare events.simps [simp del]


text \<open>Feeding chunk after chunk, draining the events after each, as \<open>Session.run\<close> does.\<close>

fun drain_chunks :: "cparser \<Rightarrow> bytes list \<Rightarrow> event list \<times> cparser" where
  "drain_chunks p [] = ([], p)"
| "drain_chunks p (c # cs) =
     (let r = events (feed p c); r2 = drain_chunks (snd r) cs in (fst r @ fst r2, snd r2))"

fun is_fatal :: "event \<Rightarrow> bool" where
  "is_fatal (ParseError _ _ f) = f"
| "is_fatal _ = False"

subsection \<open>The loop of \<open>events\<close>, case by case\<close>

lemma events_wait_literal:
  "awaiting_literal p = Some n \<Longrightarrow> length (buf p) < n \<Longrightarrow> events p = ([], p)"
  by (simp add: events.simps)

lemma events_raise:
  "awaiting_literal p = Some n \<Longrightarrow> n \<le> length (buf p) \<Longrightarrow> pend p = None \<Longrightarrow>
   events p = ([Raised], p\<lparr>buf := drop n (buf p), awaiting_literal := None\<rparr>)"
  by (simp add: events.simps Let_def)

definition take_literal :: "nat \<Rightarrow> pending \<Rightarrow> cparser \<Rightarrow> cparser" where
  "take_literal n pd p = p\<lparr>buf := drop n (buf p), awaiting_literal := None,
     pend := Some (pd\<lparr>pieces := pieces pd @ [LiteralPiece (take n (buf p))]\<rparr>)\<rparr>"

lemma events_literal:
  "awaiting_literal p = Some n \<Longrightarrow> n \<le> length (buf p) \<Longrightarrow> pend p = Some pd \<Longrightarrow>
   events p = events (take_literal n pd p)"
  by (subst events.simps) (simp add: Let_def take_literal_def)

lemma partition_at_None: "partition_at sep s = (a, False, b) \<Longrightarrow> sep \<notin> set s"
  by (induction s arbitrary: a b) (auto split: if_splits prod.splits)

lemma partition_at_Some:
  "partition_at sep s = (a, True, b) \<Longrightarrow> s = a @ sep # b \<and> sep \<notin> set a"
  by (induction s arbitrary: a b) (auto split: if_splits prod.splits)

lemma events_wait_line:
  "awaiting_literal p = None \<Longrightarrow> lf \<notin> set (buf p) \<Longrightarrow> length (buf p) \<le> max_line (limits p) \<Longrightarrow>
   events p = ([], p)"
  by (subst events.simps) (simp add: partition_at_no_sep)

lemma events_flood:
  "awaiting_literal p = None \<Longrightarrow> lf \<notin> set (buf p) \<Longrightarrow> max_line (limits p) < length (buf p) \<Longrightarrow>
   events p = ([ParseError None ''line too long'' True], p\<lparr>buf := [], pend := None\<rparr>)"
  by (subst events.simps) (simp add: partition_at_no_sep)

lemma events_long_line:
  "awaiting_literal p = None \<Longrightarrow> buf p = raw @ lf # rest \<Longrightarrow> lf \<notin> set raw \<Longrightarrow>
   max_line (limits p) < length (chop_cr raw) \<Longrightarrow>
   events p = ([ParseError None ''line too long'' True], p\<lparr>buf := rest, pend := None\<rparr>)"
  by (subst events.simps) (simp add: partition_at_append)

lemma events_line:
  "awaiting_literal p = None \<Longrightarrow> buf p = raw @ lf # rest \<Longrightarrow> lf \<notin> set raw \<Longrightarrow>
   length (chop_cr raw) \<le> max_line (limits p) \<Longrightarrow>
   events p = (let r = consume_line (chop_cr raw) (p\<lparr>buf := rest\<rparr>); r2 = events (snd r)
               in (fst r @ fst r2, snd r2))"
  by (subst events.simps) (simp add: partition_at_append)

lemma events_loop_induct [case_names wait_literal raise literal wait_line flood long_line line]:
  fixes P :: "cparser \<Rightarrow> bool"
  assumes wait_literal:
      "\<And>p n. awaiting_literal p = Some n \<Longrightarrow> length (buf p) < n \<Longrightarrow> P p"
    and raise: "\<And>p n. awaiting_literal p = Some n \<Longrightarrow> n \<le> length (buf p) \<Longrightarrow> pend p = None \<Longrightarrow> P p"
    and literal: "\<And>p n pd. awaiting_literal p = Some n \<Longrightarrow> n \<le> length (buf p) \<Longrightarrow>
      pend p = Some pd \<Longrightarrow> P (take_literal n pd p) \<Longrightarrow> P p"
    and wait_line: "\<And>p. awaiting_literal p = None \<Longrightarrow> lf \<notin> set (buf p) \<Longrightarrow>
      length (buf p) \<le> max_line (limits p) \<Longrightarrow> P p"
    and flood: "\<And>p. awaiting_literal p = None \<Longrightarrow> lf \<notin> set (buf p) \<Longrightarrow>
      max_line (limits p) < length (buf p) \<Longrightarrow> P p"
    and long_line: "\<And>p raw rest. awaiting_literal p = None \<Longrightarrow> buf p = raw @ lf # rest \<Longrightarrow>
      lf \<notin> set raw \<Longrightarrow> max_line (limits p) < length (chop_cr raw) \<Longrightarrow> P p"
    and line: "\<And>p raw rest. awaiting_literal p = None \<Longrightarrow> buf p = raw @ lf # rest \<Longrightarrow>
      lf \<notin> set raw \<Longrightarrow> length (chop_cr raw) \<le> max_line (limits p) \<Longrightarrow>
      P (snd (consume_line (chop_cr raw) (p\<lparr>buf := rest\<rparr>))) \<Longrightarrow> P p"
  shows "P p"
proof (induction p rule: measure_induct_rule
    [where f = "\<lambda>p. 2 * length (buf p) + (if awaiting_literal p = None then 0 else 1)"])
  case (less p)
  show ?case
  proof (cases "awaiting_literal p")
    case (Some n)
    show ?thesis
    proof (cases "pend p")
      case None
      then show ?thesis using wait_literal [OF Some] raise [OF Some] by (meson not_le)
    next
      case pd: (Some pd)
      then show ?thesis
        using wait_literal [OF Some] literal [OF Some _ pd] less Some
        by (cases "n \<le> length (buf p)") (auto simp: take_literal_def)
    qed
  next
    case None
    show ?thesis
    proof (cases "lf \<in> set (buf p)")
      case False
      then show ?thesis using wait_line [OF None] flood [OF None] by (meson not_le)
    next
      case True
      then obtain raw rest where b: "buf p = raw @ lf # rest" "lf \<notin> set raw"
        by (meson split_list_first)
      show ?thesis
      proof (cases "length (chop_cr raw) \<le> max_line (limits p)")
        case True
        then show ?thesis using line [OF None b True] less None b by auto
      next
        case False
        then show ?thesis using long_line [OF None b] by auto
      qed
    qed
  qed
qed

lemmas events_steps = events_wait_literal events_raise events_literal events_wait_line
  events_flood events_long_line events_line

lemma events_limits [simp]: "limits (snd (events p)) = limits p"
  by (induction p rule: events_loop_induct)
     (simp_all add: events_steps Let_def take_literal_def)

subsection \<open>Chunking\<close>

lemma consume_line_feed:
  "consume_line line (feed p b) =
     (fst (consume_line line p), feed (snd (consume_line line p)) b)"
  by (cases "pend p") (auto simp: consume_line_def feed_def Let_def split: option.splits prod.splits)

lemma feed_simps [simp]:
  "buf (feed p b) = buf p @ b" "pend (feed p b) = pend p" "limits (feed p b) = limits p"
  "awaiting_literal (feed p b) = awaiting_literal p"
  by (simp_all add: feed_def)

lemma take_literal_feed:
  "n \<le> length (buf p) \<Longrightarrow> take_literal n pd (feed p b) = feed (take_literal n pd p) b"
  by (simp add: take_literal_def feed_def)

lemma feed_buf_update: "(feed p b)\<lparr>buf := r @ b\<rparr> = feed (p\<lparr>buf := r\<rparr>) b"
  by (simp add: feed_def)

lemma events_feed:
  assumes "\<not> list_ex is_fatal (fst (events p))" and "Raised \<notin> set (fst (events p))"
  shows "events (feed p b) =
    (let r = events p; r2 = events (feed (snd r) b) in (fst r @ fst r2, snd r2))"
  using assms
proof (induction p rule: events_loop_induct)
  case (literal p n pd)
  then have "events (feed p b) = events (feed (take_literal n pd p) b)"
    by (subst events_literal) (auto simp: take_literal_feed)
  then show ?case using literal by (simp add: events_literal)
next
  case (line p raw rest)
  let ?q = "p\<lparr>buf := rest\<rparr>"
  let ?r = "consume_line (chop_cr raw) ?q"
  have eq: "events p = (fst ?r @ fst (events (snd ?r)), snd (events (snd ?r)))"
    using line.hyps by (simp add: events_line Let_def)
  have buf: "buf (feed p b) = raw @ lf # (rest @ b)" using line.hyps by simp
  have "(feed p b)\<lparr>buf := rest @ b\<rparr> = feed ?q b" by (rule feed_buf_update)
  then have "events (feed p b) =
      (let r2 = events (feed (snd ?r) b) in (fst ?r @ fst r2, snd r2))"
    using line.hyps events_line [OF _ buf]
    by (simp add: consume_line_feed feed_buf_update Let_def)
  moreover have "events (feed (snd ?r) b) =
      (let r = events (snd ?r); r2 = events (feed (snd r) b) in (fst r @ fst r2, snd r2))"
    using line.IH line.prems eq by simp
  ultimately show ?case by (simp add: eq Let_def)
qed (simp_all add: events_steps)

lemma feed_Nil [simp]: "feed p [] = p"
  by (simp add: feed_def)

lemma feed_feed [simp]: "feed (feed p a) b = feed p (a @ b)"
  by (simp add: feed_def)

lemma events_idle:
  assumes "\<not> list_ex is_fatal (fst (events p))" and "Raised \<notin> set (fst (events p))"
  shows "events (snd (events p)) = ([], snd (events p))"
  using events_feed [OF assms, of "[]"] by (cases "events p") (auto simp: Let_def prod_eq_iff)

lemma drain_chunks_whole:
  assumes "events p = ([], p)"
    and "\<not> list_ex is_fatal (fst (drain_chunks p cs))" and "Raised \<notin> set (fst (drain_chunks p cs))"
  shows "drain_chunks p cs = events (feed p (concat cs))"
  using assms
proof (induction cs arbitrary: p)
  case (Cons c cs)
  let ?r = "events (feed p c)"
  have nf: "\<not> list_ex is_fatal (fst ?r)" "Raised \<notin> set (fst ?r)"
    using Cons.prems by (auto simp: Let_def)
  have "drain_chunks (snd ?r) cs = events (feed (snd ?r) (concat cs))"
    using Cons.prems by (intro Cons.IH events_idle [OF nf]) (auto simp: Let_def)
  moreover have "events (feed p (concat (c # cs))) =
      (let r2 = events (feed (snd ?r) (concat cs)) in (fst ?r @ fst r2, snd r2))"
    using events_feed [OF nf, of "concat cs"] by (simp add: Let_def)
  ultimately show ?case by (simp add: Let_def)
qed simp

subsection \<open>The invariant of the parser\<close>

fun piece_bytes :: "piece \<Rightarrow> bytes" where
  "piece_bytes (LinePiece b) = b"
| "piece_bytes (LiteralPiece b) = b"

definition held_bytes :: "pending \<Rightarrow> nat" where
  "held_bytes pd = sum_list (map (length \<circ> piece_bytes) (pieces pd))"

definition tag_safe :: "str option \<Rightarrow> bool" where
  "tag_safe t = (case t of None \<Rightarrow> True
     | Some s \<Rightarrow> s \<noteq> [] \<and> length s \<le> 64 \<and> list_all printable_char s)"

definition pending_ok :: "limits \<Rightarrow> nat option \<Rightarrow> pending \<Rightarrow> bool" where
  "pending_ok lim aw pd \<longleftrightarrow> tag_safe (ptag pd)
     \<and> total_bytes pd \<le> max_command_bytes lim \<and> literal_count pd \<le> max_literals lim
     \<and> held_bytes pd + (case aw of None \<Rightarrow> 0 | Some n \<Rightarrow> n) \<le> total_bytes pd"

definition parser_inv :: "cparser \<Rightarrow> bool" where
  "parser_inv p \<longleftrightarrow>
     (case pend p of None \<Rightarrow> awaiting_literal p = None
      | Some pd \<Rightarrow> pending_ok (limits p) (awaiting_literal p) pd)
     \<and> (\<forall>n. awaiting_literal p = Some n \<longrightarrow> n \<le> max_literal (limits p))"

lemma tag_safe_extract_tag [simp]: "tag_safe (extract_tag line)"
  by (auto simp: tag_safe_def extract_tag_def Let_def)

lemma literal_tail_length: "literal_tail line = Some (n, before) \<Longrightarrow> length before \<le> length line"
proof -
  assume a: "literal_tail line = Some (n, before)"
  then obtain c r where r: "rev line = c # r" by (auto simp: literal_tail_def split: list.splits)
  then obtain b bf where d: "dropWhile is_digit r = b # bf" "before = rev bf"
    using a by (auto simp: literal_tail_def Let_def split: if_splits list.splits)
  have "length (dropWhile is_digit r) \<le> length r" by (rule length_dropWhile_le)
  moreover have "length line = Suc (length r)" using r by (metis length_rev length_Cons)
  ultimately show "length before \<le> length line" using d by simp
qed

lemma held_bytes_snoc [simp]:
  "held_bytes (pd\<lparr>pieces := ps @ [x]\<rparr>) = sum_list (map (length \<circ> piece_bytes) ps) + length (piece_bytes x)"
  by (simp add: held_bytes_def)

lemma pending_start:
  assumes "parser_inv p" and "awaiting_literal p = None"
  shows "\<exists>pd. (case pend p of
                  None \<Rightarrow> \<lparr>ptag = extract_tag line, pieces = [], total_bytes = 0, literal_count = 0\<rparr>
                | Some pd \<Rightarrow> pd) = pd \<and> pending_ok (limits p) None pd"
  using assms by (auto simp: parser_inv_def pending_ok_def held_bytes_def split: option.splits)

lemma parser_inv_consume_line:
  assumes "parser_inv p" and "awaiting_literal p = None"
  shows "parser_inv (snd (consume_line line p))"
proof -
  obtain pd where pd: "(case pend p of
        None \<Rightarrow> \<lparr>ptag = extract_tag line, pieces = [], total_bytes = 0, literal_count = 0\<rparr>
      | Some pd \<Rightarrow> pd) = pd" and ok: "pending_ok (limits p) None pd"
    using pending_start [OF assms] by blast
  show ?thesis
  proof (cases "literal_tail line")
    case None
    then show ?thesis
      using assms by (simp add: consume_line_def pd Let_def parser_inv_def)
  next
    case (Some nb)
    obtain n before where nb: "nb = (n, before)" by (cases nb)
    have "length before \<le> length line" using Some nb literal_tail_length by blast
    then show ?thesis
      using assms ok Some nb
      by (auto simp: consume_line_def pd Let_def parser_inv_def pending_ok_def held_bytes_def)
  qed
qed

lemma parser_inv_take_literal:
  assumes "parser_inv p" and "awaiting_literal p = Some n" and "pend p = Some pd"
    and "n \<le> length (buf p)"
  shows "parser_inv (take_literal n pd p)"
  using assms by (auto simp: parser_inv_def pending_ok_def take_literal_def held_bytes_def)

lemma parser_inv_buf [simp]: "parser_inv (p\<lparr>buf := b\<rparr>) = parser_inv p"
  by (cases "pend p") (simp_all add: parser_inv_def)

lemma parser_inv_feed [simp]: "parser_inv (feed p b) = parser_inv p"
  by (simp add: feed_def)

lemma parser_inv_init [simp]: "parser_inv (init_parser lim)"
  by (simp add: parser_inv_def init_parser_def)

lemma parser_inv_clear:
  "parser_inv p \<Longrightarrow> awaiting_literal p = None \<Longrightarrow> parser_inv (p\<lparr>buf := b, pend := None\<rparr>)"
  by (simp add: parser_inv_def)

lemma parser_inv_events: "parser_inv p \<Longrightarrow> parser_inv (snd (events p))"
proof (induction p rule: events_loop_induct)
  case (raise p n)
  then show ?case by (simp add: parser_inv_def)
next
  case (literal p n pd)
  then show ?case by (simp add: events_literal parser_inv_take_literal)
next
  case (line p raw rest)
  then show ?case
    by (simp add: events_line Let_def parser_inv_consume_line)
next
  case (flood p)
  then show ?case by (simp add: events_flood parser_inv_clear)
next
  case (long_line p raw rest)
  then show ?case by (simp add: events_long_line parser_inv_clear)
qed (simp_all add: events_wait_literal events_wait_line)

definition event_ok :: "limits \<Rightarrow> event \<Rightarrow> bool" where
  "event_ok lim e = (case e of
     Raised \<Rightarrow> False
   | ContinuationRequest n \<Rightarrow> n \<le> max_literal lim
   | ParseError t _ _ \<Rightarrow> tag_safe t
   | Command c \<Rightarrow> CHR ''+'' \<notin> set (cmd_tag c) \<and> CHR ''*'' \<notin> set (cmd_tag c)
       \<and> py_upper (cmd_name c) = cmd_name c)"

lemma event_ok_build_command: "tag_safe (ptag pd) \<Longrightarrow> event_ok lim (build_command pd)"
  by (auto simp: build_command_def event_ok_def tag_safe_def
      split: sum.splits list.splits token.splits if_splits)

lemma event_ok_consume_line:
  assumes "parser_inv p" and "awaiting_literal p = None"
  shows "list_all (event_ok (limits p)) (fst (consume_line line p))"
proof -
  obtain pd where pd: "(case pend p of
        None \<Rightarrow> \<lparr>ptag = extract_tag line, pieces = [], total_bytes = 0, literal_count = 0\<rparr>
      | Some pd \<Rightarrow> pd) = pd" and ok: "pending_ok (limits p) None pd"
    using pending_start [OF assms] by blast
  then have "tag_safe (ptag pd)" by (simp add: pending_ok_def)
  then show ?thesis
    by (auto simp: consume_line_def pd Let_def event_ok_def intro: event_ok_build_command
        split: option.splits)
       (simp add: event_ok_build_command event_ok_def [symmetric])
qed

lemma events_ok: "parser_inv p \<Longrightarrow> list_all (event_ok (limits p)) (fst (events p))"
proof (induction p rule: events_loop_induct)
  case (raise p n)
  then show ?case by (simp add: parser_inv_def)
next
  case (literal p n pd)
  then show ?case
    by (simp add: events_steps parser_inv_take_literal) (simp add: take_literal_def)
next
  case (line p raw rest)
  let ?q = "p\<lparr>buf := rest\<rparr>"
  have "list_all (event_ok (limits p)) (fst (consume_line (chop_cr raw) ?q))"
    using event_ok_consume_line [of ?q] line by simp
  moreover have "list_all (event_ok (limits p)) (fst (events (snd (consume_line (chop_cr raw) ?q))))"
    using line parser_inv_consume_line [of ?q] by simp
  ultimately show ?case using line by (simp add: events_steps Let_def)
qed (simp_all add: events_steps event_ok_def tag_safe_def)

lemma drain_chunks_inv:
  "parser_inv p \<Longrightarrow> parser_inv (snd (drain_chunks p cs))
     \<and> list_all (event_ok (limits p)) (fst (drain_chunks p cs))
     \<and> limits (snd (drain_chunks p cs)) = limits p"
proof (induction cs arbitrary: p)
  case (Cons c cs)
  have "parser_inv (snd (events (feed p c)))" using Cons.prems by (simp add: parser_inv_events)
  then show ?case
    using Cons.IH [of "snd (events (feed p c))"] events_ok [of "feed p c"] Cons.prems
    by (simp add: Let_def)
qed simp

lemma event_ok_not_Raised: "list_all (event_ok lim) es \<Longrightarrow> Raised \<notin> set es"
  by (auto simp: list_all_iff event_ok_def)

subsection \<open>What the parser holds between two reads\<close>

definition parser_memory :: "cparser \<Rightarrow> nat" where
  "parser_memory p = length (buf p) + (case pend p of None \<Rightarrow> 0 | Some pd \<Rightarrow> held_bytes pd)"

lemma events_buffer:
  "parser_inv p \<Longrightarrow> \<not> list_ex is_fatal (fst (events p)) \<Longrightarrow>
   length (buf (snd (events p))) \<le> max (max_line (limits p)) (max_literal (limits p))"
proof (induction p rule: events_loop_induct)
  case (wait_literal p n)
  then show ?case by (auto simp: events_steps parser_inv_def)
next
  case (raise p n)
  then show ?case by (simp add: parser_inv_def)
next
  case (literal p n pd)
  then show ?case
    by (simp add: events_steps parser_inv_take_literal) (simp add: take_literal_def)
next
  case (line p raw rest)
  then show ?case
    by (simp add: events_steps Let_def parser_inv_consume_line)
qed (auto simp: events_steps)

lemma parser_memory_bound:
  assumes "parser_inv p" and "length (buf p) \<le> b"
  shows "parser_memory p \<le> b + max_command_bytes (limits p)"
  using assms by (auto simp: parser_memory_def parser_inv_def pending_ok_def split: option.splits)

subsection \<open>The literal protocol\<close>

lemma not_fatal_build_command [simp]: "\<not> is_fatal (build_command pd)"
  by (auto simp: build_command_def split: sum.splits list.splits token.splits)

lemma consume_line_not_fatal: "\<not> list_ex is_fatal (fst (consume_line line p))"
  by (auto simp: consume_line_def Let_def split: option.splits)

lemma chop_cr_snoc [simp]: "chop_cr (line @ [cr]) = line"
  by (simp add: chop_cr_def)

lemma events_first_line:
  assumes "lf \<notin> set line" and "length line \<le> max_line lim" and "awaiting_literal p = None"
    and "limits p = lim" and "buf p = line @ [cr, lf] @ rest"
  shows "events p = (let r = consume_line line (p\<lparr>buf := rest\<rparr>); r2 = events (snd r)
               in (fst r @ fst r2, snd r2))"
proof -
  have "buf p = (line @ [cr]) @ lf # rest" using assms(5) by simp
  moreover have "lf \<notin> set (line @ [cr])" using assms(1) by (simp add: special_chars)
  ultimately show ?thesis using events_line [OF assms(3), of "line @ [cr]" rest] assms by simp
qed

text \<open>C13: A literal is delivered octet for octet: a line that announces \<open>n\<close> octets within the limits is
  answered with one continuation request, the next \<open>n\<close> octets, whatever they are, become one literal
  piece, and the tail of the command is tokenized after it.\<close>

theorem literal_delivered_verbatim:
  assumes "lf \<notin> set line" and "CHR 0x00 \<notin> set line" and "length line \<le> max_line lim"
    and "literal_tail line = Some (length data, before)"
    and "lf \<notin> set tail" and "CHR 0x00 \<notin> set tail" and "length tail \<le> max_line lim"
    and "literal_tail tail = None"
    and "length data \<le> max_literal lim" and "1 \<le> max_literals lim"
    and "length line + length data + length tail + 4 \<le> max_command_bytes lim"
  shows "events (feed (init_parser lim) (line @ [cr, lf] @ data @ tail @ [cr, lf])) =
    ([ContinuationRequest (length data),
      build_command \<lparr>ptag = extract_tag line,
        pieces = [LinePiece before, LiteralPiece data, LinePiece tail],
        total_bytes = length line + length data + length tail + 4, literal_count = 1\<rparr>],
     init_parser lim)"
proof -
  let ?p = "feed (init_parser lim) (line @ [cr, lf] @ data @ tail @ [cr, lf])"
  let ?pd = "\<lparr>ptag = extract_tag line, pieces = [LinePiece before],
               total_bytes = length line + 2 + length data, literal_count = 1\<rparr>"
  let ?q = "\<lparr>limits = lim, buf = data @ tail @ [cr, lf], pend = Some ?pd,
              awaiting_literal = Some (length data)\<rparr>"
  let ?q' = "\<lparr>limits = lim, buf = tail @ [cr, lf], pend = Some (?pd\<lparr>pieces := [LinePiece before, LiteralPiece data]\<rparr>),
              awaiting_literal = None\<rparr>"
  have p: "consume_line line (?p\<lparr>buf := data @ tail @ [cr, lf]\<rparr>) = ([ContinuationRequest (length data)], ?q)"
    using assms by (simp add: consume_line_def init_parser_def feed_def Let_def)
  have "events ?p = (let r2 = events ?q in (ContinuationRequest (length data) # fst r2, snd r2))"
    using events_first_line [of line lim ?p "data @ tail @ [cr, lf]"] assms p
    by (simp add: init_parser_def feed_def Let_def)
  moreover have "events ?q = events ?q'"
    by (subst events_literal [of _ "length data" ?pd]) (simp_all add: take_literal_def)
  moreover have "events ?q' = (let r = consume_line tail (?q'\<lparr>buf := []\<rparr>); r2 = events (snd r)
      in (fst r @ fst r2, snd r2))"
    using events_first_line [of tail lim ?q' "[]"] assms by simp
  moreover have "consume_line tail (?q'\<lparr>buf := []\<rparr>) =
     ([build_command \<lparr>ptag = extract_tag line,
        pieces = [LinePiece before, LiteralPiece data, LinePiece tail],
        total_bytes = length line + length data + length tail + 4, literal_count = 1\<rparr>], init_parser lim)"
    using assms by (simp add: consume_line_def init_parser_def Let_def add_ac eval_nat_numeral)
  moreover have "events (init_parser lim) = ([], init_parser lim)"
    by (rule events_wait_line) (simp_all add: init_parser_def)
  ultimately show ?thesis by (simp add: Let_def)
qed

theorem literal_delivered_verbatim_witness:
  "events (feed (init_parser default_limits) (''a LOGIN {3}'' @ [cr, lf] @ [lf, CHR 0x00, cr] @ '' pw'' @ [cr, lf])) =
    ([ContinuationRequest 3,
      build_command \<lparr>ptag = extract_tag ''a LOGIN {3}'',
        pieces = [LinePiece ''a LOGIN '', LiteralPiece [lf, CHR 0x00, cr], LinePiece '' pw''],
        total_bytes = 21, literal_count = 1\<rparr>],
     init_parser default_limits)"
proof -
  have "literal_tail ''a LOGIN {3}'' = Some (length [lf, CHR 0x00, cr], ''a LOGIN '')"
    and "literal_tail '' pw'' = None"
    by code_simp+
  then show ?thesis
    using literal_delivered_verbatim [of "''a LOGIN {3}''" default_limits "[lf, CHR 0x00, cr]" "''a LOGIN ''" "'' pw''"]
    by (simp add: default_limits_def special_chars)
qed

lemma chunking:
  assumes "\<not> list_ex is_fatal (fst (drain_chunks (init_parser lim) chunks))"
  shows "drain_chunks (init_parser lim) chunks = events (feed (init_parser lim) (concat chunks))"
proof (rule drain_chunks_whole [OF _ assms])
  show "events (init_parser lim) = ([], init_parser lim)"
    by (rule events_wait_line) (simp_all add: init_parser_def)
  show "Raised \<notin> set (fst (drain_chunks (init_parser lim) chunks))"
    using drain_chunks_inv [of "init_parser lim" chunks] event_ok_not_Raised by fastforce
qed

text \<open>C8: The parse does not depend on how TCP cuts the stream: feeding the chunks one by one, draining
  the events after each as the session does, yields the same events and leaves the same state as feeding
  the whole stream at once, unless a fatal error closes the connection on the way.\<close>

theorem chunking_independent:
  assumes "\<not> list_ex is_fatal (fst (drain_chunks (init_parser lim) chunks))"
  shows "drain_chunks (init_parser lim) chunks = events (feed (init_parser lim) (concat chunks))"
  by (rule chunking [OF assms])

theorem chunking_independent_witness:
  "drain_chunks (init_parser \<lparr>max_line = 20, max_literal = 8, max_command_bytes = 30, max_literals = 2\<rparr>) [''a NO'', ''OP'' @ [cr], [lf]]
     = events (feed (init_parser \<lparr>max_line = 20, max_literal = 8, max_command_bytes = 30, max_literals = 2\<rparr>) (''a NOOP'' @ [cr, lf]))"
proof -
  have "\<not> list_ex is_fatal (fst (drain_chunks (init_parser \<lparr>max_line = 20, max_literal = 8, max_command_bytes = 30, max_literals = 2\<rparr>) [''a NO'', ''OP'' @ [cr], [lf]]))"
    by code_simp
  from chunking_independent [OF this] show ?thesis by simp
qed

text \<open>The size limit is cut-dependent for one length: a line of exactly \<open>max_line\<close> bytes is accepted
  when its CR LF arrives with it, and ends the connection when the LF arrives in a later read.\<close>

theorem max_line_depends_on_cut:
  assumes "length line = max_line lim" and "lf \<notin> set line" and "literal_tail line = None"
  shows "\<not> list_ex is_fatal (fst (drain_chunks (init_parser lim) [line @ [cr, lf]]))
    \<and> list_ex is_fatal (fst (drain_chunks (init_parser lim) [line @ [cr], [lf]]))"
proof
  let ?p = "feed (init_parser lim) (line @ [cr, lf])"
  let ?r = "consume_line line (?p\<lparr>buf := []\<rparr>)"
  have q: "awaiting_literal (snd ?r) = None" "buf (snd ?r) = []"
    using assms(3) by (auto simp: consume_line_def init_parser_def feed_def Let_def)
  then have "events (snd ?r) = ([], snd ?r)" by (simp add: events_wait_line)
  then have "fst (events ?p) = fst ?r"
    using events_first_line [of line lim ?p "[]"] assms by (simp add: init_parser_def feed_def Let_def)
  then show "\<not> list_ex is_fatal (fst (drain_chunks (init_parser lim) [line @ [cr, lf]]))"
    using consume_line_not_fatal [of line] by (simp add: Let_def)
next
  let ?p = "feed (init_parser lim) (line @ [cr])"
  have "lf \<notin> set (line @ [cr])" using assms(2) by (simp add: special_chars)
  then have "events ?p = ([ParseError None ''line too long'' True], ?p\<lparr>buf := [], pend := None\<rparr>)"
    using events_flood [of ?p] assms(1) by (simp add: init_parser_def feed_def)
  then show "list_ex is_fatal (fst (drain_chunks (init_parser lim) [line @ [cr], [lf]]))"
    by (simp add: Let_def)
qed

theorem max_line_depends_on_cut_witness:
  "\<not> list_ex is_fatal (fst (drain_chunks (init_parser (default_limits\<lparr>max_line := 6\<rparr>)) [''a NOOP'' @ [cr, lf]]))
    \<and> list_ex is_fatal (fst (drain_chunks (init_parser (default_limits\<lparr>max_line := 6\<rparr>)) [''a NOOP'' @ [cr], [lf]]))"
proof -
  have "literal_tail ''a NOOP'' = None" by code_simp
  then show ?thesis
    using max_line_depends_on_cut [of "''a NOOP''" "default_limits\<lparr>max_line := 6\<rparr>"]
    by (simp add: special_chars)
qed

text \<open>C10: Whatever bytes a client sends and however they are cut, the generator never raises: its assertion
  never fails, every continuation request stays within \<open>max_literal\<close>, every tag reported with an error
  is 1 to 64 printable ASCII characters, and every command has an upper-case name and a tag free
  of \<open>+\<close> and \<open>*\<close>.\<close>

theorem parser_events_well_formed:
  "list_all (event_ok lim) (fst (drain_chunks (init_parser lim) chunks))
     \<and> Raised \<notin> set (fst (drain_chunks (init_parser lim) chunks))
     \<and> parser_inv (snd (drain_chunks (init_parser lim) chunks))"
proof -
  have "limits (init_parser lim) = lim" by (simp add: init_parser_def)
  then show ?thesis
    using drain_chunks_inv [of "init_parser lim" chunks] event_ok_not_Raised by fastforce
qed

text \<open>C17: The memory of the parser between two reads is bounded by its limits: one line or literal of
  unread bytes plus the pieces of one command.\<close>

theorem parser_memory_bounded:
  assumes "\<not> list_ex is_fatal (fst (drain_chunks (init_parser lim) chunks))"
  shows "parser_memory (snd (drain_chunks (init_parser lim) chunks))
     \<le> max (max_line lim) (max_literal lim) + max_command_bytes lim"
proof -
  let ?p = "feed (init_parser lim) (concat chunks)"
  have eq: "drain_chunks (init_parser lim) chunks = events ?p"
    by (rule chunking [OF assms])
  have p: "parser_inv ?p" "limits ?p = lim" by (simp, simp add: init_parser_def)
  have "length (buf (snd (events ?p))) \<le> max (max_line lim) (max_literal lim)"
    using events_buffer [OF p(1)] assms eq p(2) by simp
  then show ?thesis
    using parser_memory_bound [of "snd (events ?p)"] parser_inv_events [OF p(1)] eq p(2) by simp
qed

theorem parser_memory_bounded_witness:
  "parser_memory (snd (drain_chunks (init_parser \<lparr>max_line = 20, max_literal = 8, max_command_bytes = 30, max_literals = 2\<rparr>) [''a NOOP'', [cr]]))
     \<le> max (max_line \<lparr>max_line = 20, max_literal = 8, max_command_bytes = 30, max_literals = 2\<rparr>) (max_literal \<lparr>max_line = 20, max_literal = 8, max_command_bytes = 30, max_literals = 2\<rparr>) + max_command_bytes \<lparr>max_line = 20, max_literal = 8, max_command_bytes = 30, max_literals = 2\<rparr>"
proof (rule parser_memory_bounded)
  show "\<not> list_ex is_fatal (fst (drain_chunks (init_parser \<lparr>max_line = 20, max_literal = 8, max_command_bytes = 30, max_literals = 2\<rparr>) [''a NOOP'', [cr]]))"
    by code_simp
qed

end
