(* ===== verification/Fetch_Grammar.thy ===== *)
theory Fetch_Grammar
  imports Imap_Parser
begin

text \<open>
  \<open>imapgw/fetch.py\<close>: sequence sets, the grammar of FETCH attributes, and the slicing of raw
  messages into sections. The regular expressions of the source are written out as matchers; an
  \<open>int()\<close> over more than 4300 digits is the error \<open>PyValueError\<close>, which no caller catches.

  The lemmas give the meaning of \<open>select_numbers\<close> as set membership, that a FETCH attribute list
  is answered once per label without losing the \<open>\\Seen\<close> side effect, and that the sections of a
  message partition its bytes.
\<close>

datatype fetch_error = FetchSyntaxError str | UnsupportedFetch str | PyValueError

subsection \<open>Sequence sets\<close>

datatype sequence_set = SequenceSet (seq_ranges: "(nat \<times> nat) list")

definition star_mark :: nat where "star_mark = 2 ^ 32"

definition seq_contains :: "sequence_set \<Rightarrow> nat \<Rightarrow> bool" where
  "seq_contains q n \<longleftrightarrow> list_ex (\<lambda>(lo, hi). lo \<le> n \<and> n \<le> hi) (seq_ranges q)"

definition has_star :: "sequence_set \<Rightarrow> bool" where
  "has_star q \<longleftrightarrow> list_ex (\<lambda>(lo, hi). hi = star_mark) (seq_ranges q)"

definition seq_number :: "str \<Rightarrow> fetch_error + nat" where
  "seq_number text =
     (if text = ''*'' then Inr star_mark
      else if \<not> py_isdigit text then Inl (FetchSyntaxError ''invalid sequence number'')
      else (case py_int text of
          None \<Rightarrow> Inl PyValueError
        | Some value \<Rightarrow>
            if value = 0 then Inl (FetchSyntaxError ''sequence numbers start at 1'')
            else Inr value))"

definition parse_range :: "str \<Rightarrow> fetch_error + nat \<times> nat" where
  "parse_range part =
     (if part = [] then Inl (FetchSyntaxError ''empty item in sequence set'')
      else (case partition_at (CHR '':'') part of (lo_s, colon, hi_s) \<Rightarrow>
        if colon \<and> hi_s = [] then Inl (FetchSyntaxError ''invalid range in sequence set'')
        else ebind (seq_number lo_s) (\<lambda>lo.
          ebind (if hi_s \<noteq> [] then seq_number hi_s else Inr lo) (\<lambda>hi.
            Inr (if hi < lo then (hi, lo) else (lo, hi))))))"

definition parse_sequence_set :: "str \<Rightarrow> fetch_error + sequence_set" where
  "parse_sequence_set text =
     (if text = [] then Inl (FetchSyntaxError ''empty sequence set'')
      else ebind (emap parse_range (split_on (CHR '','') text)) (\<lambda>rs. Inr (SequenceSet rs)))"

text \<open>One range of \<open>select_numbers\<close>, with \<open>*\<close> read as the largest candidate.\<close>

definition in_range :: "nat \<Rightarrow> nat \<Rightarrow> nat \<times> nat \<Rightarrow> bool" where
  "in_range largest n r = (case r of (lo, hi) \<Rightarrow>
     (let lo_r = (if lo = star_mark then largest else lo);
          hi_r = (if hi = star_mark then largest else hi)
      in if hi_r < lo_r then hi_r \<le> n \<and> n \<le> lo_r else lo_r \<le> n \<and> n \<le> hi_r))"

definition select_numbers :: "sequence_set \<Rightarrow> nat list \<Rightarrow> nat list" where
  "select_numbers q candidates =
     (if candidates = [] then []
      else filter (\<lambda>n. list_ex (in_range (last candidates) n) (seq_ranges q)) candidates)"

subsection \<open>Fetch attributes\<close>

record fetch_attr =
  fa_kind :: str
  fa_label :: str
  fa_peek :: bool
  fa_section :: str
  fa_fields :: "str list"
  fa_partial :: "(nat \<times> nat) option"

definition needs_body :: "fetch_attr \<Rightarrow> bool" where
  "needs_body a \<longleftrightarrow> fa_kind a = ''BODY''"

definition simple_attr :: "str \<Rightarrow> fetch_attr" where
  "simple_attr k = \<lparr>fa_kind = k, fa_label = k, fa_peek = True, fa_section = [],
     fa_fields = [], fa_partial = None\<rparr>"

definition body_attr ::
    "str \<Rightarrow> bool \<Rightarrow> str \<Rightarrow> str list \<Rightarrow> (nat \<times> nat) option \<Rightarrow> fetch_attr" where
  "body_attr label pk section fnames part =
     \<lparr>fa_kind = ''BODY'', fa_label = label, fa_peek = pk, fa_section = section,
      fa_fields = fnames, fa_partial = part\<rparr>"

definition simple_items :: "str list" where
  "simple_items = [''UID'', ''FLAGS'', ''INTERNALDATE'', ''RFC822.SIZE'']"

definition unsupported_items :: "str list" where
  "unsupported_items = [''ENVELOPE'', ''BODYSTRUCTURE'', ''BODY'']"

definition fast_macro :: "str list" where
  "fast_macro = [''FLAGS'', ''INTERNALDATE'', ''RFC822.SIZE'']"

text \<open>The body of a quoted field name, up to its closing quote (\<open>((?:[^"\\]|\\.)*)"\<close>).\<close>

fun scan_quoted :: "str \<Rightarrow> str \<Rightarrow> (str \<times> str) option" where
  "scan_quoted acc [] = None"
| "scan_quoted acc (c # s) =
     (if c = dquote then Some (acc, s)
      else if c = backslash then
        (case s of [] \<Rightarrow> None | d # s' \<Rightarrow> if d = lf then None else scan_quoted (acc @ [c, d]) s')
      else scan_quoted (acc @ [c]) s)"

lemma scan_quoted_length: "scan_quoted acc s = Some (v, rest) \<Longrightarrow> length rest < length s"
  by (induction acc s rule: scan_quoted.induct) (auto split: if_splits list.splits)

definition unescape_name :: "str \<Rightarrow> str" where
  "unescape_name s =
     replace_all [backslash, backslash] [backslash] (replace_all [backslash, dquote] [dquote] s)"

function split_field_names :: "str \<Rightarrow> str list" where
  "split_field_names [] = []"
| "split_field_names (c # s) =
     (case (if c = dquote then scan_quoted [] s else None) of
        Some (quoted, rest) \<Rightarrow> unescape_name quoted # split_field_names rest
      | None \<Rightarrow>
          if str_space c then split_field_names s
          else (c # takeWhile (\<lambda>x. \<not> str_space x) s)
               # split_field_names (dropWhile (\<lambda>x. \<not> str_space x) s))"
  by pat_completeness auto
termination
  by (relation "measure length")
     (auto split: if_splits dest: scan_quoted_length simp: le_imp_less_Suc length_dropWhile_le)

text \<open>\<open>_FIELDS_RE\<close>: the upper-cased section name and the text between the parentheses.\<close>

definition match_fields :: "str \<Rightarrow> (str \<times> str) option" where
  "match_fields text =
     (if py_upper (take 13 text) \<noteq> ''HEADER.FIELDS'' then None
      else (let r = drop 13 text;
                negated = (py_upper (take 4 r) = ''.NOT'');
                r2 = dropWhile str_space (if negated then drop 4 r else r)
            in (case r2 of
                  [] \<Rightarrow> None
                | c # inner \<Rightarrow>
                    if c = CHR ''('' \<and> inner \<noteq> [] \<and> last inner = CHR '')''
                    then Some (if negated then ''HEADER.FIELDS.NOT'' else ''HEADER.FIELDS'', butlast inner)
                    else None)))"

definition parse_section :: "str \<Rightarrow> fetch_error + str \<times> str list" where
  "parse_section text =
     (if text = [] then Inr ([], [])
      else if py_upper text = ''HEADER'' \<or> py_upper text = ''TEXT'' then Inr (py_upper text, [])
      else (case match_fields text of
          Some (section, inner) \<Rightarrow>
            (let names = split_field_names inner in
             if names = [] then Inl (FetchSyntaxError ''HEADER.FIELDS requires at least one field name'')
             else Inr (section, map py_upper names))
        | None \<Rightarrow>
            if py_upper text = ''MIME'' \<or> is_digit (hd text)
            then Inl (UnsupportedFetch ''unsupported body section (part numbers are not implemented)'')
            else Inl (FetchSyntaxError ''invalid body section'')))"

text \<open>The optional partial \<open><offset.count>\<close> after the section: digits only.\<close>

definition match_partial :: "str \<Rightarrow> (str \<times> str) option option" where
  "match_partial s = (case s of
     [] \<Rightarrow> Some None
   | c # r \<Rightarrow>
       if c \<noteq> CHR ''<'' then None
       else (let a = takeWhile is_digit r; r1 = dropWhile is_digit r in
         (case r1 of
            [] \<Rightarrow> None
          | d # r2 \<Rightarrow>
              (let b = takeWhile is_digit r2; r3 = dropWhile is_digit r2 in
               if a \<noteq> [] \<and> d = CHR ''.'' \<and> b \<noteq> [] \<and> r3 = ''>'' then Some (Some (a, b)) else None))))"

text \<open>\<open>_BODY_RE\<close>: whether PEEK was given, the section text and the partial. The section runs to the
  last closing bracket, as the greedy match does.\<close>

definition match_body :: "str \<Rightarrow> (bool \<times> str \<times> (str \<times> str) option) option" where
  "match_body s =
     (let peek_form = (py_upper (take 10 s) = ''BODY.PEEK['');
          plain_form = (py_upper (take 5 s) = ''BODY['')
      in if \<not> peek_form \<and> \<not> plain_form then None
         else (let r = (if peek_form then drop 10 s else drop 5 s) in
           (case partition_at (CHR '']'') (rev r) of (after, found, before) \<Rightarrow>
              if \<not> found then None
              else (case match_partial (rev after) of
                  None \<Rightarrow> None
                | Some part \<Rightarrow> Some (peek_form, rev before, part)))))"

definition int_pair :: "(str \<times> str) option \<Rightarrow> fetch_error + (nat \<times> nat) option" where
  "int_pair p = (case p of
     None \<Rightarrow> Inr None
   | Some (a, b) \<Rightarrow>
       (case (py_int a, py_int b) of
          (Some x, Some y) \<Rightarrow> Inr (Some (x, y))
        | _ \<Rightarrow> Inl PyValueError))"

definition parse_attr :: "str \<Rightarrow> fetch_error + fetch_attr" where
  "parse_attr nm =
     (let upper = py_upper nm in
      if upper \<in> set simple_items then Inr (simple_attr upper)
      else if upper = ''RFC822'' then Inr (body_attr ''RFC822'' False [] [] None)
      else if upper = ''RFC822.HEADER'' then Inr (body_attr ''RFC822.HEADER'' True ''HEADER'' [] None)
      else if upper = ''RFC822.TEXT'' then Inr (body_attr ''RFC822.TEXT'' False ''TEXT'' [] None)
      else if upper \<in> set unsupported_items
        then Inl (UnsupportedFetch (''unsupported fetch item '' @ upper))
      else (case match_body nm of
          None \<Rightarrow> Inl (FetchSyntaxError ''invalid fetch item'')
        | Some (pk, raw_section, part_s) \<Rightarrow>
            ebind (int_pair part_s) (\<lambda>part.
              ebind (parse_section (py_strip raw_section)) (\<lambda>(section, fnames).
                let label_section =
                      (if section = ''HEADER.FIELDS'' \<or> section = ''HEADER.FIELDS.NOT''
                       then section @ '' ('' @ join_with '' '' fnames @ '')'' else section);
                    label = ''BODY['' @ label_section @ '']''
                      @ (case part of None \<Rightarrow> [] | Some (o1, _) \<Rightarrow> ''<'' @ nat_str o1 @ ''>'')
                in Inr (body_attr label pk section fnames part)))))"

text \<open>The loop that answers each label once: the dictionary \<open>by_label\<close> and the list \<open>order\<close>.\<close>

definition merge_attr ::
    "(str \<rightharpoonup> fetch_attr) \<times> str list \<Rightarrow> fetch_attr \<Rightarrow> (str \<rightharpoonup> fetch_attr) \<times> str list" where
  "merge_attr st a = (case st of (by_label, order) \<Rightarrow>
     (case by_label (fa_label a) of
        None \<Rightarrow> (by_label(fa_label a \<mapsto> a), order @ [fa_label a])
      | Some existing \<Rightarrow>
          if fa_peek existing \<and> \<not> fa_peek a
          then (by_label(fa_label a \<mapsto> existing\<lparr>fa_peek := False\<rparr>), order)
          else (by_label, order)))"

definition merge_attrs :: "fetch_attr list \<Rightarrow> fetch_attr list" where
  "merge_attrs attrs = (case foldl merge_attr (Map.empty, []) attrs of (by_label, order) \<Rightarrow>
     map (\<lambda>l. the (by_label l)) order)"

fun atom_value :: "token \<Rightarrow> fetch_error + str" where
  "atom_value (Atom v) = Inr v"
| "atom_value _ = Inl (FetchSyntaxError ''fetch attributes must be atoms'')"

definition attr_names :: "token \<Rightarrow> fetch_error + str list" where
  "attr_names tok = (case tok of
     ListTok items \<Rightarrow>
       ebind (emap atom_value items) (\<lambda>names.
         if names = [] then Inl (FetchSyntaxError ''empty fetch attribute list'') else Inr names)
   | Atom v \<Rightarrow>
       (let upper = py_upper v in
        if upper = ''FAST'' then Inr fast_macro
        else if upper = ''ALL'' \<or> upper = ''FULL''
        then Inl (UnsupportedFetch (''unsupported fetch macro '' @ upper @ '' (ENVELOPE is not implemented)''))
        else Inr [v])
   | _ \<Rightarrow> Inl (FetchSyntaxError ''invalid fetch attributes''))"

definition parse_fetch_attributes :: "token \<Rightarrow> fetch_error + fetch_attr list" where
  "parse_fetch_attributes tok =
     ebind (attr_names tok) (\<lambda>names.
       ebind (emap parse_attr names) (\<lambda>attrs. Inr (merge_attrs attrs)))"

fun unsupported_tokens :: "token list \<Rightarrow> fetch_error + unit" where
  "unsupported_tokens [] = Inr ()"
| "unsupported_tokens (QuotedStr _ # _) = Inl (FetchSyntaxError ''fetch attributes must be atoms'')"
| "unsupported_tokens (_ # items) = unsupported_tokens items"

subsection \<open>Section slicing\<close>

definition split_message :: "bytes \<Rightarrow> bytes \<times> bytes" where
  "split_message raw = (case find_sub [cr, lf, cr, lf] raw of
     Some idx \<Rightarrow> (take (idx + 4) raw, drop (idx + 4) raw)
   | None \<Rightarrow>
       (case find_sub [lf, lf] raw of
          Some idx \<Rightarrow> (take (idx + 2) raw, drop (idx + 2) raw)
        | None \<Rightarrow> (raw, [])))"

text \<open>\<open>bytes.splitlines(keepends=True)\<close>.\<close>

fun splitlines_keep :: "bytes \<Rightarrow> bytes list" where
  "splitlines_keep [] = []"
| "splitlines_keep (c # s) =
     (if c = lf then [c] # splitlines_keep s
      else if c = cr then
        (case s of
           [] \<Rightarrow> [[c]]
         | d # t \<Rightarrow> if d = lf then [c, d] # splitlines_keep t else [c] # splitlines_keep s)
      else (case splitlines_keep s of [] \<Rightarrow> [[c]] | w # ws \<Rightarrow> (c # w) # ws))"

fun header_lines_loop :: "bytes list \<Rightarrow> bytes list \<Rightarrow> bytes list" where
  "header_lines_loop lines [] = lines"
| "header_lines_loop lines (physical # rest) =
     (if physical = [cr, lf] \<or> physical = [lf] then lines
      else if (take 1 physical = '' '' \<or> take 1 physical = [CHR 0x09]) \<and> lines \<noteq> []
      then header_lines_loop (butlast lines @ [last lines @ physical]) rest
      else header_lines_loop (lines @ [physical]) rest)"

definition header_lines :: "bytes \<Rightarrow> bytes list" where
  "header_lines header = header_lines_loop [] (splitlines_keep header)"

definition field_of_line :: "bytes \<Rightarrow> bytes" where
  "field_of_line line = py_upper (bytes_strip (fst (partition_at (CHR '':'') line)))"

definition keep_line :: "str list \<Rightarrow> bool \<Rightarrow> bytes \<Rightarrow> bool" where
  "keep_line names invert line \<longleftrightarrow> (field_of_line line \<in> set (map py_upper names)) \<noteq> invert"

definition terminate_line :: "bytes \<Rightarrow> bytes" where
  "terminate_line line = (if line \<noteq> [] \<and> last line = lf then line else line @ [cr, lf])"

definition filter_header :: "bytes \<Rightarrow> str list \<Rightarrow> bool \<Rightarrow> bytes" where
  "filter_header header names invert =
     concat (map terminate_line (filter (keep_line names invert) (header_lines header))) @ [cr, lf]"

definition section_data :: "bytes \<Rightarrow> fetch_attr \<Rightarrow> fetch_error + bytes" where
  "section_data raw a =
     (if fa_section a = [] then Inr raw
      else if fa_section a = ''HEADER'' then Inr (fst (split_message raw))
      else if fa_section a = ''TEXT'' then Inr (snd (split_message raw))
      else if fa_section a = ''HEADER.FIELDS''
        then Inr (filter_header (fst (split_message raw)) (fa_fields a) False)
      else if fa_section a = ''HEADER.FIELDS.NOT''
        then Inr (filter_header (fst (split_message raw)) (fa_fields a) True)
      else Inl (UnsupportedFetch (fa_section a)))"

definition section_bytes :: "bytes \<Rightarrow> fetch_attr \<Rightarrow> fetch_error + bytes" where
  "section_bytes raw a = ebind (section_data raw a) (\<lambda>data.
     Inr (case fa_partial a of None \<Rightarrow> data | Some (offset, cnt) \<Rightarrow> take cnt (drop offset data)))"

subsection \<open>Facts on sequence sets\<close>

definition resolve_star :: "nat \<Rightarrow> nat \<Rightarrow> nat" where
  "resolve_star largest n = (if n = star_mark then largest else n)"

lemma in_range_iff:
  "in_range largest n (lo, hi) \<longleftrightarrow>
     min (resolve_star largest lo) (resolve_star largest hi) \<le> n
     \<and> n \<le> max (resolve_star largest lo) (resolve_star largest hi)"
  by (auto simp: in_range_def resolve_star_def Let_def)

lemma set_select_numbers:
  "set (select_numbers q cs) = {n \<in> set cs. \<exists>r \<in> set (seq_ranges q). in_range (last cs) n r}"
  by (auto simp: select_numbers_def list_ex_iff)

lemma select_numbers_subset: "set (select_numbers q cs) \<subseteq> set cs"
  by (auto simp: set_select_numbers)

lemma select_numbers_sorted: "sorted_wrt (<) cs \<Longrightarrow> sorted_wrt (<) (select_numbers q cs)"
  by (simp add: select_numbers_def sorted_wrt_filter)

lemma select_numbers_star:
  assumes "has_star q" and "cs \<noteq> []"
  shows "last cs \<in> set (select_numbers q cs)"
proof -
  obtain lo where "(lo, star_mark) \<in> set (seq_ranges q)"
    using assms by (auto simp: has_star_def list_ex_iff)
  moreover have "in_range (last cs) (last cs) (lo, star_mark)"
    by (simp add: in_range_iff resolve_star_def)
  ultimately show ?thesis using assms by (auto simp: set_select_numbers)
qed

lemma seq_number_pos: "seq_number t = Inr n \<Longrightarrow> 0 < n"
  by (auto simp: seq_number_def star_mark_def split: if_splits option.splits)

lemma parse_range_bounds: "parse_range t = Inr (lo, hi) \<Longrightarrow> 0 < lo \<and> lo \<le> hi"
  by (auto simp: parse_range_def split: if_splits prod.splits dest!: seq_number_pos)

lemma parse_sequence_set_bounds:
  assumes "parse_sequence_set t = Inr q" and "(lo, hi) \<in> set (seq_ranges q)"
  shows "0 < lo \<and> lo \<le> hi"
proof -
  obtain rs where rs: "emap parse_range (split_on (CHR '','') t) = Inr rs" "q = SequenceSet rs"
    using assms(1) by (auto simp: parse_sequence_set_def split: if_splits)
  then obtain w where "parse_range w = Inr (lo, hi)"
    using assms(2) by (auto simp: emap_Inr_iff list_all2_conv_all_nth in_set_conv_nth)
  then show ?thesis by (rule parse_range_bounds)
qed

lemma digit_not_special:
  "is_digit c \<Longrightarrow> c \<noteq> CHR '':'' \<and> c \<noteq> CHR '','' \<and> c \<noteq> CHR ''*'' \<and> c \<noteq> lf"
  by (auto simp: is_digit_def lf_def)

lemma nat_str_no_special:
  "CHR '':'' \<notin> set (nat_str n)" "CHR '','' \<notin> set (nat_str n)" "CHR ''*'' \<notin> set (nat_str n)"
  using nat_str_set [of _ n] digit_not_special by blast+

text \<open>The numbers Python's \<open>int()\<close> reads back; all UIDs are among them.\<close>

definition short_number :: "nat \<Rightarrow> bool" where
  "short_number n \<longleftrightarrow> length (nat_str n) \<le> max_str_digits"

lemma short_number_uid: "n < 2 ^ 32 \<Longrightarrow> short_number n"
proof -
  assume "n < 2 ^ 32"
  then have "n < 10 ^ 10" by simp
  then have "length (nat_str n) \<le> 10" by (rule length_nat_str) simp
  then show ?thesis by (simp add: short_number_def max_str_digits_def)
qed

lemma py_int_nat_str: "short_number n \<Longrightarrow> py_int (nat_str n) = Some n"
  by (simp add: py_int_def short_number_def)

lemma seq_number_nat_str:
  assumes "0 < n" and "short_number n"
  shows "seq_number (nat_str n) = Inr n"
proof -
  have "nat_str n \<noteq> ''*''" using nat_str_no_special(3) [of n] by auto
  then show ?thesis using assms by (simp add: seq_number_def py_int_nat_str)
qed

lemma parse_range_single:
  "0 < n \<Longrightarrow> short_number n \<Longrightarrow> parse_range (nat_str n) = Inr (n, n)"
  by (simp add: parse_range_def partition_at_no_sep nat_str_no_special seq_number_nat_str)

lemma parse_range_pair:
  assumes "0 < a" and "a \<le> b" and "short_number a" and "short_number b"
  shows "parse_range (nat_str a @ '':'' @ nat_str b) = Inr (a, b)"
proof -
  have "partition_at (CHR '':'') (nat_str a @ '':'' @ nat_str b) = (nat_str a, True, nat_str b)"
    using partition_at_append [OF nat_str_no_special(1)] by simp
  then show ?thesis
    using assms by (simp add: parse_range_def seq_number_nat_str)
qed

lemma parse_sequence_set_join:
  assumes "ws \<noteq> []" and "list_all2 (\<lambda>w r. parse_range w = Inr r \<and> CHR '','' \<notin> set w) ws rs"
  shows "parse_sequence_set (join_with '','' ws) = Inr (SequenceSet rs)"
proof -
  have no: "\<forall>w \<in> set ws. CHR '','' \<notin> set w"
    using assms(2) by (auto simp: list_all2_conv_all_nth in_set_conv_nth)
  have "split_on (CHR '','') (join_with '','' ws) = ws"
    by (rule split_on_join [OF assms(1) no])
  moreover have "emap parse_range ws = Inr rs"
    using assms(2) by (auto simp: emap_Inr_iff list_all2_conv_all_nth)
  moreover have "join_with '','' ws \<noteq> []"
  proof
    assume e: "join_with '','' ws = []"
    then have "split_on (CHR '','') (join_with '','' ws) = [[]]" by simp
    with calculation(1) have "ws = [[]]" by simp
    then show False using assms(2) by (auto simp: list_all2_Cons1 parse_range_def)
  qed
  ultimately show ?thesis by (simp add: parse_sequence_set_def)
qed

subsection \<open>Facts on attribute lists\<close>

definition first_labels :: "fetch_attr list \<Rightarrow> str list" where
  "first_labels attrs = rev (remdups (rev (map fa_label attrs)))"

lemma first_labels_snoc:
  "first_labels (attrs @ [a]) =
     (if fa_label a \<in> set (map fa_label attrs) then first_labels attrs
      else first_labels attrs @ [fa_label a])"
  by (simp add: first_labels_def)

definition merged_ok :: "fetch_attr list \<Rightarrow> (str \<rightharpoonup> fetch_attr) \<times> str list \<Rightarrow> bool" where
  "merged_ok attrs st \<longleftrightarrow> snd st = first_labels attrs
     \<and> dom (fst st) = set (map fa_label attrs)
     \<and> (\<forall>l a. fst st l = Some a \<longrightarrow> fa_label a = l
         \<and> (fa_peek a \<longleftrightarrow> (\<forall>x \<in> set attrs. fa_label x = l \<longrightarrow> fa_peek x)))"

lemma merged_ok_step:
  assumes ok: "merged_ok attrs (m, ord)"
  shows "merged_ok (attrs @ [a]) (merge_attr (m, ord) a)"
proof (cases "m (fa_label a)")
  case None
  then have "fa_label a \<notin> set (map fa_label attrs)"
    using ok by (metis domIff fst_conv merged_ok_def)
  then have "\<forall>x \<in> set attrs. fa_label x \<noteq> fa_label a" by (metis image_eqI set_map)
  then show ?thesis
    using ok None by (auto simp: merged_ok_def merge_attr_def first_labels_snoc)
next
  case (Some e)
  then have "fa_label a \<in> set (map fa_label attrs)"
    using ok by (metis domI fst_conv merged_ok_def)
  moreover from Some ok have "fa_label e = fa_label a" by (simp add: merged_ok_def)
  ultimately show ?thesis
    using ok Some
    by (auto simp: merged_ok_def merge_attr_def first_labels_snoc insert_absorb)
qed

lemma merged_ok_fold: "merged_ok attrs (foldl merge_attr (Map.empty, []) attrs)"
proof (induction attrs rule: rev_induct)
  case Nil
  then show ?case by (simp add: merged_ok_def first_labels_def)
next
  case (snoc a attrs)
  then show ?case
    by (cases "foldl merge_attr (Map.empty, []) attrs") (simp add: merged_ok_step)
qed

lemma map_label_merge_attrs: "map fa_label (merge_attrs attrs) = first_labels attrs"
proof -
  obtain m ord where st: "foldl merge_attr (Map.empty, []) attrs = (m, ord)" by fastforce
  then have ok: "merged_ok attrs (m, ord)" using merged_ok_fold [of attrs] by simp
  have "fa_label (the (m l)) = l" if "l \<in> set ord" for l
  proof -
    have "l \<in> dom m" using ok that by (auto simp: merged_ok_def first_labels_def)
    then obtain a where "m l = Some a" by blast
    then show ?thesis using ok by (simp add: merged_ok_def)
  qed
  then have "map (fa_label \<circ> (\<lambda>l. the (m l))) ord = ord" by (simp add: map_idI)
  then show ?thesis using ok st by (simp add: merge_attrs_def merged_ok_def)
qed

lemma merge_attrs_peek:
  assumes "b \<in> set (merge_attrs attrs)"
  shows "fa_peek b \<longleftrightarrow> (\<forall>x \<in> set attrs. fa_label x = fa_label b \<longrightarrow> fa_peek x)"
proof -
  obtain m ord where st: "foldl merge_attr (Map.empty, []) attrs = (m, ord)" by fastforce
  then have ok: "merged_ok attrs (m, ord)" using merged_ok_fold [of attrs] by simp
  from assms st obtain l where l: "l \<in> set ord" "b = the (m l)" by (auto simp: merge_attrs_def)
  then have "l \<in> dom m" using ok by (auto simp: merged_ok_def first_labels_def)
  then have "m l = Some b" using l by auto
  then show ?thesis using ok by (auto simp: merged_ok_def)
qed

lemma distinct_first_labels [simp]: "distinct (first_labels attrs)"
  by (simp add: first_labels_def)

lemma set_first_labels [simp]: "set (first_labels attrs) = fa_label ` set attrs"
  by (simp add: first_labels_def)

subsection \<open>Facts on sections\<close>

lemma split_message_append [simp]: "fst (split_message raw) @ snd (split_message raw) = raw"
  by (simp add: split_message_def split: option.splits)

lemma concat_splitlines_keep [simp]: "concat (splitlines_keep s) = s"
proof (induction s rule: splitlines_keep.induct)
  case (2 c s)
  then show ?case by (cases "splitlines_keep s") (auto split: list.splits)
qed simp

lemma header_lines_loop_concat:
  "concat (header_lines_loop ls ps) =
     concat ls @ concat (takeWhile (\<lambda>p. p \<noteq> [cr, lf] \<and> p \<noteq> [lf]) ps)"
proof (induction ls ps rule: header_lines_loop.induct)
  case (2 ls physical rest)
  have "ls \<noteq> [] \<Longrightarrow> concat (butlast ls) @ last ls = concat ls"
    by (metis append_butlast_last_id concat.simps concat_append append_Nil2)
  then show ?case using 2 by (auto simp: append_assoc [symmetric] simp del: append_assoc)
qed simp

lemma header_lines_concat:
  "concat (header_lines header) =
     concat (takeWhile (\<lambda>p. p \<noteq> [cr, lf] \<and> p \<noteq> [lf]) (splitlines_keep header))"
  by (simp add: header_lines_def header_lines_loop_concat)

lemma mset_concat_filter:
  "mset (concat (map f (filter P xs))) + mset (concat (map f (filter (\<lambda>x. \<not> P x) xs)))
     = mset (concat (map f xs))"
  by (induction xs) auto

lemma keep_line_invert: "keep_line names True = (\<lambda>l. \<not> keep_line names False l)"
  by (auto simp: keep_line_def)

lemma filter_header_partition:
  "mset (filter_header h names False) + mset (filter_header h names True)
     = mset (concat (map terminate_line (header_lines h))) + mset [cr, lf, cr, lf]"
  using mset_concat_filter [of terminate_line "keep_line names False" "header_lines h"]
  by (simp add: filter_header_def keep_line_invert add_ac)

lemma take_drop_consecutive: "take m (drop k d) @ take n (drop (k + m) d) = take (m + n) (drop k d)"
  by (simp add: take_add add.commute)

subsection \<open>Properties\<close>

lemma short_number_leI: "n < 10 ^ 10 \<Longrightarrow> short_number n"
  using length_nat_str [of n 10] by (simp add: short_number_def max_str_digits_def)

text \<open>The interval a range of a sequence set stands for in a mailbox whose largest candidate is given.\<close>

definition range_interval :: "nat \<Rightarrow> nat \<times> nat \<Rightarrow> nat set" where
  "range_interval largest r =
     {min (resolve_star largest (fst r)) (resolve_star largest (snd r)) ..
      max (resolve_star largest (fst r)) (resolve_star largest (snd r))}"

lemma in_range_interval: "in_range largest n r \<longleftrightarrow> n \<in> range_interval largest r"
  using in_range_iff [of largest n "fst r" "snd r"] by (simp add: range_interval_def)

text \<open>\<open>select_numbers\<close> returns, in ascending order, exactly the candidates that lie in one of the
  ranges, where \<open>*\<close> stands for the largest candidate and a range may be written in either direction;
  a set with \<open>*\<close> always selects the last message of a non-empty mailbox.\<close>

theorem select_numbers_meaning:
  assumes "sorted_wrt (<) cs"
  shows "sorted_wrt (<) (select_numbers q cs)
    \<and> set (select_numbers q cs) = set cs \<inter> (\<Union>r \<in> set (seq_ranges q). range_interval (last cs) r)
    \<and> (has_star q \<and> cs \<noteq> [] \<longrightarrow> last cs \<in> set (select_numbers q cs))"
  using select_numbers_star [of q cs]
  by (auto simp: assms select_numbers_sorted set_select_numbers in_range_interval)

theorem select_numbers_meaning_witness:
  "set (select_numbers (SequenceSet [(9, star_mark), (2, 2)]) [2, 3, 5])
     = set [2, 3, 5] \<inter> (\<Union>r \<in> set [(9, star_mark), (2, 2)]. range_interval 5 r)
   \<and> 5 \<in> set (select_numbers (SequenceSet [(9, star_mark), (2, 2)]) [2, 3, 5])"
proof -
  have "sorted_wrt (<) [2, 3, 5 :: nat]" "has_star (SequenceSet [(9, star_mark), (2, 2)])"
    by (simp_all add: has_star_def)
  then show ?thesis
    using select_numbers_meaning [of "[2, 3, 5]" "SequenceSet [(9, star_mark), (2, 2)]"]
    by (metis (no_types, lifting) last.simps list.distinct(1) sequence_set.sel)
qed

text \<open>Ten digits suffice to write \<open>*\<close>: the number 4294967296, one above the largest UID, is parsed to
  the sentinel of \<open>*\<close>, so a set that names it selects the last message of the mailbox.\<close>

theorem sentinel_number_selects_last:
  "\<exists>q. parse_sequence_set (nat_str 4294967296) = Inr q \<and> n \<in> set (select_numbers q (ns @ [n]))"
proof -
  have "short_number (2 ^ 32)" by (rule short_number_leI) simp
  then have "parse_range (nat_str (2 ^ 32)) = Inr (2 ^ 32, 2 ^ 32)" by (intro parse_range_single) simp_all
  then have "parse_sequence_set (join_with '','' [nat_str (2 ^ 32)]) = Inr (SequenceSet [(2 ^ 32, 2 ^ 32)])"
    by (intro parse_sequence_set_join) (simp_all add: nat_str_no_special)
  then have "parse_sequence_set (nat_str 4294967296) = Inr (SequenceSet [(star_mark, star_mark)])"
    by (simp add: star_mark_def)
  then show ?thesis
    using select_numbers_star [of "SequenceSet [(star_mark, star_mark)]" "ns @ [n]"] by (simp add: has_star_def)
qed

text \<open>\<open>BODY[HEADER]\<close> and \<open>BODY[TEXT]\<close> partition the message: for every raw message both sections
  exist and their concatenation is the message.\<close>

theorem header_text_partition:
  "\<exists>h t. section_bytes raw (body_attr l1 pk1 ''HEADER'' [] None) = Inr h
       \<and> section_bytes raw (body_attr l2 pk2 ''TEXT'' [] None) = Inr t \<and> h @ t = raw"
  by (simp add: section_bytes_def section_data_def body_attr_def)



text \<open>\<open>HEADER.FIELDS\<close> and \<open>HEADER.FIELDS.NOT\<close> with the same names split the header: counted with
  multiplicity, the octets of the two answers are the octets of the header lines (the last one
  terminated) and the two blank lines that end the answers.\<close>

theorem header_fields_partition:
  "\<exists>x y. section_bytes raw (body_attr l1 pk1 ''HEADER.FIELDS'' names None) = Inr x
     \<and> section_bytes raw (body_attr l2 pk2 ''HEADER.FIELDS.NOT'' names None) = Inr y
     \<and> mset x + mset y =
         mset (concat (map terminate_line (header_lines (fst (split_message raw))))) + mset [cr, lf, cr, lf]"
  by (simp add: section_bytes_def section_data_def body_attr_def filter_header_partition)

text \<open>A parsed FETCH list answers each label once, in the order of first mention, and an item is a
  peek (it does not set \<open>\Seen\<close>) only when every request with its label was one.\<close>

theorem fetch_items_answered_once:
  assumes "parse_fetch_attributes tok = Inr attrs"
  shows "\<exists>names parsed. attr_names tok = Inr names \<and> emap parse_attr names = Inr parsed
    \<and> map fa_label attrs = first_labels parsed \<and> distinct (map fa_label attrs)
    \<and> set (map fa_label attrs) = fa_label ` set parsed
    \<and> (\<forall>b \<in> set attrs. fa_peek b \<longleftrightarrow> (\<forall>x \<in> set parsed. fa_label x = fa_label b \<longrightarrow> fa_peek x))"
proof -
  obtain names parsed where *: "attr_names tok = Inr names" "emap parse_attr names = Inr parsed"
    "attrs = merge_attrs parsed"
    using assms by (auto simp: parse_fetch_attributes_def)
  have "set (map fa_label attrs) = fa_label ` set parsed" "distinct (map fa_label attrs)"
    unfolding *(3) map_label_merge_attrs by simp_all
  moreover have "\<forall>b \<in> set attrs. fa_peek b \<longleftrightarrow> (\<forall>x \<in> set parsed. fa_label x = fa_label b \<longrightarrow> fa_peek x)"
    unfolding *(3) using merge_attrs_peek by blast
  ultimately show ?thesis using * map_label_merge_attrs by metis
qed

theorem fetch_items_answered_once_witness:
  "\<exists>names parsed. attr_names (ListTok [Atom ''BODY.PEEK[]'', Atom ''BODY[]'']) = Inr names
    \<and> emap parse_attr names = Inr parsed
    \<and> (\<forall>b \<in> set [body_attr ''BODY[]'' False [] [] None].
         fa_peek b \<longleftrightarrow> (\<forall>x \<in> set parsed. fa_label x = fa_label b \<longrightarrow> fa_peek x))"
proof -
  have "parse_fetch_attributes (ListTok [Atom ''BODY.PEEK[]'', Atom ''BODY[]''])
      = Inr [body_attr ''BODY[]'' False [] [] None]"
    by code_simp
  from fetch_items_answered_once [OF this] show ?thesis by blast
qed

end
