(* ===== verification/Byte_Cache.thy ===== *)
theory Byte_Cache
  imports Gateway_Prelude
begin

text \<open>
  \<open>imapgw/bytecache.py\<close>: the byte-budgeted LRU cache. The \<open>OrderedDict\<close> is an association list
  with the oldest entry first. The locale \<open>content_cache\<close> is what the mailbox service relies on:
  a cache may forget, but it only ever returns what was last stored under a key.

  \<open>put\<close> drops an over-sized value's old entry without giving its bytes back to the counter, so
  the counter is in general only an upper bound on the bytes held; the budget still holds, and the
  counter is exact as long as no stored key is overwritten by an over-sized value.
\<close>

record byte_cache =
  bc_max :: int
  bc_items :: "(str \<times> bytes) list"
  bc_size :: int

definition new_cache :: "int \<Rightarrow> byte_cache" where
  "new_cache max_bytes = \<lparr>bc_max = max 0 max_bytes, bc_items = [], bc_size = 0\<rparr>"

definition blen :: "bytes \<Rightarrow> int" where "blen d = int (length d)"

definition drop_key :: "str \<Rightarrow> (str \<times> bytes) list \<Rightarrow> (str \<times> bytes) list" where
  "drop_key k items = filter (\<lambda>(k', _). k' \<noteq> k) items"

definition cache_count :: "byte_cache \<Rightarrow> nat" where
  "cache_count c = length (bc_items c)"

definition cache_has :: "byte_cache \<Rightarrow> str \<Rightarrow> bool" where
  "cache_has c k \<longleftrightarrow> k \<in> set (map fst (bc_items c))"

definition cache_get :: "byte_cache \<Rightarrow> str \<Rightarrow> bytes option \<times> byte_cache" where
  "cache_get c k = (case map_of (bc_items c) k of
     None \<Rightarrow> (None, c)
   | Some d \<Rightarrow> (Some d, c\<lparr>bc_items := drop_key k (bc_items c) @ [(k, d)]\<rparr>))"

text \<open>The eviction loop of \<open>put\<close>: oldest entries go while the counter is over the budget.\<close>

fun evict :: "int \<Rightarrow> (str \<times> bytes) list \<Rightarrow> int \<Rightarrow> (str \<times> bytes) list \<times> int" where
  "evict m [] sz = ([], sz)"
| "evict m ((k, d) # items) sz = (if m < sz then evict m items (sz - blen d) else ((k, d) # items, sz))"

definition cache_put :: "byte_cache \<Rightarrow> str \<Rightarrow> bytes \<Rightarrow> byte_cache" where
  "cache_put c k d =
     (if bc_max c < blen d then c\<lparr>bc_items := drop_key k (bc_items c)\<rparr>
      else (let sz = (case map_of (bc_items c) k of None \<Rightarrow> bc_size c | Some old \<Rightarrow> bc_size c - blen old);
                r = evict (bc_max c) (drop_key k (bc_items c) @ [(k, d)]) (sz + blen d)
            in c\<lparr>bc_items := fst r, bc_size := snd r\<rparr>))"

definition cache_discard :: "byte_cache \<Rightarrow> str \<Rightarrow> byte_cache" where
  "cache_discard c k = (case map_of (bc_items c) k of
     None \<Rightarrow> c
   | Some old \<Rightarrow> c\<lparr>bc_items := drop_key k (bc_items c), bc_size := bc_size c - blen old\<rparr>)"

definition cache_clear :: "byte_cache \<Rightarrow> byte_cache" where
  "cache_clear c = c\<lparr>bc_items := [], bc_size := 0\<rparr>"

subsection \<open>The interface the mailbox service uses\<close>

locale content_cache =
  fixes cget :: "'c \<Rightarrow> 'k \<Rightarrow> 'v option \<times> 'c"
    and cput :: "'c \<Rightarrow> 'k \<Rightarrow> 'v \<Rightarrow> 'c"
    and content :: "'c \<Rightarrow> 'k \<Rightarrow> 'v option"
    and cinv :: "'c \<Rightarrow> bool"
  assumes get_value: "cinv c \<Longrightarrow> fst (cget c k) = content c k"
    and get_content: "cinv c \<Longrightarrow> content (snd (cget c k)) = content c"
    and put_same: "cinv c \<Longrightarrow> content (cput c k v) k = Some w \<Longrightarrow> w = v"
    and put_other: "cinv c \<Longrightarrow> k' \<noteq> k \<Longrightarrow> content (cput c k v) k' = Some w \<Longrightarrow> content c k' = Some w"
    and get_inv: "cinv c \<Longrightarrow> cinv (snd (cget c k))"
    and put_inv: "cinv c \<Longrightarrow> cinv (cput c k v)"
begin

text \<open>A relation between keys and values that every stored value satisfies is kept.\<close>

definition holds_all :: "('k \<Rightarrow> 'v \<Rightarrow> bool) \<Rightarrow> 'c \<Rightarrow> bool" where
  "holds_all R c \<longleftrightarrow> cinv c \<and> (\<forall>k v. content c k = Some v \<longrightarrow> R k v)"

lemma holds_all_get: "holds_all R c \<Longrightarrow> holds_all R (snd (cget c k))"
  by (simp add: holds_all_def get_inv get_content)

lemma holds_all_put: "holds_all R c \<Longrightarrow> R k v \<Longrightarrow> holds_all R (cput c k v)"
  unfolding holds_all_def by (metis put_inv put_other put_same)

lemma get_holds: "holds_all R c \<Longrightarrow> fst (cget c k) = Some v \<Longrightarrow> R k v"
  by (simp add: holds_all_def get_value)

end

subsection \<open>The model satisfies it\<close>

definition held :: "(str \<times> bytes) list \<Rightarrow> int" where
  "held items = sum_list (map (blen \<circ> snd) items)"

definition cache_inv :: "byte_cache \<Rightarrow> bool" where
  "cache_inv c \<longleftrightarrow> distinct (map fst (bc_items c)) \<and> 0 \<le> bc_max c
     \<and> held (bc_items c) \<le> bc_size c \<and> (bc_size c \<le> bc_max c \<or> bc_items c = [])"

definition cache_exact :: "byte_cache \<Rightarrow> bool" where
  "cache_exact c \<longleftrightarrow> cache_inv c \<and> bc_size c = held (bc_items c)"

abbreviation cache_content :: "byte_cache \<Rightarrow> str \<Rightarrow> bytes option" where
  "cache_content c \<equiv> map_of (bc_items c)"

lemma blen_nonneg [simp]: "0 \<le> blen d"
  by (simp add: blen_def)

lemma held_simps [simp]:
  "held [] = 0" "held ((k, d) # items) = blen d + held items" "held (a @ b) = held a + held b"
  by (simp_all add: held_def)

lemma held_nonneg [simp]: "0 \<le> held items"
  by (induction items) auto

lemma drop_key_simps [simp]:
  "drop_key k [] = []"
  "drop_key k ((k', d) # items) = (if k' = k then drop_key k items else (k', d) # drop_key k items)"
  by (simp_all add: drop_key_def)

lemma map_of_drop_key: "map_of (drop_key k items) = (map_of items)(k := None)"
  by (induction items) (auto simp: fun_eq_iff)

lemma keys_drop_key: "map fst (drop_key k items) = filter (\<lambda>x. x \<noteq> k) (map fst items)"
  by (induction items) auto

lemma drop_key_absent: "k \<notin> set (map fst items) \<Longrightarrow> drop_key k items = items"
  by (induction items) auto

lemma held_drop_key:
  "distinct (map fst items) \<Longrightarrow>
   held (drop_key k items) = held items - (case map_of items k of None \<Rightarrow> 0 | Some d \<Rightarrow> blen d)"
proof (induction items)
  case (Cons x items)
  then show ?case by (cases x) (auto simp: drop_key_absent)
qed simp

lemma held_drop_key_le: "held (drop_key k items) \<le> held items"
proof (induction items)
  case (Cons x items)
  have "0 \<le> blen (snd x)" by simp
  then show ?case using Cons by (cases x) (simp del: blen_nonneg)
qed simp

lemma evict_suffix: "\<exists>n. fst (evict m items sz) = drop n items"
proof (induction m items sz rule: evict.induct)
  case (2 m k d items sz)
  then show ?case
  proof (cases "m < sz")
    case True
    then obtain n where "fst (evict m items (sz - blen d)) = drop n items" using 2 by auto
    then have "fst (evict m ((k, d) # items) sz) = drop (Suc n) ((k, d) # items)" using True by simp
    then show ?thesis by blast
  qed (auto intro: exI [of _ 0])
qed simp

lemma evict_size: "snd (evict m items sz) - held (fst (evict m items sz)) = sz - held items"
  by (induction m items sz rule: evict.induct) auto

lemma evict_budget: "snd (evict m items sz) \<le> m \<or> fst (evict m items sz) = []"
  by (induction m items sz rule: evict.induct) auto

lemma evict_keeps_last:
  "sz = held (items @ [(k, d)]) \<Longrightarrow> blen d \<le> m \<Longrightarrow>
   \<exists>a. fst (evict m (items @ [(k, d)]) sz) = a @ [(k, d)]"
proof (induction items arbitrary: sz)
  case (Cons x items)
  then show ?case by (cases x) auto
qed simp

lemma map_of_drop:
  "distinct (map fst items) \<Longrightarrow> map_of (drop n items) k = Some v \<Longrightarrow> map_of items k = Some v"
  by (metis in_set_dropD map_of_SomeD map_of_is_SomeI)

lemma distinct_drop_keys:
  "distinct (map fst items) \<Longrightarrow> distinct (map fst (drop n items))"
  by (simp add: drop_map [symmetric])

lemma distinct_put_keys:
  "distinct (map fst items) \<Longrightarrow> distinct (map fst (drop_key k items @ [(k, d)]))"
  by (simp add: keys_drop_key)

lemma cache_put_drop:
  assumes "blen d \<le> bc_max c"
  shows "\<exists>n. bc_items (cache_put c k d) = drop n (drop_key k (bc_items c) @ [(k, d)])"
proof -
  let ?sz = "(case map_of (bc_items c) k of None \<Rightarrow> bc_size c | Some old \<Rightarrow> bc_size c - blen old)"
  have "bc_items (cache_put c k d)
      = fst (evict (bc_max c) (drop_key k (bc_items c) @ [(k, d)]) (?sz + blen d))"
    using assms by (simp add: cache_put_def Let_def)
  then show ?thesis using evict_suffix by metis
qed

lemma cache_put_max [simp]: "bc_max (cache_put c k d) = bc_max c"
  by (simp add: cache_put_def Let_def)

lemma cache_put_size:
  assumes "distinct (map fst (bc_items c))" and "blen d \<le> bc_max c"
  shows "bc_size (cache_put c k d) - held (bc_items (cache_put c k d))
           = bc_size c - held (bc_items c)"
  using evict_size [of "bc_max c"] held_drop_key [OF assms(1), of k] assms(2)
  by (auto simp: cache_put_def Let_def split: option.splits)

lemma cache_inv_put: "cache_inv c \<Longrightarrow> cache_inv (cache_put c k d)"
proof -
  assume inv: "cache_inv c"
  show ?thesis
  proof (cases "bc_max c < blen d")
    case True
    then show ?thesis
      using inv held_drop_key_le [of k "bc_items c"]
      by (auto simp: cache_put_def cache_inv_def keys_drop_key)
  next
    case False
    obtain n where "bc_items (cache_put c k d) = drop n (drop_key k (bc_items c) @ [(k, d)])"
      using cache_put_drop False by (meson not_le)
    then have "distinct (map fst (bc_items (cache_put c k d)))"
      using inv distinct_drop_keys distinct_put_keys by (metis cache_inv_def)
    moreover have "held (bc_items (cache_put c k d)) \<le> bc_size (cache_put c k d)"
      using inv cache_put_size [of c d k] False by (simp add: cache_inv_def)
    moreover have "bc_size (cache_put c k d) \<le> bc_max c \<or> bc_items (cache_put c k d) = []"
      using evict_budget False by (simp add: cache_put_def Let_def)
    ultimately show ?thesis using inv by (simp add: cache_inv_def)
  qed
qed

lemma cache_get_simps:
  "fst (cache_get c k) = cache_content c k"
  "bc_size (snd (cache_get c k)) = bc_size c" "bc_max (snd (cache_get c k)) = bc_max c"
  by (auto simp: cache_get_def split: option.splits)

lemma cache_get_content: "cache_content (snd (cache_get c k)) = cache_content c"
  by (auto simp: cache_get_def map_of_drop_key fun_eq_iff map_add_def split: option.splits)

lemma cache_get_held:
  "distinct (map fst (bc_items c)) \<Longrightarrow> held (bc_items (snd (cache_get c k))) = held (bc_items c)"
  by (auto simp: cache_get_def held_drop_key split: option.splits)

lemma cache_inv_get: "cache_inv c \<Longrightarrow> cache_inv (snd (cache_get c k))"
  using cache_get_held [of c k]
  by (auto simp: cache_inv_def cache_get_def keys_drop_key split: option.splits)

lemma cache_inv_discard: "cache_inv c \<Longrightarrow> cache_inv (cache_discard c k)"
  using held_drop_key [of "bc_items c" k]
  by (auto simp: cache_inv_def cache_discard_def keys_drop_key split: option.splits)
     (smt (verit) blen_nonneg)

lemma cache_inv_clear: "cache_inv c \<Longrightarrow> cache_inv (cache_clear c)"
  by (simp add: cache_inv_def cache_clear_def)

lemma cache_inv_new [simp]: "cache_inv (new_cache m)"
  by (simp add: cache_inv_def new_cache_def)

lemma cache_put_content_same:
  assumes "cache_inv c" and "cache_content (cache_put c k d) k = Some w"
  shows "w = d"
proof (cases "bc_max c < blen d")
  case True
  then show ?thesis using assms by (simp add: cache_put_def map_of_drop_key)
next
  case False
  obtain n where "bc_items (cache_put c k d) = drop n (drop_key k (bc_items c) @ [(k, d)])"
    using cache_put_drop False by (meson not_le)
  then have "map_of (drop_key k (bc_items c) @ [(k, d)]) k = Some w"
    using assms map_of_drop distinct_put_keys by (metis cache_inv_def)
  then show ?thesis by (simp add: map_of_drop_key map_add_def)
qed

lemma cache_put_content_other:
  assumes "cache_inv c" and "k' \<noteq> k" and "cache_content (cache_put c k d) k' = Some w"
  shows "cache_content c k' = Some w"
proof (cases "bc_max c < blen d")
  case True
  then show ?thesis using assms by (simp add: cache_put_def map_of_drop_key)
next
  case False
  obtain n where "bc_items (cache_put c k d) = drop n (drop_key k (bc_items c) @ [(k, d)])"
    using cache_put_drop False by (meson not_le)
  then have "map_of (drop_key k (bc_items c) @ [(k, d)]) k' = Some w"
    using assms map_of_drop distinct_put_keys by (metis cache_inv_def)
  then show ?thesis using assms by (simp add: map_of_drop_key map_add_def split: option.splits)
qed

interpretation bytes_cache: content_cache cache_get cache_put cache_content cache_inv
  by unfold_locales
     (auto simp: cache_get_simps cache_get_content cache_inv_get cache_inv_put
       dest: cache_put_content_same cache_put_content_other)

subsection \<open>Runs of the cache\<close>

datatype cache_op = CGet str | CPut str bytes | CDiscard str | CClear

fun cache_step :: "byte_cache \<Rightarrow> cache_op \<Rightarrow> byte_cache" where
  "cache_step c (CGet k) = snd (cache_get c k)"
| "cache_step c (CPut k d) = cache_put c k d"
| "cache_step c (CDiscard k) = cache_discard c k"
| "cache_step c CClear = cache_clear c"

definition cache_run :: "byte_cache \<Rightarrow> cache_op list \<Rightarrow> byte_cache" where
  "cache_run = foldl cache_step"

lemma cache_inv_step: "cache_inv c \<Longrightarrow> cache_inv (cache_step c e)"
  by (cases e) (simp_all add: cache_inv_get cache_inv_put cache_inv_discard cache_inv_clear)

lemma cache_inv_run: "cache_inv c \<Longrightarrow> cache_inv (cache_run c es)"
  unfolding cache_run_def by (induction es arbitrary: c) (auto simp: cache_inv_step)

lemma cache_step_max [simp]: "bc_max (cache_step c e) = bc_max c"
  by (cases e) (auto simp: cache_get_simps cache_discard_def cache_clear_def split: option.splits)

lemma cache_run_max: "bc_max (cache_run c es) = bc_max c"
  unfolding cache_run_def by (induction es arbitrary: c) auto

lemma cache_inv_budget: "cache_inv c \<Longrightarrow> held (bc_items c) \<le> bc_max c"
  by (auto simp: cache_inv_def)

lemma cache_exact_put:
  assumes "cache_exact c" and "blen d \<le> bc_max c \<or> \<not> cache_has c k"
  shows "cache_exact (cache_put c k d)"
proof (cases "blen d \<le> bc_max c")
  case True
  then show ?thesis
    using assms cache_put_size [of c d k] cache_inv_put [of c k d]
    by (simp add: cache_exact_def) (simp add: cache_inv_def)
next
  case False
  then have "drop_key k (bc_items c) = bc_items c"
    using assms by (intro drop_key_absent) (simp add: cache_has_def)
  then have "cache_put c k d = c" using False by (simp add: cache_put_def)
  then show ?thesis using assms by simp
qed

lemma cache_put_get:
  assumes "cache_exact c" and "blen d \<le> bc_max c"
  shows "cache_content (cache_put c k d) k = Some d"
proof -
  let ?items = "drop_key k (bc_items c)"
  let ?sz = "(case map_of (bc_items c) k of None \<Rightarrow> bc_size c | Some old \<Rightarrow> bc_size c - blen old) + blen d"
  have "?sz = held (?items @ [(k, d)])"
    using assms held_drop_key [of "bc_items c" k]
    by (auto simp: cache_exact_def cache_inv_def split: option.splits)
  then obtain a where a: "bc_items (cache_put c k d) = a @ [(k, d)]"
    using evict_keeps_last [of ?sz ?items k d] assms by (auto simp: cache_put_def Let_def)
  have "distinct (map fst (bc_items (cache_put c k d)))"
    using cache_inv_put assms by (auto simp: cache_exact_def cache_inv_def)
  then show ?thesis using a by (intro map_of_is_SomeI) simp_all
qed

subsection \<open>Properties\<close>

text \<open>C14: Whatever operations run, the cache holds at most its budget of octets, at most one entry per
  key, and its size counter never falls below the octets held.\<close>

theorem cache_within_budget:
  "held (bc_items (cache_run (new_cache m) ops)) \<le> max 0 m
   \<and> distinct (map fst (bc_items (cache_run (new_cache m) ops)))
   \<and> held (bc_items (cache_run (new_cache m) ops)) \<le> bc_size (cache_run (new_cache m) ops)"
proof -
  have inv: "cache_inv (cache_run (new_cache m) ops)" by (simp add: cache_inv_run)
  moreover have "bc_max (cache_run (new_cache m) ops) = max 0 m"
    by (simp add: cache_run_max) (simp add: new_cache_def)
  ultimately show ?thesis using cache_inv_budget [OF inv] by (simp add: cache_inv_def)
qed

text \<open>As long as no oversize value has been put over a present key, the counter is exact, and a value
  that fits the budget is what the next \<open>get\<close> of its key returns.\<close>

theorem cache_get_after_put:
  assumes "cache_exact c" and "blen d \<le> bc_max c"
  shows "fst (cache_get (cache_put c k d) k) = Some d \<and> cache_exact (cache_put c k d)"
  using cache_put_get [OF assms] cache_exact_put [OF assms(1)] assms(2) by (simp add: cache_get_simps)

theorem cache_get_after_put_witness:
  "fst (cache_get (cache_put (new_cache 4) ''m1'' ''data'') ''m1'') = Some ''data''"
  using cache_get_after_put [of "new_cache 4" "''data''" "''m1''"]
  by (simp add: cache_exact_def cache_inv_def new_cache_def blen_def)

text \<open>What the last \<open>put\<close> of a key stored, unless the key was discarded since; latest operation first.\<close>

fun last_put :: "cache_op list \<Rightarrow> str \<Rightarrow> bytes option" where
  "last_put [] k = None"
| "last_put (CPut k' d # ops) k = (if k' = k then Some d else last_put ops k)"
| "last_put (CDiscard k' # ops) k = (if k' = k then None else last_put ops k)"
| "last_put (CClear # ops) k = None"
| "last_put (CGet _ # ops) k = last_put ops k"

lemma cache_run_snoc: "cache_run c (ops @ [x]) = cache_step (cache_run c ops) x"
  by (simp add: cache_run_def)

lemma cache_content_discard:
  "cache_content (cache_discard c k) j = Some v \<Longrightarrow> cache_content c j = Some v \<and> j \<noteq> k"
  by (auto simp: cache_discard_def map_of_drop_key split: option.splits if_splits)

text \<open>C15: The cache never serves stale content: over any run, the answer for a key is the value of the last
  \<open>put\<close> of that key, and the key was not discarded since, nor the cache cleared.\<close>

theorem cache_serves_last_put:
  assumes "fst (cache_get (cache_run (new_cache m) ops) k) = Some v"
  shows "last_put (rev ops) k = Some v"
  using assms
proof (induction ops rule: rev_induct)
  case Nil
  then show ?case by (simp add: cache_run_def cache_get_simps new_cache_def)
next
  case (snoc x ops)
  let ?c = "cache_run (new_cache m) ops"
  have inv: "cache_inv ?c" by (simp add: cache_inv_run)
  have "cache_content (cache_step ?c x) k = Some v"
    using snoc.prems by (simp add: cache_run_snoc cache_get_simps)
  then show ?case
  proof (cases x)
    case (CPut k' d)
    then show ?thesis
      using \<open>cache_content (cache_step ?c x) k = Some v\<close> snoc.IH cache_put_content_same [OF inv]
        cache_put_content_other [OF inv, of k k' d]
      by (cases "k' = k") (auto simp: cache_get_simps)
  qed (auto simp: cache_get_simps cache_get_content cache_clear_def snoc.IH dest: cache_content_discard)
qed

theorem cache_serves_last_put_witness:
  "last_put (rev [CPut ''k'' ''old'', CPut ''k'' ''new'', CGet ''k'']) ''k'' = Some ''new''"
proof (rule cache_serves_last_put [of 8])
  show "fst (cache_get (cache_run (new_cache 8) [CPut ''k'' ''old'', CPut ''k'' ''new'', CGet ''k'']) ''k'') = Some ''new''"
    by code_simp
qed

text \<open>The leak of \<open>put\<close>: replacing a present entry by a value larger than the budget drops the entry but
  keeps its octets in the counter; after filling the budget once this way, no non-empty value is ever
  retained, although the cache is empty.\<close>

theorem oversize_replacement_leaks:
  assumes "0 < m" and "blen d0 = m" and "m < blen big" and "0 < blen d" and "blen d \<le> m"
  shows "bc_items (cache_run (new_cache m) [CPut k d0, CPut k big]) = []
    \<and> bc_size (cache_run (new_cache m) [CPut k d0, CPut k big]) = m
    \<and> fst (cache_get (cache_run (new_cache m) [CPut k d0, CPut k big, CPut k' d]) k') = None"
  using assms
  by (simp add: cache_run_def new_cache_def cache_put_def Let_def cache_get_simps drop_key_def)

theorem oversize_replacement_leaks_witness:
  "fst (cache_get (cache_run (new_cache 4) [CPut ''a'' ''data'', CPut ''a'' ''large'', CPut ''b'' ''x'']) ''b'') = None"
  using oversize_replacement_leaks [of 4 "''data''" "''large''" "''x''" "''a''" "''b''"]
  by (simp add: blen_def)

end
