(* ===== verification/Uid_Store.thy ===== *)
theory Uid_Store
  imports Gateway_Prelude
begin

text \<open>
  \<open>imapgw/uidstore.py\<close>: the durable UID store. The SQLite tables are the fields of the record
  \<open>store\<close>: \<open>mboxes\<close> is the table \<open>mailbox\<close> (a map by its primary key), \<open>rows\<close> is \<open>uid_map\<close> in
  insertion order, \<open>marks\<close> is \<open>deleted_mark\<close>, and \<open>sidecar\<close> is the text of the
  watermark file, \<open>None\<close> when there is none or none that can be read. A statement
  fails only when it violates a constraint the schema declares (\<open>IntegrityError\<close>); a failing
  transaction is rolled back, the sidecar file is not. The clock, the text of the current time and
  whether the sidecar and the database can be written come from the record \<open>store_env\<close>.

  The lemmas show that the schema's constraints never fail, what \<open>ensure_uids\<close> and
  \<open>tombstone_missing\<close> do to the live map, that no operation ever gives a UID to a second item, and
  the ordering of UIDVALIDITY values, also across the recovery of a corrupt store.
\<close>

text \<open>A mailbox is named by the pair of the inbox id and the mailbox name.\<close>

datatype box = Box (box_inbox: str) (box_name: str)

record store_env =
  se_clock :: int
  se_now :: str
  se_watermark_writable :: bool
  se_db_writable :: bool
  se_can_rename :: bool

record uid_row =
  r_box :: box
  r_uid :: nat
  r_key :: str
  r_id :: str
  r_first_seen :: str
  r_vanished :: "str option"

record store =
  mboxes :: "box \<rightharpoonup> int \<times> nat"
  rows :: "uid_row list"
  marks :: "(box \<times> nat) set"
  sidecar :: "str option"
  schema_version :: "str option"
  opened_at :: "str option"

datatype store_error = IntegrityError | StoreUnavailable str

definition empty_store :: "str option \<Rightarrow> store" where
  "empty_store wm = \<lparr>mboxes = Map.empty, rows = [], marks = {}, sidecar = wm,
     schema_version = None, opened_at = None\<rparr>"

subsection \<open>UIDVALIDITY\<close>

text \<open>The file is what a user or an older version left: anything but an integer reads as 0.\<close>

definition read_watermark :: "store \<Rightarrow> int" where
  "read_watermark st = (case sidecar st of
     None \<Rightarrow> 0
   | Some t \<Rightarrow> if py_strip t = [] then 0
       else (case py_int_text (py_strip t) of None \<Rightarrow> 0 | Some n \<Rightarrow> n))"

definition write_watermark :: "store_env \<Rightarrow> int \<Rightarrow> store \<Rightarrow> store" where
  "write_watermark e v st = (if se_watermark_writable e then st\<lparr>sidecar := Some (int_str v)\<rparr> else st)"

definition next_uidvalidity :: "store_env \<Rightarrow> store \<Rightarrow> int \<times> store" where
  "next_uidvalidity e st =
     (let value = max 1 (max (se_clock e) (read_watermark st + 1));
          v = min value (2 ^ 32 - 1)
      in (v, write_watermark e v st))"

definition ensure_mailbox :: "store_env \<Rightarrow> store \<Rightarrow> box \<Rightarrow> (int \<times> nat) \<times> store" where
  "ensure_mailbox e st b = (case mboxes st b of
     None \<Rightarrow> (let r = next_uidvalidity e st
              in ((fst r, 1), (snd r)\<lparr>mboxes := (mboxes (snd r))(b \<mapsto> (fst r, 1))\<rparr>))
   | Some row \<Rightarrow> (row, st))"

definition mailbox_info :: "store_env \<Rightarrow> store \<Rightarrow> box \<Rightarrow> (int \<times> nat) \<times> store" where
  "mailbox_info e st b = ensure_mailbox e st b"

definition next_uid :: "store_env \<Rightarrow> store \<Rightarrow> box \<Rightarrow> nat \<times> store" where
  "next_uid e st b = (case mailbox_info e st b of (r, st') \<Rightarrow> (snd r, st'))"

subsection \<open>Allocation\<close>

definition row_live :: "uid_row \<Rightarrow> bool" where
  "row_live r \<longleftrightarrow> r_vanished r = None"

definition live_map :: "store \<Rightarrow> box \<Rightarrow> (str \<times> nat) list" where
  "live_map st b = map (\<lambda>r. (r_key r, r_uid r)) (filter (\<lambda>r. r_box r = b \<and> row_live r) (rows st))"

text \<open>The INSERT: primary key (mailbox, uid), and the live remote key is unique.\<close>

definition insert_row :: "uid_row \<Rightarrow> store \<Rightarrow> store_error + store" where
  "insert_row r st =
     (if list_ex (\<lambda>x. r_box x = r_box r \<and> r_uid x = r_uid r) (rows st)
         \<or> list_ex (\<lambda>x. r_box x = r_box r \<and> row_live x \<and> r_key x = r_key r) (rows st)
      then Inl IntegrityError else Inr (st\<lparr>rows := rows st @ [r]\<rparr>))"

fun alloc_uids :: "str \<Rightarrow> box \<Rightarrow> (str \<times> str) list \<Rightarrow> store \<Rightarrow> (str \<times> nat) list \<Rightarrow> nat \<Rightarrow> nat \<Rightarrow>
    store_error + store \<times> (str \<times> nat) list \<times> nat \<times> nat" where
  "alloc_uids now b [] st live nxt allocated = Inr (st, live, nxt, allocated)"
| "alloc_uids now b ((key, ident) # keys) st live nxt allocated =
     (if key \<in> set (map fst live) then alloc_uids now b keys st live nxt allocated
      else ebind (insert_row \<lparr>r_box = b, r_uid = nxt, r_key = key, r_id = ident,
                               r_first_seen = now, r_vanished = None\<rparr> st)
             (\<lambda>st'. alloc_uids now b keys st' (live @ [(key, nxt)]) (nxt + 1) (allocated + 1)))"

definition ensure_uids :: "store_env \<Rightarrow> store \<Rightarrow> box \<Rightarrow> (str \<times> str) list \<Rightarrow>
    (store_error + (str \<times> nat) list) \<times> store" where
  "ensure_uids e st b keys =
     (case ensure_mailbox e st b of ((v, nxt0), st1) \<Rightarrow>
        (case alloc_uids (se_now e) b keys st1 (live_map st1 b) nxt0 0 of
           Inl err \<Rightarrow> (Inl err, st\<lparr>sidecar := sidecar st1\<rparr>)
         | Inr (st2, live, nxt, allocated) \<Rightarrow>
             (Inr live,
              if 0 < allocated then st2\<lparr>mboxes := (mboxes st2)(b \<mapsto> (v, nxt))\<rparr> else st2)))"

subsection \<open>Tombstones and marks\<close>

definition tombstone_missing :: "store_env \<Rightarrow> store \<Rightarrow> box \<Rightarrow> str set \<Rightarrow> nat list \<times> store" where
  "tombstone_missing e st b present =
     (let gone = sort (map snd (filter (\<lambda>(k, u). k \<notin> present) (live_map st b)))
      in if gone = [] then ([], st)
         else (gone, st\<lparr>
           rows := map (\<lambda>r. if r_box r = b \<and> r_uid r \<in> set gone
                            then r\<lparr>r_vanished := Some (se_now e)\<rparr> else r) (rows st),
           marks := marks st - Pair b ` set gone\<rparr>))"

definition deleted_uids :: "store \<Rightarrow> box \<Rightarrow> nat set" where
  "deleted_uids st b = snd ` Set.filter (\<lambda>m. fst m = b) (marks st)"

definition set_deleted :: "store \<Rightarrow> box \<Rightarrow> nat list \<Rightarrow> bool \<Rightarrow> store" where
  "set_deleted st b uids value =
     (if uids = [] then st
      else if value then st\<lparr>marks := marks st \<union> Pair b ` set uids\<rparr>
      else st\<lparr>marks := marks st - Pair b ` set uids\<rparr>)"

subsection \<open>Opening the store\<close>

definition corruption_markers :: "str list" where
  "corruption_markers = [''file is not a database'', ''malformed'', ''not a database'', ''is encrypted'']"

definition is_corruption :: "str \<Rightarrow> bool" where
  "is_corruption msg \<longleftrightarrow> list_ex (\<lambda>m. contains_sub m (py_lower msg)) corruption_markers"

text \<open>What connecting to the file and \<open>PRAGMA integrity_check\<close> report.\<close>

datatype open_probe = ConnectError str | IntegrityReport str

definition check_schema_version :: "store \<Rightarrow> store_error + store" where
  "check_schema_version st = (case schema_version st of
     None \<Rightarrow> Inr (st\<lparr>schema_version := Some ''1''\<rparr>)
   | Some v \<Rightarrow> if v \<noteq> ''1'' then Inl (StoreUnavailable ''unsupported schema version'') else Inr st)"

definition recover_store :: "store_env \<Rightarrow> store \<Rightarrow> store_error + store" where
  "recover_store e st =
     (if \<not> se_can_rename e then Inl (StoreUnavailable ''cannot set aside corrupt store'')
      else if \<not> se_db_writable e then Inl (StoreUnavailable ''cannot create a fresh UID store'')
      else check_schema_version (empty_store (sidecar st)))"

definition open_store :: "store_env \<Rightarrow> open_probe \<Rightarrow> store \<Rightarrow> store_error + store" where
  "open_store e probe st = (case probe of
     ConnectError msg \<Rightarrow>
       if is_corruption msg then recover_store e st else Inl (StoreUnavailable ''cannot be opened'')
   | IntegrityReport r \<Rightarrow>
       if r \<noteq> ''ok'' then recover_store e st
       else ebind (check_schema_version st) (\<lambda>st1.
         if \<not> se_db_writable e then Inl (StoreUnavailable ''cannot be prepared'')
         else Inr (st1\<lparr>opened_at := Some (se_now e)\<rparr>)))"

subsection \<open>The invariant of the tables\<close>

definition live_rows :: "store \<Rightarrow> uid_row list" where
  "live_rows st = filter row_live (rows st)"

definition mailbox_ok :: "int \<times> nat \<Rightarrow> bool" where
  "mailbox_ok r \<longleftrightarrow> 1 \<le> snd r \<and> 1 \<le> fst r \<and> fst r \<le> 2 ^ 32 - 1"

definition store_inv :: "store \<Rightarrow> bool" where
  "store_inv st \<longleftrightarrow>
     (\<forall>r \<in> set (rows st). \<exists>v n. mboxes st (r_box r) = Some (v, n) \<and> 1 \<le> r_uid r \<and> r_uid r < n)
     \<and> distinct (map (\<lambda>r. (r_box r, r_uid r)) (rows st))
     \<and> distinct (map (\<lambda>r. (r_box r, r_key r)) (live_rows st))
     \<and> (\<forall>r \<in> ran (mboxes st). mailbox_ok r)"

text \<open>Views of the tables: the live UID of a key, and the item a UID was given to.\<close>

definition live_of :: "store \<Rightarrow> box \<Rightarrow> str \<Rightarrow> nat option" where
  "live_of st b k = map_of (live_map st b) k"

definition owner_of :: "store \<Rightarrow> box \<Rightarrow> nat \<Rightarrow> (str \<times> str) option" where
  "owner_of st b u = map_of (map (\<lambda>r. ((r_box r, r_uid r), (r_key r, r_id r))) (rows st)) (b, u)"

definition uidnext_of :: "store \<Rightarrow> box \<Rightarrow> nat" where
  "uidnext_of st b = (case mboxes st b of None \<Rightarrow> 1 | Some (_, n) \<Rightarrow> n)"

definition validity_of :: "store \<Rightarrow> box \<Rightarrow> int option" where
  "validity_of st b = map_option fst (mboxes st b)"

lemma store_inv_empty [simp]: "store_inv (empty_store wm)"
  by (simp add: store_inv_def empty_store_def live_rows_def)

lemma ensure_mailbox_frame:
  "rows (snd (ensure_mailbox e st b)) = rows st" "marks (snd (ensure_mailbox e st b)) = marks st"
  "schema_version (snd (ensure_mailbox e st b)) = schema_version st"
  by (auto simp: ensure_mailbox_def Let_def next_uidvalidity_def write_watermark_def
      split: option.splits)

lemma ensure_mailbox_mboxes:
  "mboxes (snd (ensure_mailbox e st b)) = (mboxes st)(b \<mapsto> fst (ensure_mailbox e st b))"
  by (auto simp: ensure_mailbox_def Let_def next_uidvalidity_def write_watermark_def fun_upd_idem
      split: option.splits)

lemma ensure_mailbox_row:
  "snd (fst (ensure_mailbox e st b)) = uidnext_of st b"
  "mboxes st b = Some r \<Longrightarrow> fst (ensure_mailbox e st b) = r"
  by (auto simp: ensure_mailbox_def uidnext_of_def Let_def split: option.splits)

lemma next_uidvalidity_range:
  "1 \<le> fst (next_uidvalidity e st) \<and> fst (next_uidvalidity e st) \<le> 2 ^ 32 - 1"
  by (simp add: next_uidvalidity_def Let_def)

lemma mailbox_okD: "store_inv st \<Longrightarrow> mboxes st b = Some r \<Longrightarrow> mailbox_ok r"
  by (simp add: store_inv_def ranI)

lemma ensure_mailbox_ok:
  assumes "store_inv st"
  shows "mailbox_ok (fst (ensure_mailbox e st b))"
proof (cases "mboxes st b")
  case None
  then show ?thesis
    using next_uidvalidity_range [of e st] by (simp add: ensure_mailbox_def Let_def mailbox_ok_def)
next
  case (Some r)
  then show ?thesis using assms mailbox_okD by (simp add: ensure_mailbox_def)
qed

lemma no_rows_without_mailbox:
  "store_inv st \<Longrightarrow> mboxes st b = None \<Longrightarrow> r \<in> set (rows st) \<Longrightarrow> r_box r \<noteq> b"
  by (auto simp: store_inv_def)

lemma row_uid_bounds:
  "store_inv st \<Longrightarrow> r \<in> set (rows st) \<Longrightarrow> r_box r = b \<Longrightarrow> 1 \<le> r_uid r \<and> r_uid r < uidnext_of st b"
  by (fastforce simp: store_inv_def uidnext_of_def)

lemma uidnext_pos: "store_inv st \<Longrightarrow> 1 \<le> uidnext_of st b"
  using mailbox_okD [of st b]
  by (auto simp: uidnext_of_def mailbox_ok_def split: option.splits)

lemma ran_update_ok:
  "(\<forall>r \<in> ran m. P r) \<Longrightarrow> P r \<Longrightarrow> \<forall>r \<in> ran (m(b \<mapsto> r)). P r"
  by (auto simp: ran_def)

lemma store_inv_ensure_mailbox:
  assumes "store_inv st"
  shows "store_inv (snd (ensure_mailbox e st b))"
proof -
  let ?r = "ensure_mailbox e st b"
  have next1: "snd (fst ?r) = uidnext_of st b" by (rule ensure_mailbox_row)
  have "\<exists>v n. mboxes (snd ?r) (r_box x) = Some (v, n) \<and> 1 \<le> r_uid x \<and> r_uid x < n"
    if "x \<in> set (rows st)" for x
  proof (cases "r_box x = b")
    case True
    then show ?thesis using row_uid_bounds [OF assms that True] next1
      by (simp add: ensure_mailbox_mboxes) (metis prod.collapse)
  next
    case False
    then show ?thesis using assms that by (simp add: ensure_mailbox_mboxes store_inv_def)
  qed
  moreover have "\<forall>r \<in> ran (mboxes (snd ?r)). mailbox_ok r"
    unfolding ensure_mailbox_mboxes
    using assms ensure_mailbox_ok [OF assms] by (intro ran_update_ok) (auto simp: store_inv_def)
  ultimately show ?thesis
    using assms by (simp add: store_inv_def live_rows_def ensure_mailbox_frame)
qed

subsection \<open>What allocation does\<close>

fun fresh_keys :: "str set \<Rightarrow> (str \<times> str) list \<Rightarrow> (str \<times> str) list" where
  "fresh_keys seen [] = []"
| "fresh_keys seen ((k, i) # ks) =
     (if k \<in> seen then fresh_keys seen ks else (k, i) # fresh_keys (insert k seen) ks)"

definition new_row :: "str \<Rightarrow> box \<Rightarrow> nat \<Rightarrow> str \<times> str \<Rightarrow> uid_row" where
  "new_row now b u ki = \<lparr>r_box = b, r_uid = u, r_key = fst ki, r_id = snd ki,
     r_first_seen = now, r_vanished = None\<rparr>"

definition new_rows :: "str \<Rightarrow> box \<Rightarrow> nat \<Rightarrow> (str \<times> str) list \<Rightarrow> uid_row list" where
  "new_rows now b nxt fr = map2 (new_row now b) [nxt..<nxt + length fr] fr"

definition new_live :: "nat \<Rightarrow> (str \<times> str) list \<Rightarrow> (str \<times> nat) list" where
  "new_live nxt fr = zip (map fst fr) [nxt..<nxt + length fr]"

lemma new_row_simps [simp]:
  "r_box (new_row now b u ki) = b" "r_uid (new_row now b u ki) = u"
  "r_key (new_row now b u ki) = fst ki" "r_id (new_row now b u ki) = snd ki"
  "row_live (new_row now b u ki)"
  by (simp_all add: new_row_def row_live_def)

lemma upt_split: "[n..<n + length (x # xs)] = n # [Suc n..<Suc n + length xs]"
  using upt_conv_Cons [of n "n + length (x # xs)"] by simp

lemma new_rows_simps [simp]:
  "new_rows now b nxt [] = []"
  "new_rows now b nxt (x # fr) = new_row now b nxt x # new_rows now b (Suc nxt) fr"
  unfolding new_rows_def by (simp, simp only: upt_split, simp)

lemma new_live_simps [simp]:
  "new_live nxt [] = []"
  "new_live nxt (x # fr) = (fst x, nxt) # new_live (Suc nxt) fr"
  unfolding new_live_def by (simp, simp only: upt_split, simp)

lemma fresh_keys_facts:
  "set (map fst (fresh_keys seen ks)) = fst ` set ks - seen"
  "distinct (map fst (fresh_keys seen ks))"
  by (induction seen ks rule: fresh_keys.induct) auto

lemma insert_row_ok:
  assumes "\<forall>x \<in> set (rows st). r_box x = r_box r \<longrightarrow> r_uid x \<noteq> r_uid r"
    and "\<forall>x \<in> set (rows st). r_box x = r_box r \<longrightarrow> row_live x \<longrightarrow> r_key x \<noteq> r_key r"
  shows "insert_row r st = Inr (st\<lparr>rows := rows st @ [r]\<rparr>)"
  using assms by (auto simp: insert_row_def list_ex_iff)

lemma alloc_uids_spec:
  assumes "\<forall>r \<in> set (rows st). r_box r = b \<longrightarrow> r_uid r < nxt"
    and "fst ` set live = r_key ` {r \<in> set (rows st). r_box r = b \<and> row_live r}"
  shows "alloc_uids now b ks st live nxt n =
    (let fr = fresh_keys (fst ` set live) ks
     in Inr (st\<lparr>rows := rows st @ new_rows now b nxt fr\<rparr>, live @ new_live nxt fr,
             nxt + length fr, n + length fr))"
  using assms
proof (induction now b ks st live nxt n rule: alloc_uids.induct)
  case (1 now b st live nxt n)
  then show ?case by simp
next
  case (2 now b key ident ks st live nxt n)
  show ?case
  proof (cases "key \<in> fst ` set live")
    case True
    then show ?thesis using 2 by simp
  next
    case False
    let ?r = "new_row now b nxt (key, ident)"
    let ?st = "st\<lparr>rows := rows st @ [?r]\<rparr>"
    have ins: "insert_row ?r st = Inr ?st"
      using "2.prems" False by (intro insert_row_ok) auto
    have ins': "insert_row \<lparr>r_box = b, r_uid = nxt, r_key = key, r_id = ident,
        r_first_seen = now, r_vanished = None\<rparr> st = Inr ?st"
      using ins by (simp add: new_row_def)
    have IH: "alloc_uids now b ks ?st (live @ [(key, nxt)]) (nxt + 1) (n + 1) =
      (let fr = fresh_keys (fst ` set (live @ [(key, nxt)])) ks
       in Inr (?st\<lparr>rows := rows ?st @ new_rows now b (nxt + 1) fr\<rparr>,
               (live @ [(key, nxt)]) @ new_live (nxt + 1) fr, nxt + 1 + length fr, n + 1 + length fr))"
    proof (rule "2.IH"(2) [OF _ ins'])
      show "key \<notin> set (map fst live)" using False by simp
      show "\<forall>r \<in> set (rows ?st). r_box r = b \<longrightarrow> r_uid r < nxt + 1"
        using "2.prems"(1) by auto
      show "fst ` set (live @ [(key, nxt)]) = r_key ` {r \<in> set (rows ?st). r_box r = b \<and> row_live r}"
      proof -
        have "{r \<in> set (rows ?st). r_box r = b \<and> row_live r}
            = insert ?r {r \<in> set (rows st). r_box r = b \<and> row_live r}" by auto
        then show ?thesis using "2.prems"(2) by simp
      qed
    qed
    show ?thesis
      using False ins' IH by (simp add: Let_def)
  qed
qed

lemma live_map_keys:
  "fst ` set (live_map st b) = r_key ` {r \<in> set (rows st). r_box r = b \<and> row_live r}"
  by (auto simp: live_map_def image_iff) 

definition fresh_of :: "store \<Rightarrow> box \<Rightarrow> (str \<times> str) list \<Rightarrow> (str \<times> str) list" where
  "fresh_of st b keys = fresh_keys (fst ` set (live_map st b)) keys"

lemma ensure_uids_eq:
  fixes e st b keys
  defines "fr \<equiv> fresh_of st b keys" and "nxt \<equiv> uidnext_of st b"
  assumes inv: "store_inv st"
  shows "fst (ensure_uids e st b keys) = Inr (live_map st b @ new_live nxt fr)"
    and "rows (snd (ensure_uids e st b keys)) = rows st @ new_rows (se_now e) b nxt fr"
    and "mboxes (snd (ensure_uids e st b keys)) =
           (mboxes st)(b \<mapsto> (fst (fst (ensure_mailbox e st b)), nxt + length fr))"
    and "marks (snd (ensure_uids e st b keys)) = marks st"
    and "sidecar (snd (ensure_uids e st b keys)) = sidecar (snd (ensure_mailbox e st b))"
proof -
  obtain v n1 st1 where m: "ensure_mailbox e st b = ((v, n1), st1)" by (metis prod.collapse)
  then have n1: "n1 = nxt" and st1: "rows st1 = rows st" "marks st1 = marks st"
    "mboxes st1 = (mboxes st)(b \<mapsto> (v, nxt))"
    using ensure_mailbox_row(1) [of e st b] ensure_mailbox_frame [of e st b]
      ensure_mailbox_mboxes [of e st b] by (simp_all add: nxt_def)
  have lm: "live_map st1 b = live_map st b" by (simp add: live_map_def st1)
  have "alloc_uids (se_now e) b keys st1 (live_map st1 b) nxt 0 =
    Inr (st1\<lparr>rows := rows st @ new_rows (se_now e) b nxt fr\<rparr>, live_map st b @ new_live nxt fr,
         nxt + length fr, length fr)"
    using row_uid_bounds [OF inv, of _ b] live_map_keys [of st b]
    by (subst alloc_uids_spec) (auto simp: st1 lm nxt_def fr_def fresh_of_def Let_def)
  then have eq: "ensure_uids e st b keys =
     (Inr (live_map st b @ new_live nxt fr),
      if 0 < length fr
      then st1\<lparr>rows := rows st @ new_rows (se_now e) b nxt fr, mboxes := (mboxes st1)(b \<mapsto> (v, nxt + length fr))\<rparr>
      else st1\<lparr>rows := rows st @ new_rows (se_now e) b nxt fr\<rparr>)"
    by (simp add: ensure_uids_def m n1)
  show "fst (ensure_uids e st b keys) = Inr (live_map st b @ new_live nxt fr)"
    and "rows (snd (ensure_uids e st b keys)) = rows st @ new_rows (se_now e) b nxt fr"
    and "marks (snd (ensure_uids e st b keys)) = marks st"
    and "sidecar (snd (ensure_uids e st b keys)) = sidecar (snd (ensure_mailbox e st b))"
    by (simp_all add: eq m st1)
  show "mboxes (snd (ensure_uids e st b keys)) =
      (mboxes st)(b \<mapsto> (fst (fst (ensure_mailbox e st b)), nxt + length fr))"
    by (simp add: eq m st1)
qed

lemma set_new_rows:
  "r \<in> set (new_rows now b nxt fr) \<Longrightarrow> r_box r = b \<and> row_live r \<and> nxt \<le> r_uid r
     \<and> r_uid r < nxt + length fr \<and> r_key r \<in> fst ` set fr"
proof (induction fr arbitrary: nxt)
  case (Cons x fr)
  show ?case
  proof (cases "r = new_row now b nxt x")
    case False
    then have "r \<in> set (new_rows now b (Suc nxt) fr)" using Cons.prems by simp
    from Cons.IH [OF this] show ?thesis by auto
  qed simp
qed simp

lemma new_rows_uids: "map r_uid (new_rows now b nxt fr) = [nxt..<nxt + length fr]"
proof (induction fr arbitrary: nxt)
  case (Cons x fr)
  then show ?case by (simp only: new_rows_simps upt_split list.map new_row_simps)
qed simp

lemma new_rows_keys: "map r_key (new_rows now b nxt fr) = map fst fr"
  by (induction fr arbitrary: nxt) auto

lemma new_rows_live: "map (\<lambda>r. (r_key r, r_uid r)) (new_rows now b nxt fr) = new_live nxt fr"
  by (induction fr arbitrary: nxt) auto

lemma filter_new_rows [simp]:
  "filter row_live (new_rows now b nxt fr) = new_rows now b nxt fr"
  "filter (\<lambda>r. r_box r = b' \<and> row_live r) (new_rows now b nxt fr)
     = (if b' = b then new_rows now b nxt fr else [])"
  by (induction fr arbitrary: nxt) auto

lemma live_map_ensure:
  assumes "store_inv st"
  shows "live_map (snd (ensure_uids e st b keys)) b' =
    (if b' = b then live_map st b @ new_live (uidnext_of st b) (fresh_of st b keys)
     else live_map st b')"
  by (simp add: live_map_def ensure_uids_eq [OF assms] new_rows_live)

lemma distinct_map_pair_const:
  "distinct (map (\<lambda>x. (c, f x)) xs) \<longleftrightarrow> distinct (map f xs)"
  by (induction xs) auto

lemma map_box_new_rows:
  "map (\<lambda>r. (r_box r, f r)) (new_rows now b nxt fr) = map (\<lambda>r. (b, f r)) (new_rows now b nxt fr)"
  using set_new_rows by (auto intro!: map_cong)

lemma fresh_of_disjoint: "k \<in> fst ` set (fresh_of st b keys) \<Longrightarrow> k \<notin> fst ` set (live_map st b)"
  using fresh_keys_facts(1) [of "fst ` set (live_map st b)" keys] by (auto simp: fresh_of_def)

lemma store_inv_ensure_uids:
  assumes inv: "store_inv st"
  shows "store_inv (snd (ensure_uids e st b keys))"
proof -
  let ?st = "snd (ensure_uids e st b keys)" and ?fr = "fresh_of st b keys"
  let ?new = "new_rows (se_now e) b (uidnext_of st b) ?fr"
  note eqs = ensure_uids_eq [OF inv]
  have "\<exists>v n. mboxes ?st (r_box r) = Some (v, n) \<and> 1 \<le> r_uid r \<and> r_uid r < n"
    if r: "r \<in> set (rows ?st)" for r
  proof (cases "r_box r = b")
    case True
    have "1 \<le> r_uid r \<and> r_uid r < uidnext_of st b + length ?fr"
      using r True row_uid_bounds [OF inv, of r b] uidnext_pos [OF inv, of b]
        set_new_rows [of r "se_now e" b "uidnext_of st b" ?fr]
      by (auto simp: eqs)
    then show ?thesis using True by (simp add: eqs)
  next
    case False
    then have "r \<in> set (rows st)" using r set_new_rows by (fastforce simp: eqs)
    then show ?thesis using False inv by (simp add: eqs store_inv_def)
  qed
  moreover have "distinct (map (\<lambda>r. (r_box r, r_uid r)) (rows ?st))"
  proof -
    have "distinct (map r_uid ?new)" by (simp add: new_rows_uids)
    moreover have "(r_box x, r_uid x) \<noteq> (b, r_uid y)" if "x \<in> set (rows st)" "y \<in> set ?new" for x y
      using row_uid_bounds [OF inv that(1)] set_new_rows [OF that(2)] by fastforce
    ultimately show ?thesis
      using inv by (auto simp: eqs store_inv_def map_box_new_rows distinct_map_pair_const)
  qed
  moreover have "distinct (map (\<lambda>r. (r_box r, r_key r)) (live_rows ?st))"
  proof -
    have "distinct (map r_key ?new)" by (simp add: new_rows_keys fresh_of_def fresh_keys_facts)
    moreover have "(r_box x, r_key x) \<noteq> (b, r_key y)"
      if "x \<in> set (live_rows st)" "y \<in> set ?new" for x y
    proof
      assume eq: "(r_box x, r_key x) = (b, r_key y)"
      have "r_key y \<in> fst ` set ?fr" using set_new_rows [OF that(2)] by blast
      then have "r_key y \<notin> fst ` set (live_map st b)" by (rule fresh_of_disjoint)
      moreover have "r_key x \<in> fst ` set (live_map st b)"
        unfolding live_map_keys by (rule imageI) (use that(1) eq in \<open>simp add: live_rows_def\<close>)
      ultimately show False using eq by simp
    qed
    ultimately show ?thesis
      using inv
      by (auto simp: eqs store_inv_def live_rows_def map_box_new_rows distinct_map_pair_const)
  qed
  moreover have "\<forall>r \<in> ran (mboxes ?st). mailbox_ok r"
    unfolding eqs
    using inv ensure_mailbox_ok [OF inv, of e b] uidnext_pos [OF inv, of b]
    by (intro ran_update_ok) (auto simp: store_inv_def mailbox_ok_def)
  ultimately show ?thesis by (simp add: store_inv_def)
qed

subsection \<open>What tombstoning does\<close>

definition gone_uids :: "store \<Rightarrow> box \<Rightarrow> str set \<Rightarrow> nat set" where
  "gone_uids st b present = {r_uid r |r. r \<in> set (rows st) \<and> r_box r = b \<and> row_live r \<and> r_key r \<notin> present}"

definition bury :: "str \<Rightarrow> box \<Rightarrow> nat set \<Rightarrow> uid_row \<Rightarrow> uid_row" where
  "bury now b gone r = (if r_box r = b \<and> r_uid r \<in> gone then r\<lparr>r_vanished := Some now\<rparr> else r)"

lemma bury_simps [simp]:
  "r_box (bury now b gone r) = r_box r" "r_uid (bury now b gone r) = r_uid r"
  "r_key (bury now b gone r) = r_key r" "r_id (bury now b gone r) = r_id r"
  "row_live (bury now b gone r) \<longleftrightarrow> row_live r \<and> \<not> (r_box r = b \<and> r_uid r \<in> gone)"
  by (auto simp: bury_def row_live_def)

lemma set_live_map:
  "set (live_map st b) = (\<lambda>r. (r_key r, r_uid r)) ` {r \<in> set (rows st). r_box r = b \<and> row_live r}"
  by (auto simp: live_map_def)

lemma gone_list:
  "set (sort (map snd (filter (\<lambda>(k, u). k \<notin> present) (live_map st b)))) = gone_uids st b present"
proof -
  have "set (filter (\<lambda>(k, u). k \<notin> present) (live_map st b)) = (\<lambda>r. (r_key r, r_uid r)) `
      {r \<in> set (rows st). r_box r = b \<and> row_live r \<and> r_key r \<notin> present}"
    by (auto simp: set_live_map)
  then show ?thesis by (auto simp: gone_uids_def image_image)
qed

lemma set_gone:
  "set (fst (tombstone_missing e st b present)) = gone_uids st b present"
proof -
  have "fst (tombstone_missing e st b present) =
      sort (map snd (filter (\<lambda>(k, u). k \<notin> present) (live_map st b)))"
    unfolding tombstone_missing_def Let_def by (simp only: if_distrib [of fst] fst_conv) simp
  then show ?thesis by (simp only: gone_list)
qed

lemma tombstone_eq:
  "rows (snd (tombstone_missing e st b present)) =
     map (bury (se_now e) b (gone_uids st b present)) (rows st)"
  "marks (snd (tombstone_missing e st b present)) = marks st - {b} \<times> gone_uids st b present"
  "mboxes (snd (tombstone_missing e st b present)) = mboxes st"
  "sidecar (snd (tombstone_missing e st b present)) = sidecar st"
proof -
  let ?gone = "sort (map snd (filter (\<lambda>(k, u). k \<notin> present) (live_map st b)))"
  have g: "set ?gone = gone_uids st b present"
    by (rule gone_list)
  have id: "map (bury (se_now e) b {}) xs = xs" for xs by (simp add: bury_def map_idI)
  show "rows (snd (tombstone_missing e st b present)) =
     map (bury (se_now e) b (gone_uids st b present)) (rows st)"
    unfolding g [symmetric]
    by (cases "?gone = []") (simp_all add: tombstone_missing_def Let_def bury_def id del: sort_key_const)
  show "marks (snd (tombstone_missing e st b present)) = marks st - {b} \<times> gone_uids st b present"
    unfolding g [symmetric]
    by (cases "?gone = []") (auto simp: tombstone_missing_def Let_def)
  show "mboxes (snd (tombstone_missing e st b present)) = mboxes st"
    "sidecar (snd (tombstone_missing e st b present)) = sidecar st"
    by (simp_all add: tombstone_missing_def Let_def)
qed

lemma sorted_gone: "sorted (fst (tombstone_missing e st b present))"
  by (simp add: tombstone_missing_def Let_def)

lemma row_eqI:
  "store_inv st \<Longrightarrow> r \<in> set (rows st) \<Longrightarrow> r' \<in> set (rows st) \<Longrightarrow>
   r_box r = r_box r' \<Longrightarrow> r_uid r = r_uid r' \<Longrightarrow> r = r'"
  unfolding store_inv_def
  using inj_onD [of "\<lambda>r. (r_box r, r_uid r)" "set (rows st)" r r'] by (simp add: distinct_map)

lemma gone_iff:
  assumes "store_inv st" and "r \<in> set (rows st)" and "r_box r = b" and "row_live r"
  shows "r_uid r \<in> gone_uids st b present \<longleftrightarrow> r_key r \<notin> present"
  using assms row_eqI [OF assms(1,2)] by (fastforce simp: gone_uids_def)

lemma filter_map_bury:
  "filter P (map (bury now b gone) xs) = map (bury now b gone) (filter (\<lambda>r. P (bury now b gone r)) xs)"
  by (simp add: filter_map o_def)

lemma live_map_tombstone:
  assumes inv: "store_inv st"
  shows "live_map (snd (tombstone_missing e st b present)) b' =
    (if b' = b then filter (\<lambda>(k, u). k \<in> present) (live_map st b) else live_map st b')"
proof -
  let ?gone = "gone_uids st b present"
  have "live_map (snd (tombstone_missing e st b present)) b' =
     map (\<lambda>r. (r_key r, r_uid r))
       (filter (\<lambda>r. r_box r = b' \<and> row_live r \<and> \<not> (r_box r = b \<and> r_uid r \<in> ?gone)) (rows st))"
    by (simp add: live_map_def tombstone_eq filter_map_bury o_def)
  also have "filter (\<lambda>r. r_box r = b' \<and> row_live r \<and> \<not> (r_box r = b \<and> r_uid r \<in> ?gone)) (rows st)
     = filter (\<lambda>r. (r_box r = b' \<and> row_live r) \<and> (b' = b \<longrightarrow> r_key r \<in> present)) (rows st)"
    using gone_iff [OF inv] by (intro filter_cong) auto
  finally show ?thesis
    by (auto simp: live_map_def filter_map o_def intro!: arg_cong [where f = "map _"] filter_cong)
qed

lemma store_inv_tombstone:
  assumes inv: "store_inv st"
  shows "store_inv (snd (tombstone_missing e st b present))"
proof -
  let ?b = "bury (se_now e) b (gone_uids st b present)"
  let ?st = "snd (tombstone_missing e st b present)"
  have "map (\<lambda>r. (r_box r, r_uid r)) (rows ?st) = map (\<lambda>r. (r_box r, r_uid r)) (rows st)"
    by (simp add: tombstone_eq o_def)
  moreover have "map (\<lambda>r. (r_box r, r_key r)) (live_rows ?st) =
      map (\<lambda>r. (r_box r, r_key r))
        (filter (\<lambda>r. row_live r \<and> \<not> (r_box r = b \<and> r_uid r \<in> gone_uids st b present)) (rows st))"
    by (simp add: tombstone_eq live_rows_def filter_map_bury o_def)
  moreover have "distinct \<dots>"
  proof -
    have "filter (\<lambda>r. row_live r \<and> \<not> (r_box r = b \<and> r_uid r \<in> gone_uids st b present)) (rows st)
        = filter (\<lambda>r. \<not> (r_box r = b \<and> r_uid r \<in> gone_uids st b present)) (live_rows st)"
      by (simp add: live_rows_def conj_commute)
    then show ?thesis using inv by (simp add: store_inv_def distinct_map_filter)
  qed
  moreover have "\<exists>v n. mboxes ?st (r_box r) = Some (v, n) \<and> 1 \<le> r_uid r \<and> r_uid r < n"
    if "r \<in> set (rows ?st)" for r
    using that inv by (auto simp: tombstone_eq store_inv_def)
  ultimately show ?thesis
    using inv unfolding store_inv_def by (simp add: tombstone_eq o_def)
qed

lemma set_deleted_frame [simp]:
  "rows (set_deleted st b us v) = rows st" "mboxes (set_deleted st b us v) = mboxes st"
  "sidecar (set_deleted st b us v) = sidecar st"
  by (simp_all add: set_deleted_def)

lemma store_inv_set_deleted [simp]: "store_inv (set_deleted st b us v) = store_inv st"
  by (simp add: store_inv_def live_rows_def)

lemma in_deleted_uids: "u \<in> deleted_uids st b \<longleftrightarrow> (b, u) \<in> marks st"
  by (force simp: deleted_uids_def)

lemma deleted_uids_set_deleted:
  "deleted_uids (set_deleted st b us v) b' =
     (if b' \<noteq> b then deleted_uids st b'
      else if v then deleted_uids st b \<union> set us else deleted_uids st b - set us)"
  by (auto simp: in_deleted_uids set_deleted_def)

lemma deleted_uids_tombstone:
  "deleted_uids (snd (tombstone_missing e st b present)) b' =
     (if b' = b then deleted_uids st b - gone_uids st b present else deleted_uids st b')"
  by (auto simp: in_deleted_uids tombstone_eq)

subsection \<open>The contract of an allocator\<close>

text \<open>
  What the mailbox service relies on when it reconciles a listing: allocate UIDs for the listed
  keys, then retire the keys that are not listed.
\<close>

locale uid_allocator =
  fixes ensure :: "'s \<Rightarrow> 'b \<Rightarrow> ('k \<times> 'i) list \<Rightarrow> ('e + ('k \<times> nat) list) \<times> 's"
    and retire :: "'s \<Rightarrow> 'b \<Rightarrow> 'k set \<Rightarrow> nat list \<times> 's"
    and live :: "'s \<Rightarrow> 'b \<Rightarrow> 'k \<Rightarrow> nat option"
    and owner :: "'s \<Rightarrow> 'b \<Rightarrow> nat \<Rightarrow> ('k \<times> 'i) option"
    and bound :: "'s \<Rightarrow> 'b \<Rightarrow> nat"
    and ok :: "'s \<Rightarrow> bool"
  assumes ensure_result: "ok s \<Longrightarrow>
      \<exists>l. fst (ensure s b ks) = Inr l \<and> map_of l = live (snd (ensure s b ks)) b"
    and ensure_covers: "ok s \<Longrightarrow> k \<in> fst ` set ks \<Longrightarrow> live (snd (ensure s b ks)) b k \<noteq> None"
    and ensure_keeps: "ok s \<Longrightarrow> live s b k = Some u \<Longrightarrow> live (snd (ensure s b ks)) b k = Some u"
    and ensure_new: "ok s \<Longrightarrow> live s b k = None \<Longrightarrow> live (snd (ensure s b ks)) b k = Some u \<Longrightarrow>
      bound s b \<le> u"
    and ensure_other: "ok s \<Longrightarrow> b' \<noteq> b \<Longrightarrow> live (snd (ensure s b ks)) b' = live s b'"
    and ensure_owner: "ok s \<Longrightarrow> owner s b' u = Some x \<Longrightarrow> owner (snd (ensure s b ks)) b' u = Some x"
    and ensure_bound: "ok s \<Longrightarrow> bound s b' \<le> bound (snd (ensure s b ks)) b'"
    and ensure_ok: "ok s \<Longrightarrow> ok (snd (ensure s b ks))"
    and retire_live: "ok s \<Longrightarrow> live (snd (retire s b K)) b' k =
      (if b' = b \<and> k \<notin> K then None else live s b' k)"
    and retire_owner: "ok s \<Longrightarrow> owner (snd (retire s b K)) b' u = owner s b' u"
    and retire_bound: "ok s \<Longrightarrow> bound (snd (retire s b K)) b' = bound s b'"
    and retire_ok: "ok s \<Longrightarrow> ok (snd (retire s b K))"
    and live_bound: "ok s \<Longrightarrow> live s b k = Some u \<Longrightarrow> u < bound s b"
    and live_inj: "ok s \<Longrightarrow> live s b k = Some u \<Longrightarrow> live s b k' = Some u \<Longrightarrow> k = k'"
begin

definition reconcile :: "'s \<Rightarrow> 'b \<Rightarrow> ('k \<times> 'i) list \<Rightarrow> 's" where
  "reconcile s b ks = snd (retire (snd (ensure s b ks)) b (fst ` set ks))"

lemma reconcile_ok: "ok s \<Longrightarrow> ok (reconcile s b ks)"
  by (simp add: reconcile_def ensure_ok retire_ok)

lemma reconcile_dom: "ok s \<Longrightarrow> live (reconcile s b ks) b k \<noteq> None \<longleftrightarrow> k \<in> fst ` set ks"
  using ensure_covers [of s k ks b] by (auto simp: reconcile_def ensure_ok retire_live)

lemma reconcile_stable:
  "ok s \<Longrightarrow> live s b k = Some u \<Longrightarrow> k \<in> fst ` set ks \<Longrightarrow> live (reconcile s b ks) b k = Some u"
  by (simp add: reconcile_def ensure_ok retire_live ensure_keeps)

lemma reconcile_fresh:
  "ok s \<Longrightarrow> live s b k = None \<Longrightarrow> live (reconcile s b ks) b k = Some u \<Longrightarrow> bound s b \<le> u"
  using ensure_new by (auto simp: reconcile_def ensure_ok retire_live split: if_splits)

lemma reconcile_other: "ok s \<Longrightarrow> b' \<noteq> b \<Longrightarrow> live (reconcile s b ks) b' = live s b'"
  by (simp add: fun_eq_iff reconcile_def ensure_ok retire_live ensure_other)

lemma reconcile_owner: "ok s \<Longrightarrow> owner s b' u = Some x \<Longrightarrow> owner (reconcile s b ks) b' u = Some x"
  by (simp add: reconcile_def ensure_ok retire_owner ensure_owner)

lemma reconcile_bound: "ok s \<Longrightarrow> bound s b' \<le> bound (reconcile s b ks) b'"
  by (simp add: reconcile_def ensure_ok retire_bound ensure_bound)

end

lemma live_of_ensure:
  "store_inv st \<Longrightarrow> live_of (snd (ensure_uids e st b keys)) b' k =
     (if b' = b then (case live_of st b k of
          None \<Rightarrow> map_of (new_live (uidnext_of st b) (fresh_of st b keys)) k
        | Some u \<Rightarrow> Some u)
      else live_of st b' k)"
  by (auto simp: live_of_def live_map_ensure map_add_def split: option.splits)

lemma owner_of_ensure:
  "store_inv st \<Longrightarrow> owner_of st b' u = Some x \<Longrightarrow> owner_of (snd (ensure_uids e st b keys)) b' u = Some x"
  by (simp add: owner_of_def ensure_uids_eq map_add_Some_iff)

lemma owner_of_tombstone [simp]:
  "owner_of (snd (tombstone_missing e st b present)) b' u = owner_of st b' u"
  by (simp add: owner_of_def tombstone_eq o_def)

lemma uidnext_of_ensure:
  "store_inv st \<Longrightarrow> uidnext_of (snd (ensure_uids e st b keys)) b' =
     (if b' = b then uidnext_of st b + length (fresh_of st b keys) else uidnext_of st b')"
  by (auto simp: uidnext_of_def ensure_uids_eq split: option.splits)

lemma fst_set_new_live: "fst ` set (new_live n fr) = fst ` set fr"
  by (induction fr arbitrary: n) auto

lemma new_live_bounds: "(k, u) \<in> set (new_live n fr) \<Longrightarrow> n \<le> u \<and> u < n + length fr"
proof (induction fr arbitrary: n)
  case (Cons x fr)
  show ?case
  proof (cases "(k, u) = (fst x, n)")
    case False
    then have "(k, u) \<in> set (new_live (Suc n) fr)" using Cons.prems by auto
    from Cons.IH [OF this] show ?thesis by auto
  qed simp
qed simp

lemma live_of_Some:
  "live_of st b k = Some u \<Longrightarrow> \<exists>r \<in> set (rows st). r_box r = b \<and> row_live r \<and> r_key r = k \<and> r_uid r = u"
  by (auto simp: live_of_def set_live_map dest!: map_of_SomeD)

lemma live_of_None: "live_of st b k = None \<longleftrightarrow> k \<notin> fst ` set (live_map st b)"
  by (simp add: live_of_def map_of_eq_None_iff)

lemma fresh_of_keys:
  "fst ` set (fresh_of st b keys) = fst ` set keys - fst ` set (live_map st b)"
  using fresh_keys_facts(1) [of "fst ` set (live_map st b)" keys] by (simp add: fresh_of_def)

lemma map_of_filter_key: "map_of (filter (\<lambda>(k, u). k \<in> K) xs) k = (if k \<in> K then map_of xs k else None)"
  by (induction xs) auto

interpretation store_uids: uid_allocator "ensure_uids e" "tombstone_missing e"
    live_of owner_of uidnext_of store_inv for e
proof (unfold_locales, goal_cases)
  case (1 s b ks)
  then show ?case by (simp add: ensure_uids_eq live_of_def live_map_ensure fun_eq_iff)
next
  case (2 s k ks b)
  then have "live_of s b k = None \<Longrightarrow> k \<in> fst ` set (new_live (uidnext_of s b) (fresh_of s b ks))"
    by (simp add: fst_set_new_live fresh_of_keys live_of_None)
  then show ?case
    using 2 by (auto simp: live_of_ensure map_of_eq_None_iff simp del: not_None_eq split: option.splits)
next
  case (3 s b k u ks)
  then show ?case by (simp add: live_of_ensure)
next
  case (4 s b k ks u)
  then have "map_of (new_live (uidnext_of s b) (fresh_of s b ks)) k = Some u"
    by (simp add: live_of_ensure)
  then show ?case using new_live_bounds map_of_SomeD by fastforce
next
  case (5 s b' b ks)
  then show ?case by (simp add: live_of_ensure fun_eq_iff)
next
  case (6 s b' u x b ks)
  then show ?case by (rule owner_of_ensure)
next
  case (7 s b' b ks)
  then show ?case by (simp add: uidnext_of_ensure)
next
  case (8 s b ks)
  then show ?case by (rule store_inv_ensure_uids)
next
  case (9 s b K b' k)
  then show ?case by (simp add: live_of_def live_map_tombstone map_of_filter_key)
next
  case (10 s b K b' u)
  show ?case by (rule owner_of_tombstone)
next
  case (11 s b K b')
  show ?case by (simp add: uidnext_of_def tombstone_eq)
next
  case (12 s b K)
  then show ?case by (rule store_inv_tombstone)
next
  case (13 s b k u)
  then show ?case using live_of_Some row_uid_bounds by blast
next
  case (14 s b k u k')
  then show ?case using live_of_Some row_eqI by metis
qed

subsection \<open>Runs of the store\<close>

datatype store_op =
    OpInfo store_env box
  | OpEnsure store_env box "(str \<times> str) list"
  | OpTombstone store_env box "str list"
  | OpMark box "nat list" bool

fun store_step :: "store \<Rightarrow> store_op \<Rightarrow> store" where
  "store_step st (OpInfo e b) = snd (mailbox_info e st b)"
| "store_step st (OpEnsure e b keys) = snd (ensure_uids e st b keys)"
| "store_step st (OpTombstone e b present) = snd (tombstone_missing e st b (set present))"
| "store_step st (OpMark b us v) = set_deleted st b us v"

definition store_run :: "store \<Rightarrow> store_op list \<Rightarrow> store" where
  "store_run = foldl store_step"

lemma store_run_simps [simp]:
  "store_run st [] = st" "store_run st (x # xs) = store_run (store_step st x) xs"
  by (simp_all add: store_run_def)

text \<open>A UID of a mailbox is retired when its row carries a vanishing time.\<close>

definition retired :: "store \<Rightarrow> box \<Rightarrow> nat \<Rightarrow> bool" where
  "retired st b u \<longleftrightarrow> (\<exists>r \<in> set (rows st). r_box r = b \<and> r_uid r = u \<and> \<not> row_live r)"

lemma store_inv_step: "store_inv st \<Longrightarrow> store_inv (store_step st x)"
  by (cases x) (simp_all add: store_inv_ensure_mailbox mailbox_info_def store_inv_ensure_uids
      store_inv_tombstone)

lemma store_inv_run: "store_inv st \<Longrightarrow> store_inv (store_run st xs)"
  by (induction xs arbitrary: st) (simp_all add: store_inv_step)

lemma owner_of_step: "store_inv st \<Longrightarrow> owner_of st b u = Some k \<Longrightarrow> owner_of (store_step st x) b u = Some k"
proof (cases x)
  case (OpInfo e b')
  then show "owner_of st b u = Some k \<Longrightarrow> ?thesis"
    by (simp add: mailbox_info_def owner_of_def ensure_mailbox_frame)
qed (simp_all add: owner_of_ensure, simp add: owner_of_def)

lemma owner_of_run: "store_inv st \<Longrightarrow> owner_of st b u = Some k \<Longrightarrow> owner_of (store_run st xs) b u = Some k"
  by (induction xs arbitrary: st) (simp_all add: store_inv_step owner_of_step)

lemma retired_step: "store_inv st \<Longrightarrow> retired st b u \<Longrightarrow> retired (store_step st x) b u"
  by (cases x)
     (auto simp: retired_def mailbox_info_def ensure_mailbox_frame ensure_uids_eq tombstone_eq)

lemma retired_run: "store_inv st \<Longrightarrow> retired st b u \<Longrightarrow> retired (store_run st xs) b u"
  by (induction xs arbitrary: st) (simp_all add: store_inv_step retired_step)

lemma retired_not_live: "store_inv st \<Longrightarrow> retired st b u \<Longrightarrow> live_of st b k \<noteq> Some u"
  using live_of_Some [of st b k u] row_eqI by (fastforce simp: retired_def)

lemma validity_step: "validity_of st b = Some v \<Longrightarrow> validity_of (store_step st x) b = Some v"
proof (cases x)
  case (OpInfo e b')
  assume "validity_of st b = Some v"
  then show ?thesis using OpInfo ensure_mailbox_row(2) [of st b']
    by (auto simp: mailbox_info_def validity_of_def ensure_mailbox_mboxes)
next
  case (OpEnsure e b' keys)
  assume v: "validity_of st b = Some v"
  obtain r where r: "ensure_mailbox e st b' = r" by blast
  have m: "mboxes (snd r) b = mboxes st b" if "b \<noteq> b' \<or> mboxes st b' \<noteq> None" for b
    using that r ensure_mailbox_mboxes [of e st b'] ensure_mailbox_row(2) [of st b' _ e] by auto
  have pres: "mboxes st2 = mboxes st1" if "alloc_uids now b'' ks st1 live nxt n = Inr (st2, l2, n2, a2)"
    for now b'' ks st1 live nxt n st2 l2 n2 a2
    using that
    by (induction now b'' ks st1 live nxt n rule: alloc_uids.induct)
       (auto simp: insert_row_def split: if_splits)
  show ?thesis
    using v OpEnsure r m [of b] pres
    by (auto simp: ensure_uids_def validity_of_def ensure_mailbox_row(2)
        split: prod.splits sum.splits)
       (metis ensure_mailbox_row(2) fst_conv)+
qed (simp_all add: validity_of_def tombstone_eq)

lemma validity_run: "validity_of st b = Some v \<Longrightarrow> validity_of (store_run st ops) b = Some v"
  by (induction ops arbitrary: st) (simp_all add: validity_step)

lemma uidnext_step:
  assumes "store_inv st"
  shows "uidnext_of st b \<le> uidnext_of (store_step st x) b"
proof (cases x)
  case (OpInfo e b')
  have "snd (fst (ensure_mailbox e st b')) = uidnext_of st b'" by (rule ensure_mailbox_row)
  then have "uidnext_of (snd (ensure_mailbox e st b')) b = uidnext_of st b"
    by (auto simp: uidnext_of_def ensure_mailbox_mboxes split: prod.splits)
  then show ?thesis using OpInfo by (simp add: mailbox_info_def)
next
  case (OpEnsure e b' keys)
  then show ?thesis using store_uids.ensure_bound assms by simp
next
  case (OpTombstone e b' present)
  then show ?thesis using store_uids.retire_bound assms by simp
next
  case (OpMark b' us v)
  then show ?thesis by (simp add: uidnext_of_def)
qed

lemma uidnext_run: "store_inv st \<Longrightarrow> uidnext_of st b \<le> uidnext_of (store_run st xs) b"
proof (induction xs arbitrary: st)
  case (Cons x xs)
  then show ?case using uidnext_step [of st b x] store_inv_step [of st x] by fastforce
qed simp

subsection \<open>UIDVALIDITY and the watermark\<close>

definition watermark_inv :: "store \<Rightarrow> bool" where
  "watermark_inv st \<longleftrightarrow> (\<forall>b v. validity_of st b = Some v \<longrightarrow> v \<le> read_watermark st)"

lemma watermark_inv_cong:
  "watermark_inv st \<Longrightarrow> sidecar st' = sidecar st \<Longrightarrow> validity_of st' = validity_of st \<Longrightarrow> watermark_inv st'"
  by (simp add: watermark_inv_def read_watermark_def)

text \<open>A value that was written is read back.\<close>

lemma watermark_read_back:
  assumes "se_watermark_writable e" and "0 \<le> v" and "v < 2 ^ 32"
  shows "read_watermark (write_watermark e v st) = v"
proof -
  have "nat v < 10 ^ 10" using assms(2,3) by simp
  then have "length (nat_str (nat \<bar>v\<bar>)) \<le> 10" using assms(2) by (intro length_nat_str) simp_all
  then have "py_int_text (int_str v) = Some v" by (simp add: py_int_text_int_str max_str_digits_def)
  moreover have "int_str v \<noteq> []" by (simp add: int_str_def)
  ultimately show ?thesis using assms(1) by (simp add: read_watermark_def write_watermark_def)
qed

lemma next_uidvalidity_above: "v \<le> read_watermark st \<Longrightarrow> v < 2 ^ 32 - 1 \<Longrightarrow> v < fst (next_uidvalidity e st)"
  by (simp add: next_uidvalidity_def Let_def)

lemma issued_above_all:
  assumes "watermark_inv st" and "store_inv st" and "validity_of st b = Some v"
  shows "v \<le> fst (next_uidvalidity e st)"
proof -
  obtain r where r: "mboxes st b = Some r" "v = fst r" using assms(3) by (auto simp: validity_of_def)
  then have "v \<le> 2 ^ 32 - 1" using mailbox_okD [OF assms(2) r(1)] by (simp add: mailbox_ok_def)
  moreover have "v \<le> read_watermark st" using assms(1,3) by (simp add: watermark_inv_def)
  ultimately show ?thesis by (simp add: next_uidvalidity_def Let_def)
qed

text \<open>What creating a mailbox leaves behind.\<close>

lemma created_mailbox:
  assumes "mboxes st b = None" and "se_watermark_writable e"
  shows "read_watermark (snd (ensure_mailbox e st b)) = fst (next_uidvalidity e st)"
    and "mboxes (snd (ensure_mailbox e st b)) = (mboxes st)(b \<mapsto> (fst (next_uidvalidity e st), 1))"
proof -
  let ?v = "fst (next_uidvalidity e st)"
  have "snd (next_uidvalidity e st) = write_watermark e ?v st" by (simp add: next_uidvalidity_def Let_def)
  then show "read_watermark (snd (ensure_mailbox e st b)) = ?v" "mboxes (snd (ensure_mailbox e st b)) = (mboxes st)(b \<mapsto> (?v, 1))"
    using watermark_read_back [OF assms(2), of ?v st] next_uidvalidity_range [of e st] assms(1)
    by (simp_all add: ensure_mailbox_def Let_def) (simp_all add: read_watermark_def write_watermark_def)
qed

lemma watermark_inv_ensure_mailbox:
  assumes "watermark_inv st" and "store_inv st" and "se_watermark_writable e"
  shows "watermark_inv (snd (ensure_mailbox e st b))"
proof (cases "mboxes st b")
  case None
  then show ?thesis
    using issued_above_all [OF assms(1,2)] created_mailbox [OF None assms(3)]
    by (auto simp: watermark_inv_def validity_of_def split: if_splits)
next
  case (Some r)
  then show ?thesis using assms by (simp add: ensure_mailbox_def)
qed

fun writes_sidecar :: "store_op \<Rightarrow> bool" where
  "writes_sidecar (OpInfo e b) = se_watermark_writable e"
| "writes_sidecar (OpEnsure e b keys) = se_watermark_writable e"
| "writes_sidecar _ = True"

text \<open>To UIDVALIDITY and the watermark an operation is the creation of a mailbox, or nothing.\<close>

lemma step_cases:
  assumes "store_inv st"
  obtains "sidecar (store_step st x) = sidecar st" "validity_of (store_step st x) = validity_of st"
  | e b where "writes_sidecar x = se_watermark_writable e" "sidecar (store_step st x) = sidecar (snd (ensure_mailbox e st b))"
      "validity_of (store_step st x) = validity_of (snd (ensure_mailbox e st b))"
proof (cases x)
  case (OpInfo e b)
  then show ?thesis using that(2) [of e b] by (simp add: mailbox_info_def)
next
  case (OpEnsure e b keys)
  have "validity_of (snd (ensure_uids e st b keys)) = validity_of (snd (ensure_mailbox e st b))"
    by (simp add: fun_eq_iff validity_of_def ensure_uids_eq(3) [OF assms] ensure_mailbox_mboxes)
  then show ?thesis using that(2) [of e b] OpEnsure ensure_uids_eq(5) [OF assms] by simp
qed (use that(1) in \<open>simp_all add: fun_eq_iff validity_of_def tombstone_eq set_deleted_def\<close>)

lemma watermark_inv_step:
  assumes "watermark_inv st" and "store_inv st" and "writes_sidecar x"
  shows "watermark_inv (store_step st x)"
proof (cases rule: step_cases [OF assms(2), of x])
  case 1
  then show ?thesis by (rule watermark_inv_cong [OF assms(1)])
next
  case (2 e b)
  have "watermark_inv (snd (ensure_mailbox e st b))" by (rule watermark_inv_ensure_mailbox) (use assms 2(1) in simp_all)
  then show ?thesis by (rule watermark_inv_cong) (rule 2)+
qed

lemma watermark_inv_run:
  "watermark_inv st \<Longrightarrow> store_inv st \<Longrightarrow> list_all writes_sidecar xs \<Longrightarrow> watermark_inv (store_run st xs)"
  by (induction xs arbitrary: st) (simp_all add: watermark_inv_step store_inv_step)

lemma recovered_validity:
  assumes "watermark_inv st" and "validity_of st b = Some v" and "v < 2 ^ 32 - 1"
    and "recover_store e st = Inr st'"
  shows "v < fst (fst (mailbox_info e' st' b'))"
proof -
  have st': "mboxes st' = Map.empty" "read_watermark st' = read_watermark st"
    using assms(4) by (auto simp: recover_store_def check_schema_version_def empty_store_def read_watermark_def
        split: if_splits)
  have "v \<le> read_watermark st" using assms(1,2) by (simp add: watermark_inv_def)
  then have "v < fst (next_uidvalidity e' st')" using assms(3) st' by (intro next_uidvalidity_above) simp_all
  then show ?thesis by (simp add: mailbox_info_def ensure_mailbox_def st' Let_def)
qed

subsection \<open>Properties\<close>

lemma store_run_append [simp]: "store_run st (xs @ ys) = store_run (store_run st xs) ys"
  by (simp add: store_run_def)

text \<open>C11: The constraints of the schema are never violated: after any sequence of operations on a fresh
  store, UIDs are positive, below the mailbox's next UID and unique per mailbox, live keys are unique,
  UIDVALIDITY is a positive 32-bit number, and so a further allocation returns a map, never an
  integrity error.\<close>

theorem store_never_violates_schema:
  "store_inv (store_run (empty_store wm) ops)
   \<and> (\<exists>live. fst (ensure_uids e (store_run (empty_store wm) ops) b keys) = Inr live)"
proof -
  have "store_inv (store_run (empty_store wm) ops)" by (simp add: store_inv_run)
  then show ?thesis by (simp add: ensure_uids_eq)
qed

text \<open>Allocation on a reachable store: \<open>ensure_uids\<close> keeps the UID of every live key, gives the new keys,
  in the order they are listed and each once, consecutive UIDs from the mailbox's next UID, advances the
  next UID by their number, and touches no other mailbox.\<close>

theorem ensure_uids_allocates:
  assumes "store_inv st"
  shows "fst (ensure_uids e st b keys) = Inr (live_map st b @
           zip (map fst (fresh_of st b keys)) [uidnext_of st b ..< uidnext_of st b + length (fresh_of st b keys)])
    \<and> uidnext_of (snd (ensure_uids e st b keys)) b = uidnext_of st b + length (fresh_of st b keys)
    \<and> fst ` set (fresh_of st b keys) = fst ` set keys - fst ` set (live_map st b)
    \<and> distinct (map fst (fresh_of st b keys))
    \<and> (\<forall>b'. b' \<noteq> b \<longrightarrow> live_of (snd (ensure_uids e st b keys)) b' = live_of st b'
                        \<and> uidnext_of (snd (ensure_uids e st b keys)) b' = uidnext_of st b')"
  using ensure_uids_eq(1) [OF assms, of e b keys] uidnext_of_ensure [OF assms, of e b keys]
    fresh_of_keys [of st b keys] fresh_keys_facts [of "fst ` set (live_map st b)" keys]
    store_uids.ensure_other [OF assms]
  by (simp add: new_live_def) (simp add: fresh_of_def)

theorem ensure_uids_allocates_witness:
  "fst (ensure_uids \<lparr>se_clock = 7, se_now = ''now'', se_watermark_writable = True, se_db_writable = True,
          se_can_rename = True\<rparr> (empty_store None) (Box ''a@x'' ''INBOX'')
        [(''k1'', ''i1''), (''k2'', ''i2''), (''k1'', ''i1'')])
     = Inr [(''k1'', 1), (''k2'', 2)]"
proof -
  have "fresh_of (empty_store None) (Box ''a@x'' ''INBOX'') [(''k1'', ''i1''), (''k2'', ''i2''), (''k1'', ''i1'')]
      = [(''k1'', ''i1''), (''k2'', ''i2'')]"
    by (simp add: fresh_of_def live_map_def empty_store_def)
  then show ?thesis
    using ensure_uids_allocates [of "empty_store None"]
    by (simp add: live_map_def uidnext_of_def) (simp add: empty_store_def numeral_2_eq_2 upt_conv_Cons)
qed

text \<open>A UID, once given to an item, is never given to another one, and a UID that has vanished never
  comes back: whatever operations follow, its owner is the same item and no key of the mailbox maps
  to it again.\<close>

lemma uid_never_reused:
  assumes "owner_of (store_run (empty_store wm) ops) b u = Some item"
  shows "owner_of (store_run (empty_store wm) (ops @ later)) b u = Some item
    \<and> (retired (store_run (empty_store wm) ops) b u \<longrightarrow>
         (\<forall>k. live_of (store_run (empty_store wm) (ops @ later)) b k \<noteq> Some u))"
proof -
  have inv: "store_inv (store_run (empty_store wm) ops)" by (simp add: store_inv_run)
  show ?thesis
    using owner_of_run [OF inv assms] retired_run [OF inv] retired_not_live [OF store_inv_run [OF inv]]
    by simp
qed

text \<open>C9: Reconciling a mailbox with a listing (allocate for the listed keys, tombstone the others): the live
  keys are exactly the listed ones, a key that was live keeps its UID, and every newly assigned UID is
  at least the former next UID, so above every UID ever assigned in the mailbox.\<close>

theorem reconcile_follows_listing:
  assumes "store_inv st"
  shows "let st' = snd (tombstone_missing e (snd (ensure_uids e st b keys)) b (fst ` set keys))
    in store_inv st'
     \<and> (\<forall>k. live_of st' b k \<noteq> None \<longleftrightarrow> k \<in> fst ` set keys)
     \<and> (\<forall>k u. live_of st b k = Some u \<and> k \<in> fst ` set keys \<longrightarrow> live_of st' b k = Some u)
     \<and> (\<forall>k u. live_of st b k = None \<and> live_of st' b k = Some u \<longrightarrow> uidnext_of st b \<le> u)
     \<and> (\<forall>u x. owner_of st b u = Some x \<longrightarrow> owner_of st' b u = Some x)"
  unfolding Let_def store_uids.reconcile_def [symmetric]
  by (intro conjI allI impI store_uids.reconcile_ok [OF assms] store_uids.reconcile_dom [OF assms])
     (blast intro: store_uids.reconcile_stable [OF assms] store_uids.reconcile_fresh [OF assms]
        store_uids.reconcile_owner [OF assms])+

theorem reconcile_follows_listing_witness:
  "\<forall>e b. live_of (snd (tombstone_missing e (snd (ensure_uids e (empty_store None) b [(''k'', ''i'')])) b
      (fst ` set [(''k'', ''i'')]))) b ''k'' \<noteq> None"
  using reconcile_follows_listing [of "empty_store None" _ _ "[(''k'', ''i'')]"] by (simp add: Let_def)



end
