(* ===== verification/Calendar.thy ===== *)
theory Calendar
  imports Gateway_Prelude
begin

text \<open>
  Dates and points in time as the gateway uses Python's \<open>datetime\<close> module: \<open>date\<close> with its ordering
  (an instance of \<open>linorder\<close>) and its range check, and \<open>datetime\<close> with an optional UTC offset in
  seconds, ordered by the instant it names.
\<close>

subsection \<open>Dates\<close>

datatype date = Date (d_year: nat) (d_month: nat) (d_day: nat)

definition leap_year :: "nat \<Rightarrow> bool" where
  "leap_year y \<longleftrightarrow> 4 dvd y \<and> (\<not> 100 dvd y \<or> 400 dvd y)"

definition days_in_month :: "nat \<Rightarrow> nat \<Rightarrow> nat" where
  "days_in_month y m =
     (if m = 2 then (if leap_year y then 29 else 28) else if m \<in> {4, 6, 9, 11} then 30 else 31)"

text \<open>The arguments for which \<open>date(y, m, d)\<close> does not raise.\<close>

definition valid_date :: "date \<Rightarrow> bool" where
  "valid_date x \<longleftrightarrow> 1 \<le> d_year x \<and> d_year x \<le> 9999 \<and> 1 \<le> d_month x \<and> d_month x \<le> 12
     \<and> 1 \<le> d_day x \<and> d_day x \<le> days_in_month (d_year x) (d_month x)"

definition date_key :: "date \<Rightarrow> nat \<times> nat \<times> nat" where
  "date_key x = (d_year x, d_month x, d_day x)"

instantiation date :: linorder
begin

definition less_date :: "date \<Rightarrow> date \<Rightarrow> bool" where
  "less_date a b \<longleftrightarrow> d_year a < d_year b \<or> d_year a = d_year b \<and>
     (d_month a < d_month b \<or> d_month a = d_month b \<and> d_day a < d_day b)"

definition less_eq_date :: "date \<Rightarrow> date \<Rightarrow> bool" where
  "less_eq_date a b \<longleftrightarrow> a = b \<or> a < (b :: date)"

instance
  by standard (auto simp: less_date_def less_eq_date_def intro: date.expand)

end

subsection \<open>Points in time\<close>

record datetime =
  dt_date :: date
  dt_hour :: nat
  dt_minute :: nat
  dt_second :: nat
  dt_micro :: nat
  dt_utcoffset :: "int option"

definition epoch :: datetime where
  "epoch = \<lparr>dt_date = Date 1970 1 1, dt_hour = 0, dt_minute = 0, dt_second = 0, dt_micro = 0,
     dt_utcoffset = Some 0\<rparr>"

text \<open>\<open>date.toordinal()\<close>: days from 0001-01-01, which is day 1.\<close>

definition days_before_year :: "nat \<Rightarrow> nat" where
  "days_before_year y = (let p = y - 1 in p * 365 + p div 4 - p div 100 + p div 400)"

fun days_before_month :: "nat \<Rightarrow> nat \<Rightarrow> nat" where
  "days_before_month y 0 = 0"
| "days_before_month y (Suc m) = (if m = 0 then 0 else days_before_month y m + days_in_month y m)"

definition to_ordinal :: "date \<Rightarrow> nat" where
  "to_ordinal x = days_before_year (d_year x) + days_before_month (d_year x) (d_month x) + d_day x"

text \<open>Microseconds since 0001-01-01T00:00Z; a naive datetime is read as UTC.\<close>

definition instant :: "datetime \<Rightarrow> int" where
  "instant dt = (let secs = (int (to_ordinal (dt_date dt)) * 24 + int (dt_hour dt)) * 3600
                    + int (dt_minute dt) * 60 + int (dt_second dt)
                    - (case dt_utcoffset dt of None \<Rightarrow> 0 | Some s \<Rightarrow> s)
     in secs * 1000000 + int (dt_micro dt))"

subsection \<open>The ordering of dates is the ordering of days\<close>

definition year_length :: "nat \<Rightarrow> nat" where
  "year_length y = (if leap_year y then 366 else 365)"

lemma div_step: "Suc p div k = p div k + (if k dvd Suc p then 1 else 0)"
  by (simp add: div_Suc dvd_eq_mod_eq_0)

lemma days_before_year_Suc:
  "1 \<le> y \<Longrightarrow> days_before_year (Suc y) = days_before_year y + year_length y"
proof -
  assume "1 \<le> y"
  then obtain p where y: "y = Suc p" by (cases y) auto
  have le: "p div 100 \<le> p div 4" by (simp add: div_le_mono2)
  have dvd: "100 dvd Suc p \<Longrightarrow> 4 dvd Suc p" "400 dvd Suc p \<Longrightarrow> 100 dvd Suc p"
    by (auto intro: dvd_trans [of _ 100] dvd_trans [of _ 400])
  have a: "days_before_year (Suc (Suc p)) = Suc p * 365 + Suc p div 4 - Suc p div 100 + Suc p div 400"
    and b: "days_before_year (Suc p) = p * 365 + p div 4 - p div 100 + p div 400"
    by (simp_all only: days_before_year_def Let_def diff_Suc_1)
  have c: "year_length (Suc p) = (if 4 dvd Suc p \<and> (\<not> 100 dvd Suc p \<or> 400 dvd Suc p) then 366 else 365)"
    by (simp only: year_length_def leap_year_def)
  define q4 q100 q400 where q: "q4 = p div 4" "q100 = p div 100" "q400 = p div 400"
  have le': "q100 \<le> q4" using le by (simp add: q)
  show ?thesis
    unfolding y a b c div_step [of p 4] div_step [of p 100] div_step [of p 400] q [symmetric]
    using le' dvd
    by (cases "4 dvd Suc p"; cases "100 dvd Suc p"; cases "400 dvd Suc p";
        simp only: if_True if_False simp_thms mult_Suc; arith)
qed

lemma days_before_year_mono: "1 \<le> y \<Longrightarrow> y \<le> z \<Longrightarrow> days_before_year y \<le> days_before_year z"
proof (induction z)
  case (Suc z)
  then show ?case by (cases "y = Suc z") (auto simp: days_before_year_Suc)
qed simp

lemma days_before_month_mono:
  "m < n \<Longrightarrow> 1 \<le> m \<Longrightarrow> days_before_month y m + days_in_month y m \<le> days_before_month y n"
proof (induction n)
  case (Suc n)
  then show ?case by (cases "m = n") auto
qed simp

lemma days_before_month_12:
  "days_before_month y 12 + days_in_month y 12 = year_length y"
  by (simp add: eval_nat_numeral days_in_month_def year_length_def)

lemma day_of_year_bounds:
  assumes "valid_date x"
  shows "1 \<le> days_before_month (d_year x) (d_month x) + d_day x"
    and "days_before_month (d_year x) (d_month x) + d_day x \<le> year_length (d_year x)"
proof -
  let ?y = "d_year x" and ?m = "d_month x"
  show "1 \<le> days_before_month ?y ?m + d_day x" using assms by (simp add: valid_date_def)
  have "days_before_month ?y ?m + days_in_month ?y ?m \<le> year_length ?y"
    using assms days_before_month_mono [of ?m 12 ?y] days_before_month_12 [of ?y]
    by (cases "?m = 12") (auto simp: valid_date_def)
  then show "days_before_month ?y ?m + d_day x \<le> year_length ?y"
    using assms by (simp add: valid_date_def)
qed

lemma to_ordinal_less:
  assumes "valid_date a" and "valid_date b" and "a < b"
  shows "to_ordinal a < to_ordinal b"
proof (cases "d_year a = d_year b")
  case True
  show ?thesis
  proof (cases "d_month a = d_month b")
    case True
    then show ?thesis using assms(3) \<open>d_year a = d_year b\<close> by (simp add: less_date_def to_ordinal_def)
  next
    case False
    then have "d_month a < d_month b" using assms(3) True by (simp add: less_date_def)
    then have "days_before_month (d_year a) (d_month a) + days_in_month (d_year a) (d_month a)
        \<le> days_before_month (d_year a) (d_month b)"
      using assms(1) by (intro days_before_month_mono) (simp_all add: valid_date_def)
    then show ?thesis using assms True by (simp add: to_ordinal_def valid_date_def)
  qed
next
  case False
  then have less: "Suc (d_year a) \<le> d_year b" using assms(3) by (simp add: less_date_def)
  have y: "1 \<le> d_year a" using assms(1) by (simp add: valid_date_def)
  have "days_before_year (d_year a) + year_length (d_year a) \<le> days_before_year (d_year b)"
    using days_before_year_mono [OF _ less] y by (simp add: days_before_year_Suc)
  then show ?thesis
    using day_of_year_bounds [OF assms(1)] day_of_year_bounds [OF assms(2)] by (simp add: to_ordinal_def)
qed

lemma to_ordinal_less_iff:
  assumes "valid_date a" and "valid_date b"
  shows "to_ordinal a < to_ordinal b \<longleftrightarrow> a < b"
  using to_ordinal_less [OF assms] to_ordinal_less [OF assms(2,1)] by (cases a b rule: linorder_cases) auto

end
