(* ===== verification/Responses.thy ===== *)
theory Responses
  imports Imap_Parser Calendar "HOL-Library.Char_ord" "HOL-Library.List_Lexorder" "HOL-Library.Product_Lexorder"
begin

text \<open>
  The response encoders, \<open>imapgw/responses.py\<close>: one function per encoder, from texts and numbers to
  the bytes sent. Replacing a code point outside printable ASCII by a blank in \<open>clean\<close> is, on the
  UTF-8 bytes that represent the text, a replacement byte by byte, because all bytes of a wider code
  point are at least 128. \<open>atom_or_quoted\<close> is exact for ASCII names, the only ones the gateway lists.

  The lemmas show that no text, whoever supplied it, can end a response line early or open a second
  response code, that quoted strings are read back by the parser's own reader, and that the tokenizer
  inverts the printing of a command.
\<close>

subsection \<open>Texts and lines\<close>

definition crlf :: bytes where "crlf = [cr, lf]"

definition clean :: "str \<Rightarrow> str" where
  "clean text = map (\<lambda>ch. if 32 \<le> ordc ch \<and> ordc ch \<noteq> 127 then ch else CHR '' '') text"

definition clean_code :: "str option \<Rightarrow> str option" where
  "clean_code code = (case code of
     None \<Rightarrow> None
   | Some c \<Rightarrow> Some (map (\<lambda>ch. if ch = CHR '']'' then CHR '')'' else ch)
                   (map (\<lambda>ch. if ch = CHR ''['' then CHR ''('' else ch) (clean c))))"

definition tagged :: "str \<Rightarrow> str \<Rightarrow> str \<Rightarrow> str option \<Rightarrow> bytes" where
  "tagged tag status text code =
     (let prefix = clean tag @ '' '' @ status @ '' '';
          prefix' = (case clean_code code of
                       Some (c # cs) \<Rightarrow> prefix @ ''['' @ (c # cs) @ ''] ''
                     | _ \<Rightarrow> prefix)
      in prefix' @ clean text @ crlf)"

definition untagged :: "str \<Rightarrow> bytes" where
  "untagged text = ''* '' @ clean text @ crlf"

definition untagged_ok :: "str \<Rightarrow> str option \<Rightarrow> bytes" where
  "untagged_ok text code = (case clean_code code of
     Some (c # cs) \<Rightarrow> ''* OK ['' @ (c # cs) @ ''] '' @ clean text @ crlf
   | _ \<Rightarrow> ''* OK '' @ clean text @ crlf)"

definition bye :: "str \<Rightarrow> bytes" where "bye text = ''* BYE '' @ clean text @ crlf"

definition continuation :: "str \<Rightarrow> bytes" where "continuation text = ''+ '' @ clean text @ crlf"

subsection \<open>Strings\<close>

definition literal :: "bytes \<Rightarrow> bytes" where
  "literal data = ''{'' @ nat_str (length data) @ ''}'' @ crlf @ data"

definition quoted :: "bytes \<Rightarrow> bytes" where
  "quoted raw =
     (if cr \<in> set raw \<or> lf \<in> set raw \<or> CHR 0x00 \<in> set raw \<or> list_ex (\<lambda>b. 128 \<le> ordc b) raw
      then literal raw
      else (let escaped = replace_all [dquote] [backslash, dquote]
                            (replace_all [backslash] [backslash, backslash] raw)
            in [dquote] @ escaped @ [dquote]))"

definition nstring :: "bytes option \<Rightarrow> bytes" where
  "nstring value = (case value of None \<Rightarrow> ''NIL'' | Some v \<Rightarrow> quoted v)"

definition is_alnum :: "char \<Rightarrow> bool" where
  "is_alnum c \<longleftrightarrow> is_digit c \<or> (65 \<le> ordc c \<and> ordc c \<le> 90) \<or> (97 \<le> ordc c \<and> ordc c \<le> 122)"

definition atom_or_quoted :: "str \<Rightarrow> bytes" where
  "atom_or_quoted value =
     (if value \<noteq> [] \<and> list_all (\<lambda>ch. is_alnum ch \<or> ch \<in> set ''-_.'') value then value else quoted value)"

subsection \<open>Flags, dates, data lines\<close>

definition flag_order :: "str \<Rightarrow> nat" where
  "flag_order flag =
     (if flag = [backslash] @ ''Seen'' then 0 else if flag = [backslash] @ ''Answered'' then 1
      else if flag = [backslash] @ ''Flagged'' then 2 else if flag = [backslash] @ ''Deleted'' then 3
      else if flag = [backslash] @ ''Draft'' then 4 else if flag = [backslash] @ ''Recent'' then 5 else 10)"

definition flag_sort_key :: "str \<Rightarrow> nat \<times> str" where
  "flag_sort_key flag = (flag_order flag, flag)"

definition flag_list :: "str list \<Rightarrow> bytes" where
  "flag_list flags = ''('' @ join_with '' '' (sort_key flag_sort_key flags) @ '')''"

definition pad_nat :: "nat \<Rightarrow> nat \<Rightarrow> str" where
  "pad_nat w n = replicate (w - length (nat_str n)) (CHR ''0'') @ nat_str n"

definition month_names :: "str list" where
  "month_names = [''Jan'', ''Feb'', ''Mar'', ''Apr'', ''May'', ''Jun'', ''Jul'', ''Aug'', ''Sep'', ''Oct'',
     ''Nov'', ''Dec'']"

definition internaldate :: "datetime \<Rightarrow> bytes" where
  "internaldate dt =
     (let total0 = (case dt_utcoffset dt of None \<Rightarrow> 0 | Some s \<Rightarrow> s);
          sign = (if 0 \<le> total0 then ''+'' else ''-'');
          total = nat (abs total0);
          zone = sign @ pad_nat 2 (total div 3600) @ pad_nat 2 (total mod 3600 div 60);
          text = pad_nat 2 (d_day (dt_date dt)) @ ''-'' @ month_names ! (d_month (dt_date dt) - 1) @ ''-''
            @ pad_nat 4 (d_year (dt_date dt)) @ '' '' @ pad_nat 2 (dt_hour dt) @ '':'' @ pad_nat 2 (dt_minute dt)
            @ '':'' @ pad_nat 2 (dt_second dt) @ '' '' @ zone
      in [dquote] @ text @ [dquote])"

definition list_response :: "str list \<Rightarrow> str option \<Rightarrow> str \<Rightarrow> bytes" where
  "list_response attributes delimiter nm =
     ''* LIST '' @ (''('' @ join_with '' '' attributes @ '')'') @ '' ''
       @ (case delimiter of None \<Rightarrow> ''NIL'' | Some d \<Rightarrow> quoted d) @ '' '' @ atom_or_quoted nm @ crlf"

definition fetch_response :: "nat \<Rightarrow> bytes list \<Rightarrow> bytes" where
  "fetch_response seq items = ''* '' @ nat_str seq @ '' FETCH ('' @ join_with '' '' items @ '')'' @ crlf"

definition search_response :: "nat list \<Rightarrow> bytes" where
  "search_response numbers =
     rstrip_by bytes_space (''* SEARCH '' @ join_with '' '' (map nat_str numbers)) @ crlf"

definition exists :: "nat \<Rightarrow> bytes" where "exists cnt = ''* '' @ nat_str cnt @ '' EXISTS'' @ crlf"

definition recent :: "nat \<Rightarrow> bytes" where "recent cnt = ''* '' @ nat_str cnt @ '' RECENT'' @ crlf"

definition expunge :: "nat \<Rightarrow> bytes" where "expunge seq = ''* '' @ nat_str seq @ '' EXPUNGE'' @ crlf"

definition capability_line :: "str list \<Rightarrow> bytes" where
  "capability_line capabilities = ''* CAPABILITY '' @ join_with '' '' capabilities @ crlf"

subsection \<open>One line per response\<close>

text \<open>A text without control characters, and a line: such a text followed by CR LF.\<close>

definition line_text :: "bytes \<Rightarrow> bool" where
  "line_text s \<longleftrightarrow> list_all (\<lambda>c. \<not> is_control c) s"

definition response_line :: "bytes \<Rightarrow> bool" where
  "response_line s \<longleftrightarrow> (\<exists>body. s = body @ crlf \<and> line_text body)"

lemma line_text_simps [simp]:
  "line_text []" "line_text (c # s) \<longleftrightarrow> \<not> is_control c \<and> line_text s"
  "line_text (a @ b) \<longleftrightarrow> line_text a \<and> line_text b"
  by (auto simp: line_text_def)

lemma line_text_clean [simp]: "line_text (clean t)"
  by (auto simp: line_text_def clean_def list_all_iff is_control_def)

lemma line_text_clean_code: "clean_code c = Some s \<Longrightarrow> line_text s \<and> CHR '']'' \<notin> set s \<and> CHR ''['' \<notin> set s"
  using line_text_clean
  by (auto simp: clean_code_def line_text_def list_all_iff is_control_def split: option.splits if_splits)

lemma is_digit_not_control: "is_digit c \<Longrightarrow> \<not> is_control c"
  by (auto simp: is_digit_def is_control_def)

lemma line_text_nat_str [simp]: "line_text (nat_str n)"
  using nat_str_set [of _ n] is_digit_not_control by (auto simp: line_text_def list_all_iff)

lemma response_line_crlf: "response_line crlf"
  by (simp add: response_line_def)

lemma response_line_app: "line_text a \<Longrightarrow> response_line b \<Longrightarrow> response_line (a @ b)"
  unfolding response_line_def by (metis append.assoc line_text_simps(3))

lemma response_line_Cons: "\<not> is_control c \<Longrightarrow> response_line b \<Longrightarrow> response_line (c # b)"
  using response_line_app [of "[c]" b] by simp

lemmas response_line_intros = response_line_crlf response_line_app response_line_Cons

lemma line_text_chars [simp]:
  "\<not> is_control (CHR '' '')" "\<not> is_control (CHR ''*'')" "\<not> is_control (CHR ''['')"
  "\<not> is_control (CHR '']'')" "\<not> is_control (CHR ''+'')" "\<not> is_control (CHR ''('')" "\<not> is_control (CHR '')'')"
  by (simp_all add: is_control_def)

lemma line_text_letter: "is_alnum c \<Longrightarrow> \<not> is_control c"
  by (auto simp: is_alnum_def is_digit_def is_control_def)

lemma response_line_tagged [wire_safe]:
  "line_text status \<Longrightarrow> response_line (tagged tag status text code)"
  using line_text_clean_code [of code]
  by (auto simp: tagged_def Let_def intro!: response_line_intros split: option.splits list.splits)

lemma response_line_untagged [wire_safe]:
  "response_line (untagged text)" "response_line (bye text)" "response_line (continuation text)"
  by (auto simp: untagged_def bye_def continuation_def is_control_def intro!: response_line_intros)

lemma response_line_untagged_ok [wire_safe]: "response_line (untagged_ok text code)"
  using line_text_clean_code [of code]
  by (auto simp: untagged_ok_def is_control_def intro!: response_line_intros split: option.splits list.splits)

lemma response_line_counts [wire_safe]:
  "response_line (exists n)" "response_line (recent n)" "response_line (expunge n)"
  by (auto simp: exists_def recent_def expunge_def is_control_def intro!: response_line_intros)

lemma line_text_join: "line_text sep \<Longrightarrow> \<forall>w \<in> set ws. line_text w \<Longrightarrow> line_text (join_with sep ws)"
  by (induction sep ws rule: join_with.induct) auto

lemma line_text_rstrip: "line_text s \<Longrightarrow> line_text (rstrip_by p s)"
  using rstrip_by_prefix [of s p] by (metis line_text_simps(3))

lemma response_line_search [wire_safe]: "response_line (search_response ns)"
proof -
  have "line_text (''* SEARCH '' @ join_with '' '' (map nat_str ns))"
    by (simp add: line_text_join is_control_def)
  then show ?thesis
    unfolding search_response_def by (intro response_line_intros line_text_rstrip)
qed

subsection \<open>Quoted strings\<close>

lemma replace_all_char:
  "replace_all [a] new s = concat (map (\<lambda>c. if c = a then new else [c]) s)"
  by (induction s) (subst replace_all.simps, simp add: starts_with_def)+

definition escape_char :: "char \<Rightarrow> bytes" where
  "escape_char c = (if c = dquote \<or> c = backslash then [backslash, c] else [c])"

lemma escape_chars:
  "replace_all [dquote] [backslash, dquote] (replace_all [backslash] [backslash, backslash] raw)
     = concat (map escape_char raw)"
proof -
  have "backslash \<noteq> dquote" by (simp add: special_chars)
  then show ?thesis
    by (induction raw) (simp_all add: replace_all_char escape_char_def)
qed

text \<open>A value the parser accepts between quotes: 7-bit and free of control characters.\<close>

definition quotable :: "bytes \<Rightarrow> bool" where
  "quotable v \<longleftrightarrow> list_all (\<lambda>c. \<not> is_control c \<and> ordc c < 128) v"

lemma quoted_quotable: "quotable v \<Longrightarrow> quoted v = [dquote] @ concat (map escape_char v) @ [dquote]"
proof -
  assume q: "quotable v"
  then have "cr \<notin> set v \<and> lf \<notin> set v \<and> CHR 0x00 \<notin> set v \<and> \<not> list_ex (\<lambda>b. 128 \<le> ordc b) v"
    by (auto simp: quotable_def list_all_iff list_ex_iff is_control_def special_chars)
  then show ?thesis by (simp add: quoted_def escape_chars)
qed

lemma read_quoted_escape:
  "quotable v \<Longrightarrow> read_quoted out (concat (map escape_char v) @ [dquote] @ rest) = Inr (out @ v, rest)"
proof (induction v arbitrary: out)
  case Nil
  then show ?case by (simp add: special_chars)
next
  case (Cons c v)
  then have "quotable v" "\<not> is_control c" "ordc c < 128" by (simp_all add: quotable_def)
  then show ?case using Cons.IH [of "out @ [c]"]
    by (cases "c = dquote \<or> c = backslash") (auto simp: escape_char_def special_chars)
qed

lemma read_quoted_quoted:
  "quotable v \<Longrightarrow> read_quoted [] (tl (quoted v) @ rest) = Inr (v, rest)"
  using read_quoted_escape [of v "[]" rest] by (simp add: quoted_quotable)

subsection \<open>The tokenizer inverts printing\<close>

definition atom_ok :: "str \<Rightarrow> bool" where
  "atom_ok v \<longleftrightarrow> v \<noteq> [] \<and> list_all (\<lambda>c. printable_char c \<and> \<not> atom_stop c \<and> c \<noteq> CHR ''['') v"

fun line_token :: "token \<Rightarrow> bool" where
  "line_token (Atom v) = atom_ok v"
| "line_token (QuotedStr v) = quotable v"
| "line_token (LiteralStr v) = False"
| "line_token (ListTok ts) = list_all line_token ts"

fun print_token :: "token \<Rightarrow> bytes" where
  "print_token (Atom v) = v"
| "print_token (QuotedStr v) = quoted v"
| "print_token (LiteralStr v) = literal v"
| "print_token (ListTok ts) = ''('' @ join_with '' '' (map print_token ts) @ '')''"

definition print_tokens :: "token list \<Rightarrow> bytes" where
  "print_tokens ts = join_with '' '' (map print_token ts)"

text \<open>Where an atom may end: at the end of the line, before a blank or a closing parenthesis.\<close>

definition boundary :: "bytes \<Rightarrow> bool" where
  "boundary rest \<longleftrightarrow> rest = [] \<or> hd rest = CHR '' '' \<or> hd rest = CHR '')''"

lemma atom_end_atom:
  "list_all (\<lambda>c. printable_char c \<and> \<not> atom_stop c \<and> c \<noteq> CHR ''['') v \<Longrightarrow> boundary rest \<Longrightarrow>
   atom_end (v @ rest) = Inr rest"
proof (induction v)
  case Nil
  then show ?case by (cases rest) (auto simp: boundary_def atom_stop_def special_chars)
next
  case (Cons c v)
  then have "\<not> is_control c" "ordc c < 128" by (auto simp: printable_char_def is_control_def)
  then show ?case using Cons by simp
qed

lemma read_atom_atom: "atom_ok v \<Longrightarrow> boundary rest \<Longrightarrow> read_atom (v @ rest) = Inr (v, rest)"
  by (simp add: read_atom_def atom_ok_def atom_end_atom)

lemma tokenize_atom:
  assumes "atom_ok v" and "boundary rest"
  shows "tokenize_line (v @ rest) stk = tokenize_line rest (push_token (Atom v) stk)"
proof (cases v)
  case Nil
  then show ?thesis using assms by (simp add: atom_ok_def)
next
  case (Cons c w)
  then have c: "\<not> is_control c" "\<not> atom_stop c" using assms
    by (auto simp: atom_ok_def printable_char_def is_control_def)
  then show ?thesis using read_atom_atom [OF assms] Cons by (simp add: atom_stop_def)
qed

lemma tokenize_quoted:
  assumes "quotable v"
  shows "tokenize_line (quoted v @ rest) stk = tokenize_line rest (push_token (QuotedStr v) stk)"
proof -
  obtain q where q: "quoted v = dquote # q" using assms by (simp add: quoted_quotable)
  then have "read_quoted [] (q @ rest) = Inr (v, rest)" using read_quoted_quoted [OF assms, of rest] by simp
  then show ?thesis by (simp add: q) (simp add: special_chars)
qed

lemma tokenize_space: "tokenize_line (CHR '' '' # rest) stk = tokenize_line rest stk"
  by simp

lemma tokenize_tokens_step:
  assumes one: "\<And>t rest stk. t \<in> set ts \<Longrightarrow> line_token t \<Longrightarrow> boundary rest \<Longrightarrow> stk \<noteq> [] \<Longrightarrow>
      tokenize_line (print_token t @ rest) stk = tokenize_line rest (push_token t stk)"
    and "list_all line_token ts" and "boundary rest"
  shows "tokenize_line (print_tokens ts @ rest) (cur # stk) = tokenize_line rest ((cur @ ts) # stk)"
  using assms
proof (induction ts arbitrary: cur)
  case Nil
  then show ?case by (simp add: print_tokens_def)
next
  case (Cons t ts)
  show ?case
  proof (cases ts)
    case Nil
    then show ?thesis using Cons.prems by (simp add: print_tokens_def push_token_def)
  next
    case (Cons u us)
    then have eq: "print_tokens (t # ts) @ rest = print_token t @ CHR '' '' # (print_tokens ts @ rest)"
      by (simp add: print_tokens_def)
    have "boundary (CHR '' '' # (print_tokens ts @ rest))" by (simp add: boundary_def)
    then have "tokenize_line (print_tokens (t # ts) @ rest) (cur # stk)
        = tokenize_line (print_tokens ts @ rest) ((cur @ [t]) # stk)"
      unfolding eq using Cons.prems by (simp add: push_token_def)
    then show ?thesis using Cons.IH [of "cur @ [t]"] Cons.prems by simp
  qed
qed

lemma tokenize_token:
  "line_token t \<Longrightarrow> boundary rest \<Longrightarrow> stk \<noteq> [] \<Longrightarrow>
   tokenize_line (print_token t @ rest) stk = tokenize_line rest (push_token t stk)"
proof (induction t arbitrary: rest stk)
  case (ListTok ts)
  obtain cur below where stk: "stk = cur # below" using ListTok.prems by (cases stk) auto
  have "tokenize_line (print_tokens ts @ '')'' @ rest) ([] # stk) = tokenize_line ('')'' @ rest) (([] @ ts) # stk)"
    using ListTok by (intro tokenize_tokens_step) (auto simp: boundary_def)
  then show ?case by (simp add: print_tokens_def stk push_token_def)
qed (simp_all add: tokenize_atom tokenize_quoted)

lemma tokenize_tokens:
  "list_all line_token ts \<Longrightarrow> boundary rest \<Longrightarrow>
   tokenize_line (print_tokens ts @ rest) (cur # stk) = tokenize_line rest ((cur @ ts) # stk)"
  by (intro tokenize_tokens_step tokenize_token)

lemma tokenize_print: "list_all line_token ts \<Longrightarrow> tokenize_pieces [LinePiece (print_tokens ts)] = Inr ts"
  using tokenize_tokens [of ts "[]" "[]" "[]"] by (simp add: tokenize_pieces_def boundary_def)


subsection \<open>Properties\<close>

lemma print_tokens_safe_tag: "atom_ok t \<Longrightarrow> line_token (Atom t)"
  by simp

text \<open>C27: The tokenizer inverts printing: a command of a tag, a name and any nested arguments of atoms,
  quoted strings and parenthesised lists, printed with the server's own \<open>quoted\<close>, is parsed back to
  the same tag, the upper-cased name and the same arguments.\<close>

theorem command_print_parse_roundtrip:
  assumes "atom_ok t" and "CHR ''+'' \<notin> set t" and "CHR ''*'' \<notin> set t" and "atom_ok n"
    and "list_all line_token args"
    and "pieces pd = [LinePiece (print_tokens (Atom t # Atom n # args))]"
  shows "build_command pd = Command \<lparr>cmd_tag = t, cmd_name = py_upper n, cmd_args = args\<rparr>"
proof -
  have "tokenize_pieces (pieces pd) = Inr (Atom t # Atom n # args)"
    unfolding assms(6) using assms by (intro tokenize_print) simp
  then show ?thesis using assms by (simp add: build_command_def)
qed

theorem command_print_parse_roundtrip_witness:
  "build_command \<lparr>ptag = None,
      pieces = [LinePiece (print_tokens [Atom ''a1'', Atom ''store'', Atom ''1:*'', ListTok [Atom ''x'', QuotedStr ''b c'']])],
      total_bytes = 0, literal_count = 0\<rparr>
   = Command \<lparr>cmd_tag = ''a1'', cmd_name = py_upper ''store'',
        cmd_args = [Atom ''1:*'', ListTok [Atom ''x'', QuotedStr ''b c'']]\<rparr>"
proof (rule command_print_parse_roundtrip)
  show "atom_ok ''a1''" "atom_ok ''store''" by code_simp+
  show "list_all line_token [Atom ''1:*'', ListTok [Atom ''x'', QuotedStr ''b c'']]" by code_simp
qed simp_all


text \<open>A response code cannot be forged or closed early: in a tagged response with a non-empty code, the
  first \<open>]\<close> after the opening bracket is the one the encoder writes.\<close>

theorem response_code_is_closed_by_encoder:
  assumes "code \<noteq> []"
  shows "\<exists>c. c \<noteq> [] \<and> CHR '']'' \<notin> set c \<and> CHR ''['' \<notin> set c
     \<and> tagged tag status text (Some code)
         = clean tag @ '' '' @ status @ '' ['' @ c @ ''] '' @ clean text @ crlf
     \<and> partition_at (CHR '']'') (c @ ''] '' @ clean text @ crlf) = (c, True, '' '' @ clean text @ crlf)"
proof -
  obtain c where c: "clean_code (Some code) = Some c" by (simp add: clean_code_def)
  then have "CHR '']'' \<notin> set c" "CHR ''['' \<notin> set c" using line_text_clean_code by blast+
  moreover have "c \<noteq> []" using c assms by (auto simp: clean_code_def clean_def)
  ultimately show ?thesis
    using c by (intro exI [of _ c]) (auto simp: tagged_def Let_def partition_at_append split: list.splits)
qed

theorem response_code_is_closed_by_encoder_witness:
  "\<exists>c. tagged ''a'' ''NO'' ''text'' (Some ''x] y'')
         = clean ''a'' @ '' '' @ ''NO'' @ '' ['' @ c @ ''] '' @ clean ''text'' @ crlf
     \<and> CHR '']'' \<notin> set c"
  using response_code_is_closed_by_encoder [of "''x] y''" "''a''" "''NO''" "''text''"] by blast

end
