(* ===== verification/Effects.thy ===== *)
theory Effects
  imports Gateway_Prelude
begin

text \<open>
  What the stateful components share: computations that read and change a state and may raise
  (\<open>io\<close>), loops over lists of such computations, and the JSON values the mail API exchanges with the
  Python operations the gateway applies to them (\<open>get\<close>, truth value, \<open>str\<close>, iteration).

  A coroutine of the gateway is an \<open>io\<close> computation: an \<open>await\<close> is a call that may change the state.
\<close>

subsection \<open>State and exceptions\<close>

type_synonym ('w, 'e, 'a) io = "'w \<Rightarrow> ('e + 'a) \<times> 'w"

definition io_return :: "'a \<Rightarrow> ('w, 'e, 'a) io" where
  "io_return x w = (Inr x, w)"

definition io_raise :: "'e \<Rightarrow> ('w, 'e, 'a) io" where
  "io_raise e w = (Inl e, w)"

definition io_bind :: "('w, 'e, 'a) io \<Rightarrow> ('a \<Rightarrow> ('w, 'e, 'b) io) \<Rightarrow> ('w, 'e, 'b) io" where
  "io_bind m f w = (case m w of (Inl e, w') \<Rightarrow> (Inl e, w') | (Inr x, w') \<Rightarrow> f x w')"

definition io_then :: "('w, 'e, 'a) io \<Rightarrow> ('w, 'e, 'b) io \<Rightarrow> ('w, 'e, 'b) io" where
  "io_then m n = io_bind m (\<lambda>_. n)"

definition io_get :: "('w \<Rightarrow> 'a) \<Rightarrow> ('w, 'e, 'a) io" where
  "io_get f w = (Inr (f w), w)"

definition io_modify :: "('w \<Rightarrow> 'w) \<Rightarrow> ('w, 'e, unit) io" where
  "io_modify f w = (Inr (), f w)"

text \<open>A part of the state change that also returns a value and cannot raise.\<close>

definition io_step :: "('w \<Rightarrow> 'a \<times> 'w) \<Rightarrow> ('w, 'e, 'a) io" where
  "io_step f w = (case f w of (x, w') \<Rightarrow> (Inr x, w'))"

definition io_lift :: "'e + 'a \<Rightarrow> ('w, 'e, 'a) io" where
  "io_lift r w = (r, w)"

definition io_when :: "bool \<Rightarrow> ('w, 'e, unit) io \<Rightarrow> ('w, 'e, unit) io" where
  "io_when b m = (if b then m else io_return ())"

text \<open>\<open>try: m except e: h(e)\<close>, and the result of \<open>m\<close> as a value.\<close>

definition io_catch :: "('w, 'e, 'a) io \<Rightarrow> ('e \<Rightarrow> ('w, 'f, 'a) io) \<Rightarrow> ('w, 'f, 'a) io" where
  "io_catch m h w = (case m w of (Inl e, w') \<Rightarrow> h e w' | (Inr x, w') \<Rightarrow> (Inr x, w'))"

definition io_try :: "('w, 'e, 'a) io \<Rightarrow> ('w, 'f, 'e + 'a) io" where
  "io_try m w = (case m w of (r, w') \<Rightarrow> (Inr r, w'))"

lemma io_simps [simp]:
  "io_return x w = (Inr x, w)" "io_raise e w = (Inl e, w)"
  "io_get f w = (Inr (f w), w)" "io_modify g w = (Inr (), g w)" "io_lift r w = (r, w)"
  "io_when True m = m" "io_when False m = io_return ()"
  by (simp_all add: io_return_def io_raise_def io_get_def io_modify_def io_lift_def io_when_def)

lemma io_bind_step [simp]:
  "m w = (Inl e, w') \<Longrightarrow> io_bind m f w = (Inl e, w')"
  "m w = (Inr x, w') \<Longrightarrow> io_bind m f w = f x w'"
  by (simp_all add: io_bind_def)

lemma io_bind_return [simp]: "io_bind (io_return x) f = f x"
  by (rule ext) (simp add: io_bind_def)

lemma io_bind_raise [simp]: "io_bind (io_raise e) f = io_raise e"
  by (rule ext) (simp add: io_bind_def)

lemma io_bind_assoc: "io_bind (io_bind m f) g = io_bind m (\<lambda>x. io_bind (f x) g)"
  by (rule ext) (simp add: io_bind_def split: prod.splits sum.splits)

lemma io_bind_eq:
  "io_bind m f w = (r, w'') \<longleftrightarrow>
     (\<exists>e. m w = (Inl e, w'') \<and> r = Inl e) \<or> (\<exists>x w'. m w = (Inr x, w') \<and> f x w' = (r, w''))"
  by (auto simp: io_bind_def split: prod.splits sum.splits)

lemma io_then_eq:
  "io_then m n w = (r, w'') \<longleftrightarrow>
     (\<exists>e. m w = (Inl e, w'') \<and> r = Inl e) \<or> (\<exists>x w'. m w = (Inr x, w') \<and> n w' = (r, w''))"
  by (auto simp: io_then_def io_bind_eq)

lemma io_step_eq [simp]: "io_step f w = (Inr (fst (f w)), snd (f w))"
  by (simp add: io_step_def split: prod.splits)

text \<open>A property of the state that a computation keeps, whatever it returns.\<close>

definition io_keeps :: "('w \<Rightarrow> bool) \<Rightarrow> ('w, 'e, 'a) io \<Rightarrow> bool" where
  "io_keeps P m \<longleftrightarrow> (\<forall>w. P w \<longrightarrow> P (snd (m w)))"

lemma io_keeps_bind [intro]: "io_keeps P m \<Longrightarrow> (\<And>x. io_keeps P (f x)) \<Longrightarrow> io_keeps P (io_bind m f)"
proof (unfold io_keeps_def, intro allI impI)
  fix w assume m: "\<forall>w. P w \<longrightarrow> P (snd (m w))" and f: "\<And>x. \<forall>w. P w \<longrightarrow> P (snd (f x w))" and "P w"
  then have "P (snd (m w))" by blast
  then show "P (snd (io_bind m f w))" using f by (auto simp: io_bind_def split: prod.splits sum.splits)
qed

lemma io_keeps_basic [intro, simp]:
  "io_keeps P (io_return x)" "io_keeps P (io_raise e)" "io_keeps P (io_get g)" "io_keeps P (io_lift r)"
  by (simp_all add: io_keeps_def)

lemma io_keeps_modify [intro]: "(\<And>w. P w \<Longrightarrow> P (g w)) \<Longrightarrow> io_keeps P (io_modify g)"
  by (simp add: io_keeps_def)

lemma io_keeps_step [intro]: "(\<And>w. P w \<Longrightarrow> P (snd (h w))) \<Longrightarrow> io_keeps P (io_step h)"
  by (simp add: io_keeps_def)

lemma io_keeps_then [intro]: "io_keeps P m \<Longrightarrow> io_keeps P n \<Longrightarrow> io_keeps P (io_then m n)"
  by (auto simp: io_then_def)

lemma io_keeps_when [intro]: "(b \<Longrightarrow> io_keeps P m) \<Longrightarrow> io_keeps P (io_when b m)"
  by (cases b) auto

lemma io_keeps_catch [intro]:
  "io_keeps P m \<Longrightarrow> (\<And>e. io_keeps P (h e)) \<Longrightarrow> io_keeps P (io_catch m h)"
proof (unfold io_keeps_def, intro allI impI)
  fix w assume m: "\<forall>w. P w \<longrightarrow> P (snd (m w))" and h: "\<And>e. \<forall>w. P w \<longrightarrow> P (snd (h e w))" and "P w"
  then have "P (snd (m w))" by blast
  then show "P (snd (io_catch m h w))" using h by (auto simp: io_catch_def split: prod.splits sum.splits)
qed

lemma io_keeps_try [intro]: "io_keeps P m \<Longrightarrow> io_keeps P (io_try m)"
  by (auto simp: io_keeps_def io_try_def split: prod.splits)

subsection \<open>Loops over a list\<close>

text \<open>\<open>for x in xs: acc = step(x, acc)\<close>; a raise ends the loop.\<close>

fun io_fold :: "('x \<Rightarrow> 'acc \<Rightarrow> ('w, 'e, 'acc) io) \<Rightarrow> 'x list \<Rightarrow> 'acc \<Rightarrow> ('w, 'e, 'acc) io" where
  "io_fold step [] acc = io_return acc"
| "io_fold step (x # xs) acc = io_bind (step x acc) (\<lambda>acc'. io_fold step xs acc')"

lemma io_fold_append: "io_fold step (xs @ ys) acc = io_bind (io_fold step xs acc) (io_fold step ys)"
proof (induction xs arbitrary: acc)
  case (Cons x xs)
  then have "io_fold step (xs @ ys) = (\<lambda>a. io_bind (io_fold step xs a) (io_fold step ys))" by blast
  then show ?case by (simp add: io_bind_assoc)
qed simp

lemma io_keeps_fold:
  "(\<And>x acc. x \<in> set xs \<Longrightarrow> io_keeps P (step x acc)) \<Longrightarrow> io_keeps P (io_fold step xs acc)"
  by (induction xs arbitrary: acc) auto

definition io_map :: "('x \<Rightarrow> ('w, 'e, 'y) io) \<Rightarrow> 'x list \<Rightarrow> ('w, 'e, 'y list) io" where
  "io_map f xs = io_fold (\<lambda>x acc. io_bind (f x) (\<lambda>y. io_return (acc @ [y]))) xs []"

subsection \<open>State invariants with a condition on the result\<close>

text \<open>\<open>io_post P m Q\<close>: from a state with \<open>P\<close> the computation ends in one with \<open>P\<close>, and when it returns
  \<open>x\<close>, also \<open>Q x\<close> holds of the result and the final state.\<close>

definition io_post :: "('w \<Rightarrow> bool) \<Rightarrow> ('w, 'e, 'a) io \<Rightarrow> ('a \<Rightarrow> 'w \<Rightarrow> bool) \<Rightarrow> bool" where
  "io_post P m Q \<longleftrightarrow> (\<forall>w. P w \<longrightarrow> P (snd (m w)) \<and> (\<forall>x. fst (m w) = Inr x \<longrightarrow> Q x (snd (m w))))"

lemma io_postD:
  assumes "io_post P m Q" and "P w" and "m w = (r, w')"
  shows "P w'" and "r = Inr x \<Longrightarrow> Q x w'"
  using assms by (auto simp: io_post_def)

lemma io_post_keeps: "io_keeps P m \<Longrightarrow> io_post P m (\<lambda>_ _. True)"
  by (simp add: io_post_def io_keeps_def)

lemma io_keeps_post: "io_post P m Q \<Longrightarrow> io_keeps P m"
  by (simp add: io_post_def io_keeps_def)

lemma io_post_weaken: "io_post P m Q \<Longrightarrow> (\<And>x w. P w \<Longrightarrow> Q x w \<Longrightarrow> R x w) \<Longrightarrow> io_post P m R"
  by (auto simp: io_post_def)

lemma io_post_return: "(\<And>w. P w \<Longrightarrow> Q x w) \<Longrightarrow> io_post P (io_return x) Q"
  by (simp add: io_post_def)

lemma io_post_raise: "io_post P (io_raise e) Q"
  by (simp add: io_post_def)

text \<open>The result condition of the first computation must not depend on the state, which the second changes.\<close>

lemma io_post_bind:
  assumes m: "io_post P m (\<lambda>x _. R x)" and f: "\<And>x. R x \<Longrightarrow> io_post P (f x) Q"
  shows "io_post P (io_bind m f) Q"
  unfolding io_post_def
proof (intro allI impI)
  fix w assume w: "P w"
  obtain r w' where mw: "m w = (r, w')" by fastforce
  show "P (snd (io_bind m f w)) \<and> (\<forall>x. fst (io_bind m f w) = Inr x \<longrightarrow> Q x (snd (io_bind m f w)))"
  proof (cases r)
    case (Inl e)
    then show ?thesis using mw io_postD(1) [OF m w mw] by simp
  next
    case (Inr x)
    then have "P w'" "R x" using io_postD [OF m w mw] by auto
    then show ?thesis using mw Inr f [of x] by (simp add: io_post_def)
  qed
qed

lemma io_post_then: "io_keeps P m \<Longrightarrow> io_post P n Q \<Longrightarrow> io_post P (io_then m n) Q"
  unfolding io_then_def by (rule io_post_bind [where R = "\<lambda>_. True"]) (simp_all add: io_post_keeps)

lemma io_post_lift: "(\<And>x w. r = Inr x \<Longrightarrow> P w \<Longrightarrow> Q x w) \<Longrightarrow> io_post P (io_lift r) Q"
  by (simp add: io_post_def)

lemma io_post_step:
  "(\<And>w. P w \<Longrightarrow> P (snd (h w))) \<Longrightarrow> (\<And>w. P w \<Longrightarrow> Q (fst (h w)) (snd (h w))) \<Longrightarrow> io_post P (io_step h) Q"
  by (simp add: io_post_def)

lemma io_post_fold:
  assumes "\<And>x acc. x \<in> set xs \<Longrightarrow> I acc \<Longrightarrow> io_post P (step x acc) (\<lambda>acc' _. I acc')"
    and "I acc"
  shows "io_post P (io_fold step xs acc) (\<lambda>acc' _. I acc')"
  using assms
proof (induction xs arbitrary: acc)
  case Nil
  then show ?case by (simp only: io_fold.simps io_post_return)
next
  case (Cons x xs)
  have "io_post P (io_fold step xs a) (\<lambda>acc' _. I acc')" if "I a" for a
    by (rule Cons.IH) (use Cons.prems(1) that in auto)
  then show ?case using Cons.prems by (auto intro!: io_post_bind [where R = I])
qed

text \<open>\<open>io_valid P m Q\<close>: what \<open>m\<close> returns from a state with \<open>P\<close> satisfies \<open>Q\<close> in the final state.\<close>

definition io_valid :: "('w \<Rightarrow> bool) \<Rightarrow> ('w, 'e, 'a) io \<Rightarrow> ('a \<Rightarrow> 'w \<Rightarrow> bool) \<Rightarrow> bool" where
  "io_valid P m Q \<longleftrightarrow> (\<forall>w x w'. P w \<longrightarrow> m w = (Inr x, w') \<longrightarrow> Q x w')"

lemma io_validD: "io_valid P m Q \<Longrightarrow> P w \<Longrightarrow> m w = (Inr x, w') \<Longrightarrow> Q x w'"
  by (simp add: io_valid_def)

lemma io_valid_return: "(\<And>w. P w \<Longrightarrow> Q x w) \<Longrightarrow> io_valid P (io_return x) Q"
  by (simp add: io_valid_def)

lemma io_valid_raise: "io_valid P (io_raise e) Q"
  by (simp add: io_valid_def)

lemma io_valid_lift: "(\<And>x w. r = Inr x \<Longrightarrow> P w \<Longrightarrow> Q x w) \<Longrightarrow> io_valid P (io_lift r) Q"
  by (simp add: io_valid_def)

lemma io_valid_step: "(\<And>w. P w \<Longrightarrow> Q (fst (h w)) (snd (h w))) \<Longrightarrow> io_valid P (io_step h) Q"
  by (simp add: io_valid_def)

lemma io_valid_modify: "(\<And>w. P w \<Longrightarrow> Q () (g w)) \<Longrightarrow> io_valid P (io_modify g) Q"
  by (simp add: io_valid_def)

lemma io_valid_bind: "io_valid P m R \<Longrightarrow> (\<And>x. io_valid (R x) (f x) Q) \<Longrightarrow> io_valid P (io_bind m f) Q"
  unfolding io_valid_def by (auto simp: io_bind_eq)

lemma io_valid_then: "io_valid P m (\<lambda>_. R) \<Longrightarrow> io_valid R n Q \<Longrightarrow> io_valid P (io_then m n) Q"
  unfolding io_then_def by (erule io_valid_bind)

lemma io_valid_keeps: "io_keeps P m \<Longrightarrow> io_valid P m (\<lambda>_. P)"
  unfolding io_valid_def io_keeps_def by (metis snd_conv)

lemma io_valid_weaken:
  "io_valid P m Q \<Longrightarrow> (\<And>w. P' w \<Longrightarrow> P w) \<Longrightarrow> (\<And>x w. Q x w \<Longrightarrow> Q' x w) \<Longrightarrow> io_valid P' m Q'"
  unfolding io_valid_def by blast

lemma io_valid_fold:
  assumes "\<And>x acc. x \<in> set xs \<Longrightarrow> io_valid (I acc) (step x acc) I"
  shows "io_valid (I acc) (io_fold step xs acc) I"
  using assms
proof (induction xs arbitrary: acc)
  case Nil
  show ?case by (simp add: io_valid_def)
next
  case (Cons x xs)
  have "io_valid (I acc) (step x acc) I" by (rule Cons.prems) simp
  moreover have "io_valid (I a) (io_fold step xs a) I" for a by (rule Cons.IH) (use Cons.prems in simp)
  ultimately show ?case by (simp add: io_valid_bind)
qed

subsection \<open>JSON values\<close>

text \<open>
  A decoded JSON value. A float carries the text Python prints for it. An object is the list of its
  keys and values in order; a later binding of a key has replaced an earlier one.
\<close>

datatype json =
    JNull
  | JBool bool
  | JInt int
  | JFloat str
  | JStr str
  | JList "json list"
  | JObj "(str \<times> json) list"

text \<open>\<open>d.get(key)\<close>: a missing key reads as \<open>None\<close>.\<close>

definition jget :: "(str \<times> json) list \<Rightarrow> str \<Rightarrow> json" where
  "jget d k = (case map_of d k of None \<Rightarrow> JNull | Some v \<Rightarrow> v)"

fun truthy :: "json \<Rightarrow> bool" where
  "truthy JNull = False"
| "truthy (JBool b) = b"
| "truthy (JInt i) = (i \<noteq> 0)"
| "truthy (JFloat t) = (t \<noteq> ''0.0'' \<and> t \<noteq> ''-0.0'')"
| "truthy (JStr s) = (s \<noteq> [])"
| "truthy (JList xs) = (xs \<noteq> [])"
| "truthy (JObj d) = (d \<noteq> [])"

definition jor :: "json \<Rightarrow> json \<Rightarrow> json" where
  "jor a b = (if truthy a then a else b)"

text \<open>\<open>str(value)\<close>; the text of a container is \<open>repr\<close>'s.\<close>

fun py_str :: "(json \<Rightarrow> str) \<Rightarrow> json \<Rightarrow> str" where
  "py_str repr JNull = ''None''"
| "py_str repr (JBool b) = (if b then ''True'' else ''False'')"
| "py_str repr (JInt i) = int_str i"
| "py_str repr (JFloat t) = t"
| "py_str repr (JStr s) = s"
| "py_str repr (JList xs) = repr (JList xs)"
| "py_str repr (JObj d) = repr (JObj d)"

text \<open>Iterating a value: a list's elements, a string's characters, an object's keys; iterating any other
  value raises \<open>TypeError\<close> (\<open>None\<close>).\<close>

fun jiter :: "json \<Rightarrow> json list option" where
  "jiter (JList xs) = Some xs"
| "jiter (JStr s) = Some (map (\<lambda>c. JStr [c]) s)"
| "jiter (JObj d) = Some (map (JStr \<circ> fst) d)"
| "jiter _ = None"

text \<open>\<open>[str(x) for x in (d.get(key) or [])]\<close>.\<close>

definition jstrs :: "(json \<Rightarrow> str) \<Rightarrow> (str \<times> json) list \<Rightarrow> str \<Rightarrow> str list option" where
  "jstrs repr d k = map_option (map (py_str repr)) (jiter (jor (jget d k) (JList [])))"

text \<open>\<open>str(d.get(key) or "")\<close>.\<close>

definition jtext :: "(json \<Rightarrow> str) \<Rightarrow> (str \<times> json) list \<Rightarrow> str \<Rightarrow> str" where
  "jtext repr d k = py_str repr (jor (jget d k) (JStr []))"

lemma jtext_simps [simp]:
  "map_of d k = None \<Longrightarrow> jtext repr d k = []"
  "map_of d k = Some (JStr s) \<Longrightarrow> jtext repr d k = s"
  by (auto simp: jtext_def jget_def jor_def)

lemma jstrs_simps [simp]:
  "map_of d k = None \<Longrightarrow> jstrs repr d k = Some []"
  "map_of d k = Some (JList xs) \<Longrightarrow> jstrs repr d k = Some (map (py_str repr) xs)"
  by (auto simp: jstrs_def jget_def jor_def)

end
