(* ===== verification/Api_Client.thy ===== *)
theory Api_Client
  imports Effects Complex_Main
begin

text \<open>
  The client of the mail API, \<open>imapgw/apiclient.py\<close>. The transport, the clock, sleeping and the random
  number generator are the fields of \<open>http_env\<close>, over an arbitrary world (\<open>Transport\<close> gives the code's own transport); \<open>json.loads\<close>, \<open>json.dumps\<close>
  and \<open>repr\<close> of a container are fields of \<open>client\<close>. Times are rational seconds. A generator of the code,
  consumed by an \<open>async for\<close>, is a fold with the loop body as its argument, so fetching the next page and
  running the body interleave as they do there.

  The lemmas show which requests the retry loop sends, when it sleeps and what it returns, that the
  API key never reaches a download, and that pagination is complete and terminates.
\<close>

subsection \<open>Numbers in texts\<close>

datatype py_float = FNum rat | FInf bool | FNaN

text \<open>The value of \<open>digits[.digits][e[sign]digits]\<close>; one of the two digit groups may be empty.\<close>

definition decimal_value :: "str \<Rightarrow> rat option" where
  "decimal_value s =
     (case partition_at (CHR ''e'') (py_lower s) of (mantissa, has_exp, ex) \<Rightarrow>
      case partition_at (CHR ''.'') mantissa of (a, _, b) \<Rightarrow>
      case split_sign ex of (neg, exd) \<Rightarrow>
        (case (if a = [] then Some [] else plain_digits False a,
               if b = [] then Some [] else plain_digits False b,
               if has_exp then plain_digits False exd else Some [])
         of (Some da, Some db, Some de) \<Rightarrow>
              if da = [] \<and> db = [] then None
              else (let m = of_nat (digits_val (da @ db)) / 10 ^ length db; x = 10 ^ digits_val de
                    in Some (if neg then m / x else m * x))
          | _ \<Rightarrow> None))"

definition py_float :: "str \<Rightarrow> py_float option" where
  "py_float s = (case split_sign (py_strip s) of (neg, body) \<Rightarrow>
     (if py_lower body = ''inf'' \<or> py_lower body = ''infinity'' then Some (FInf neg)
      else if py_lower body = ''nan'' then Some FNaN
      else map_option (\<lambda>q. FNum (if neg then - q else q)) (decimal_value body)))"

subsection \<open>Requests, responses, errors\<close>

record http_request =
  hr_method :: str
  hr_url :: str
  hr_headers :: "(str \<times> str) list"
  hr_body :: "bytes option"

record http_response =
  rs_status :: nat
  rs_headers :: "(str \<times> str) list"
  rs_body :: bytes

text \<open>What \<open>Transport.request\<close> raises: \<open>TransportError\<close>, or another exception, which the client does not catch.\<close>

datatype transport_failure = TransportError str | TransportRaised str

datatype error_kind = AuthError | NotFoundError | BadRequestError | UnavailableError

text \<open>\<open>PyException\<close> is any exception outside the hierarchy of \<open>AgentMailError\<close>; \<open>OutOfFuel\<close> marks a loop
  that has not ended within its fuel and has no counterpart in the code.\<close>

datatype api_error =
    AgentMailError (ae_kind: error_kind) (ae_text: str) (ae_status: "nat option") (ae_retryable: bool)
  | PyException str
  | OutOfFuel

fun retryable :: "api_error \<Rightarrow> bool" where
  "retryable (AgentMailError _ _ _ r) = r"
| "retryable _ = False"

definition unavailable :: "str \<Rightarrow> bool \<Rightarrow> api_error" where
  "unavailable text r = AgentMailError UnavailableError text None r"

definition classify :: "http_response \<Rightarrow> api_error" where
  "classify resp = (let status = rs_status resp in
     if 300 \<le> status \<and> status < 400
       then AgentMailError UnavailableError (''unexpected redirect ('' @ nat_str status @ '')'') (Some status) False
     else if status = 401 \<or> status = 403
       then AgentMailError AuthError (''upstream rejected credentials ('' @ nat_str status @ '')'') (Some status) False
     else if status = 404
       then AgentMailError NotFoundError ''upstream resource not found'' (Some status) False
     else if status = 429 \<or> 500 \<le> status
       then AgentMailError UnavailableError (''upstream unavailable ('' @ nat_str status @ '')'') (Some status) True
     else AgentMailError BadRequestError (''upstream rejected request ('' @ nat_str status @ '')'') (Some status) False)"

text \<open>\<open>max(0.0, float(raw))\<close>: negative numbers and NaN become 0.\<close>

definition retry_after :: "(str \<times> str) list \<Rightarrow> py_float option" where
  "retry_after headers = (case map_of headers ''retry-after'' of
     None \<Rightarrow> None
   | Some raw \<Rightarrow>
       (case py_float raw of
          None \<Rightarrow> None
        | Some (FNum q) \<Rightarrow> Some (FNum (max 0 q))
        | Some (FInf neg) \<Rightarrow> Some (if neg then FNum 0 else FInf False)
        | Some FNaN \<Rightarrow> Some (FNum 0)))"

subsection \<open>The client\<close>

record 'w http_env =
  he_request :: "http_request \<Rightarrow> 'w \<Rightarrow> (transport_failure + http_response) \<times> 'w"
  he_time :: "'w \<Rightarrow> rat"
  he_sleep :: "rat \<Rightarrow> 'w \<Rightarrow> 'w"
  he_rng :: "'w \<Rightarrow> rat \<times> 'w"

record client =
  cl_base :: str
  cl_api_key :: str
  cl_max_attempts :: nat
  cl_retry_budget :: rat
  cl_backoff_base :: rat
  cl_loads :: "bytes \<Rightarrow> json option"
  cl_dumps :: "json \<Rightarrow> bytes"
  cl_repr :: "json \<Rightarrow> str"

definition api_key_ok :: "str \<Rightarrow> bool" where
  "api_key_ok key \<longleftrightarrow> key \<noteq> [] \<and> \<not> list_ex (\<lambda>ch. ordc ch < 33 \<or> 126 < ordc ch) key"

definition new_client :: "str \<Rightarrow> str \<Rightarrow> nat \<Rightarrow> rat \<Rightarrow> rat \<Rightarrow> (bytes \<Rightarrow> json option) \<Rightarrow> (json \<Rightarrow> bytes) \<Rightarrow>
    (json \<Rightarrow> str) \<Rightarrow> api_error + client" where
  "new_client base_url key attempts budget backoff loads dumps rep =
     (if \<not> api_key_ok key then Inl (PyException ''API key must be non-empty printable ASCII'')
      else Inr \<lparr>cl_base = rstrip_by (\<lambda>c. c = CHR ''/'') base_url, cl_api_key = key,
                cl_max_attempts = max 1 attempts, cl_retry_budget = budget, cl_backoff_base = backoff,
                cl_loads = loads, cl_dumps = dumps, cl_repr = rep\<rparr>)"

definition backoff_delay :: "client \<Rightarrow> 'w http_env \<Rightarrow> nat \<Rightarrow> 'w \<Rightarrow> rat \<times> 'w" where
  "backoff_delay c env attempt w = (case he_rng env w of (r, w') \<Rightarrow>
     (cl_backoff_base c * 2 ^ (attempt - 1) * (1 + r / 4), w'))"

text \<open>What one attempt gives: the response, or the error and the delay the server asked for.\<close>

definition attempt_outcome :: "transport_failure + http_response \<Rightarrow> (api_error \<times> py_float option) + http_response" where
  "attempt_outcome r = (case r of
     Inl (TransportError msg) \<Rightarrow> Inl (unavailable (''upstream unreachable: '' @ msg) True, None)
   | Inl (TransportRaised msg) \<Rightarrow> Inl (PyException msg, None)
   | Inr resp \<Rightarrow>
       if 200 \<le> rs_status resp \<and> rs_status resp < 300 then Inr resp
       else Inl (classify resp, retry_after (rs_headers resp)))"

definition retry_delay :: "client \<Rightarrow> 'w http_env \<Rightarrow> py_float option \<Rightarrow> nat \<Rightarrow> 'w \<Rightarrow> rat option \<times> 'w" where
  "retry_delay c env asked attempt w = (case asked of
     None \<Rightarrow> (case backoff_delay c env attempt w of (d, w') \<Rightarrow> (Some d, w'))
   | Some (FNum q) \<Rightarrow> (Some q, w)
   | Some _ \<Rightarrow> (None, w))"

function retry_loop :: "client \<Rightarrow> 'w http_env \<Rightarrow> rat \<Rightarrow> http_request \<Rightarrow> nat \<Rightarrow>
    ('w, api_error, http_response) io" where
  "retry_loop c env deadline req n w =
     (case he_request env req w of (r, w1) \<Rightarrow>
       (case attempt_outcome r of
          Inr resp \<Rightarrow> (Inr resp, w1)
        | Inl (err, asked) \<Rightarrow>
            if \<not> retryable err then (Inl err, w1)
            else if cl_max_attempts c \<le> n + 1 then (Inl err, w1)
            else (case retry_delay c env asked (n + 1) w1 of
                (None, w2) \<Rightarrow> (Inl err, w2)
              | (Some delay, w2) \<Rightarrow>
                  if deadline < he_time env w2 + delay then (Inl err, w2)
                  else retry_loop c env deadline req (n + 1) (he_sleep env delay w2))))"
  by pat_completeness auto
termination
  by (relation "measure (\<lambda>(c, env, deadline, req, n, w). cl_max_attempts c - n)") auto

declare retry_loop.simps [simp del]

definition with_retries :: "client \<Rightarrow> 'w http_env \<Rightarrow> http_request \<Rightarrow> ('w, api_error, http_response) io" where
  "with_retries c env req w = retry_loop c env (he_time env w + cl_retry_budget c) req 0 w"

subsection \<open>Requests to the API\<close>

definition hex_digit :: "nat \<Rightarrow> char" where
  "hex_digit n = (if n < 10 then char_of (48 + n) else char_of (55 + n))"

definition unreserved :: "char \<Rightarrow> bool" where
  "unreserved ch \<longleftrightarrow> is_digit ch \<or> (65 \<le> ordc ch \<and> ordc ch \<le> 90) \<or> (97 \<le> ordc ch \<and> ordc ch \<le> 122)
     \<or> ch \<in> set ''_.-~''"

definition percent :: "char \<Rightarrow> str" where
  "percent ch = ''%'' @ [hex_digit (ordc ch div 16), hex_digit (ordc ch mod 16)]"

definition seg :: "str \<Rightarrow> str" where
  "seg value = concat (map (\<lambda>ch. if unreserved ch then [ch] else percent ch) value)"

definition quote_plus :: "str \<Rightarrow> str" where
  "quote_plus value = concat (map (\<lambda>ch. if unreserved ch then [ch] else if ch = CHR '' '' then ''+''
     else percent ch) value)"

text \<open>\<open>urlencode(params, doseq=True)\<close>; a parameter carries the list of its values.\<close>

definition urlencode :: "(str \<times> str list) list \<Rightarrow> str" where
  "urlencode params = join_with ''&''
     (concat (map (\<lambda>(k, vs). map (\<lambda>v. quote_plus k @ ''='' @ quote_plus v) vs) params))"

definition api_url :: "client \<Rightarrow> str \<Rightarrow> (str \<times> str list) list \<Rightarrow> str" where
  "api_url c path params = (cl_base c @ path) @ (if params = [] then [] else ''?'' @ urlencode params)"

definition api_request :: "client \<Rightarrow> 'w http_env \<Rightarrow> str \<Rightarrow> str \<Rightarrow> (str \<times> str list) list \<Rightarrow> json option \<Rightarrow>
    ('w, api_error, http_response) io" where
  "api_request c env method path params json_body =
     (let headers = [(''authorization'', ''Bearer '' @ cl_api_key c), (''accept'', ''application/json'')];
          headers' = (case json_body of None \<Rightarrow> headers
                      | Some _ \<Rightarrow> headers @ [(''content-type'', ''application/json'')])
      in with_retries c env \<lparr>hr_method = method, hr_url = api_url c path params, hr_headers = headers',
           hr_body = map_option (cl_dumps c) json_body\<rparr>)"

definition api_json :: "client \<Rightarrow> 'w http_env \<Rightarrow> str \<Rightarrow> str \<Rightarrow> (str \<times> str list) list \<Rightarrow> json option \<Rightarrow>
    ('w, api_error, (str \<times> json) list) io" where
  "api_json c env method path params json_body =
     io_bind (api_request c env method path params json_body) (\<lambda>resp.
       if rs_body resp = [] then io_return []
       else (case cl_loads c (rs_body resp) of
           None \<Rightarrow> io_raise (unavailable (''malformed JSON from API ('' @ method @ '' '' @ path @ '')'') False)
         | Some (JObj d) \<Rightarrow> io_return d
         | Some _ \<Rightarrow> io_raise (unavailable (''unexpected JSON shape from API ('' @ method @ '' '' @ path @ '')'') False)))"

text \<open>The generator \<open>_paginate\<close> driven by a loop with the given body.\<close>

definition page_items :: "str \<Rightarrow> (str \<times> json) list \<Rightarrow> api_error + json list" where
  "page_items items_key page = (case map_of page items_key of
     None \<Rightarrow> Inl (unavailable (''malformed page: missing '' @ items_key) False)
   | Some (JList items) \<Rightarrow> Inr items
   | Some _ \<Rightarrow> Inl (unavailable (''malformed page: '' @ items_key @ '' is not a list'') False))"

definition yield_item :: "str \<Rightarrow> ((str \<times> json) list \<Rightarrow> 'acc \<Rightarrow> ('w, api_error, 'acc) io) \<Rightarrow> json \<Rightarrow> 'acc \<Rightarrow>
    ('w, api_error, 'acc) io" where
  "yield_item items_key body item acc = (case item of
     JObj d \<Rightarrow> body d acc
   | _ \<Rightarrow> io_raise (unavailable (''malformed page: '' @ items_key @ '' entry is not an object'') False))"

fun paginate :: "nat \<Rightarrow> client \<Rightarrow> 'w http_env \<Rightarrow> str \<Rightarrow> (str \<times> str list) list \<Rightarrow> str \<Rightarrow>
    ((str \<times> json) list \<Rightarrow> 'acc \<Rightarrow> ('w, api_error, 'acc) io) \<Rightarrow> str option \<Rightarrow> str list \<Rightarrow> 'acc \<Rightarrow>
    ('w, api_error, 'acc) io" where
  "paginate 0 c env path params items_key body token seen acc = io_raise OutOfFuel"
| "paginate (Suc fuel) c env path params items_key body token seen acc =
     (let q = params @ [(''limit'', [''100''])] @ (case token of None \<Rightarrow> [] | Some t \<Rightarrow> [(''page_token'', [t])])
      in io_bind (api_json c env ''GET'' path q None) (\<lambda>page.
         io_bind (io_lift (page_items items_key page)) (\<lambda>items.
         io_bind (io_fold (yield_item items_key body) items acc) (\<lambda>acc'.
           let nxt = jget page ''next_page_token'' in
           if \<not> truthy nxt then io_return acc'
           else (let t = py_str (cl_repr c) nxt in
             if t \<in> set seen then io_raise (unavailable ''pagination loop detected'' False)
             else paginate fuel c env path params items_key body (Some t) (seen @ [t]) acc')))))"

subsection \<open>The operations of the client\<close>

definition auth_me :: "client \<Rightarrow> 'w http_env \<Rightarrow> ('w, api_error, (str \<times> json) list) io" where
  "auth_me c env = api_json c env ''GET'' ''/auth/me'' [] None"

definition inbox_path :: "str \<Rightarrow> str" where "inbox_path inbox = ''/inboxes/'' @ seg inbox"

definition get_inbox :: "client \<Rightarrow> 'w http_env \<Rightarrow> str \<Rightarrow> ('w, api_error, (str \<times> json) list) io" where
  "get_inbox c env inbox = api_json c env ''GET'' (inbox_path inbox) [] None"

definition list_messages :: "nat \<Rightarrow> client \<Rightarrow> 'w http_env \<Rightarrow> str \<Rightarrow> str list \<Rightarrow> bool \<Rightarrow> bool \<Rightarrow> bool \<Rightarrow>
    ((str \<times> json) list \<Rightarrow> 'acc \<Rightarrow> ('w, api_error, 'acc) io) \<Rightarrow> 'acc \<Rightarrow> ('w, api_error, 'acc) io" where
  "list_messages fuel c env inbox labels include_trash include_spam ascending body acc =
     paginate fuel c env (inbox_path inbox @ ''/messages'')
       ([(''ascending'', [if ascending then ''true'' else ''false''])]
        @ (if labels = [] then [] else [(''labels'', labels)])
        @ (if include_trash then [(''include_trash'', [''true''])] else [])
        @ (if include_spam then [(''include_spam'', [''true''])] else []))
       ''messages'' body None [] acc"

definition message_path :: "str \<Rightarrow> str \<Rightarrow> str" where
  "message_path inbox mid = inbox_path inbox @ ''/messages/'' @ seg mid"

definition get_message :: "client \<Rightarrow> 'w http_env \<Rightarrow> str \<Rightarrow> str \<Rightarrow> ('w, api_error, (str \<times> json) list) io" where
  "get_message c env inbox mid = api_json c env ''GET'' (message_path inbox mid) [] None"

record raw_meta =
  rm_message_id :: str
  rm_size :: int
  rm_download_url :: str
  rm_expires_at :: str

text \<open>\<open>int(value)\<close>: \<open>None\<close> for the exceptions \<open>get_raw_meta\<close> converts; an infinite float raises another
  one, \<open>OverflowError\<close>.\<close>

definition py_int_json :: "json \<Rightarrow> api_error + int" where
  "py_int_json v = (let bad = Inl (unavailable ''malformed raw metadata'' False) in
     (case v of
        JInt i \<Rightarrow> Inr i
      | JBool b \<Rightarrow> Inr (if b then 1 else 0)
      | JFloat t \<Rightarrow>
          (case py_float t of
             Some (FNum q) \<Rightarrow> Inr (if 0 \<le> q then \<lfloor>q\<rfloor> else \<lceil>q\<rceil>)
           | Some (FInf _) \<Rightarrow> Inl (PyException ''OverflowError'')
           | _ \<Rightarrow> bad)
      | JStr s \<Rightarrow> (case py_int_text s of None \<Rightarrow> bad | Some i \<Rightarrow> Inr i)
      | _ \<Rightarrow> bad))"

definition raw_meta_of :: "(json \<Rightarrow> str) \<Rightarrow> (str \<times> json) list \<Rightarrow> api_error + raw_meta" where
  "raw_meta_of rep d = (let bad = Inl (unavailable ''malformed raw metadata'' False) in
     (case map_of d ''message_id'' of
        None \<Rightarrow> bad
      | Some mid \<Rightarrow>
          (case map_of d ''size'' of
             None \<Rightarrow> bad
           | Some sz \<Rightarrow> ebind (py_int_json sz) (\<lambda>n.
               (case map_of d ''download_url'' of
                  None \<Rightarrow> bad
                | Some url \<Rightarrow> Inr \<lparr>rm_message_id = py_str rep mid, rm_size = n, rm_download_url = py_str rep url,
                    rm_expires_at = (case map_of d ''expires_at'' of None \<Rightarrow> [] | Some e \<Rightarrow> py_str rep e)\<rparr>)))))"

definition get_raw_meta :: "client \<Rightarrow> 'w http_env \<Rightarrow> str \<Rightarrow> str \<Rightarrow> ('w, api_error, raw_meta) io" where
  "get_raw_meta c env inbox mid =
     io_bind (api_json c env ''GET'' (message_path inbox mid @ ''/raw'') [] None)
       (\<lambda>d. io_lift (raw_meta_of (cl_repr c) d))"

definition download :: "client \<Rightarrow> 'w http_env \<Rightarrow> str \<Rightarrow> ('w, api_error, bytes) io" where
  "download c env url =
     io_bind (with_retries c env \<lparr>hr_method = ''GET'', hr_url = url, hr_headers = [], hr_body = None\<rparr>) (\<lambda>resp.
       if rs_status resp \<noteq> 200
       then io_raise (AgentMailError UnavailableError
              (''unexpected download status '' @ nat_str (rs_status resp)) (Some (rs_status resp)) False)
       else io_return (rs_body resp))"

definition update_labels :: "client \<Rightarrow> 'w http_env \<Rightarrow> str \<Rightarrow> str \<Rightarrow> str list \<Rightarrow> str list \<Rightarrow>
    ('w, api_error, (str \<times> json) list) io" where
  "update_labels c env inbox mid add remove =
     api_json c env ''PATCH'' (message_path inbox mid) []
       (Some (JObj ((if add = [] then [] else [(''add_labels'', JList (map JStr add))])
                  @ (if remove = [] then [] else [(''remove_labels'', JList (map JStr remove))]))))"

definition list_drafts :: "nat \<Rightarrow> client \<Rightarrow> 'w http_env \<Rightarrow> str \<Rightarrow>
    ((str \<times> json) list \<Rightarrow> 'acc \<Rightarrow> ('w, api_error, 'acc) io) \<Rightarrow> 'acc \<Rightarrow> ('w, api_error, 'acc) io" where
  "list_drafts fuel c env inbox body acc =
     paginate fuel c env (inbox_path inbox @ ''/drafts'') [] ''drafts'' body None [] acc"

definition draft_path :: "str \<Rightarrow> str \<Rightarrow> str" where
  "draft_path inbox did = inbox_path inbox @ ''/drafts/'' @ seg did"

definition get_draft :: "client \<Rightarrow> 'w http_env \<Rightarrow> str \<Rightarrow> str \<Rightarrow> ('w, api_error, (str \<times> json) list) io" where
  "get_draft c env inbox did = api_json c env ''GET'' (draft_path inbox did) [] None"

definition create_draft :: "client \<Rightarrow> 'w http_env \<Rightarrow> str \<Rightarrow> (str \<times> json) list \<Rightarrow>
    ('w, api_error, (str \<times> json) list) io" where
  "create_draft c env inbox body = api_json c env ''POST'' (inbox_path inbox @ ''/drafts'') [] (Some (JObj body))"

definition delete_draft :: "client \<Rightarrow> 'w http_env \<Rightarrow> str \<Rightarrow> str \<Rightarrow> ('w, api_error, unit) io" where
  "delete_draft c env inbox did =
     io_then (api_request c env ''DELETE'' (draft_path inbox did) [] None) (io_return ())"

subsection \<open>The retry loop\<close>

text \<open>An environment that also records what the client does with it.\<close>

datatype http_log = Sent http_request "transport_failure + http_response" | Slept rat rat

definition recording :: "'w http_env \<Rightarrow> ('w \<times> http_log list) http_env" where
  "recording env = \<lparr>
     he_request = (\<lambda>req (w, l). case he_request env req w of (r, w') \<Rightarrow> (r, (w', l @ [Sent req r]))),
     he_time = (\<lambda>(w, l). he_time env w),
     he_sleep = (\<lambda>d (w, l). (he_sleep env d w, l @ [Slept (he_time env w) d])),
     he_rng = (\<lambda>(w, l). case he_rng env w of (q, w') \<Rightarrow> (q, (w', l)))\<rparr>"

text \<open>A log the retry discipline allows for a request, after \<open>n\<close> attempts: every attempt but the last
  failed with a retryable error and was followed by a sleep that ends before the deadline, there are at
  most \<open>max_attempts\<close> of them, and the last one gives the result.\<close>

fun retry_log :: "client \<Rightarrow> rat \<Rightarrow> http_request \<Rightarrow> nat \<Rightarrow> http_log list \<Rightarrow> api_error + http_response \<Rightarrow> bool" where
  "retry_log c dl req n [Sent q r] res =
     (q = req \<and> res = (case attempt_outcome r of Inl (e, a) \<Rightarrow> Inl e | Inr resp \<Rightarrow> Inr resp))"
| "retry_log c dl req n (Sent q r # Slept t d # lg) res =
     (q = req \<and> n + 1 < cl_max_attempts c \<and> t + d \<le> dl
      \<and> (case attempt_outcome r of Inl (e, a) \<Rightarrow> retryable e | Inr _ \<Rightarrow> False)
      \<and> retry_log c dl req (n + 1) lg res)"
| "retry_log c dl req n _ res = False"

lemma attempt_outcome_2xx: "attempt_outcome r = Inr resp \<Longrightarrow> 200 \<le> rs_status resp \<and> rs_status resp < 300"
  by (auto simp: attempt_outcome_def split: sum.splits transport_failure.splits if_splits)

lemma retry_delay_recording:
  "retry_delay c (recording env) asked n (w, l) =
     (fst (retry_delay c env asked n w), (snd (retry_delay c env asked n w), l))"
  by (auto simp: retry_delay_def backoff_delay_def recording_def split: option.splits py_float.splits prod.splits)

lemma retry_loop_recording:
  "\<exists>lg. retry_loop c (recording env) dl req n (w, l) =
       (fst (retry_loop c env dl req n w), (snd (retry_loop c env dl req n w), l @ lg))
     \<and> retry_log c dl req n lg (fst (retry_loop c env dl req n w))"
proof (induction c env dl req n w arbitrary: l rule: retry_loop.induct)
  case (1 c env dl req n w)
  obtain r w1 where r: "he_request env req w = (r, w1)" by fastforce
  have rec: "he_request (recording env) req (w, l) = (r, (w1, l @ [Sent req r]))"
    by (simp add: recording_def r)
  show ?case
  proof (cases "attempt_outcome r")
    case (Inr resp)
    then show ?thesis
      by (intro exI [of _ "[Sent req r]"])
         (simp add: retry_loop.simps [of _ _ _ _ n] rec r)
  next
    case (Inl ea)
    obtain err asked where ea: "ea = (err, asked)" by fastforce
    show ?thesis
    proof (cases "\<not> retryable err \<or> cl_max_attempts c \<le> n + 1")
      case True
      then show ?thesis using Inl ea
        by (intro exI [of _ "[Sent req r]"])
           (auto simp: retry_loop.simps [of _ _ _ _ n] rec r)
    next
      case False
      obtain d w2 where d: "retry_delay c env asked (n + 1) w1 = (d, w2)" by fastforce
      have drec: "retry_delay c (recording env) asked (n + 1) (w1, l @ [Sent req r]) = (d, (w2, l @ [Sent req r]))"
        by (simp only: retry_delay_recording d fst_conv snd_conv)
      show ?thesis
      proof (cases "\<exists>q. d = Some q \<and> he_time env w2 + q \<le> dl")
        case no: False
        have "retry_loop c (recording env) dl req n (w, l) = (Inl err, (w2, l @ [Sent req r]))"
          and "retry_loop c env dl req n w = (Inl err, w2)"
          using False Inl ea no d drec
          by (subst retry_loop.simps; auto simp: rec r recording_def split: option.splits)+
        then show ?thesis using Inl ea by (intro exI [of _ "[Sent req r]"]) simp
      next
        case True
        then obtain q where q: "d = Some q" "he_time env w2 + q \<le> dl" by blast
        let ?l = "(l @ [Sent req r]) @ [Slept (he_time env w2) q]"
        have a: "retry_loop c (recording env) dl req n (w, l)
            = retry_loop c (recording env) dl req (n + 1) (he_sleep env q w2, ?l)"
          using False Inl ea q d drec
          by (subst retry_loop.simps) (simp add: rec, simp add: recording_def)
        have b: "retry_loop c env dl req n w = retry_loop c env dl req (n + 1) (he_sleep env q w2)"
          using False Inl ea q d by (subst retry_loop.simps) (simp add: r)
        have "\<not> \<not> retryable err" "\<not> cl_max_attempts c \<le> n + 1" "\<not> dl < he_time env w2 + q"
          using False q by auto
        from "1.IH" [OF r [symmetric] Inl ea [symmetric] this(1,2) d [symmetric] q(1) this(3), of ?l]
        obtain lg where
          lg: "retry_loop c (recording env) dl req (n + 1) (he_sleep env q w2, ?l) =
             (fst (retry_loop c env dl req (n + 1) (he_sleep env q w2)),
              (snd (retry_loop c env dl req (n + 1) (he_sleep env q w2)), ?l @ lg))"
          "retry_log c dl req (n + 1) lg (fst (retry_loop c env dl req (n + 1) (he_sleep env q w2)))"
          by blast
        show ?thesis unfolding a b using lg q Inl ea False
          by (intro exI [of _ "Sent req r # Slept (he_time env w2) q # lg"]) simp
      qed
    qed
  qed
qed


lemma with_retries_recording:
  "\<exists>lg. with_retries c (recording env) req (w, l) =
       (fst (with_retries c env req w), (snd (with_retries c env req w), l @ lg))
     \<and> retry_log c (he_time env w + cl_retry_budget c) req 0 lg (fst (with_retries c env req w))"
proof -
  have "he_time (recording env) (w, l) = he_time env w" by (simp add: recording_def)
  then show ?thesis using retry_loop_recording [of c env _ req 0 w l] by (simp add: with_retries_def)
qed

fun is_sent :: "http_log \<Rightarrow> bool" where
  "is_sent (Sent _ _) = True" | "is_sent (Slept _ _) = False"

lemma retry_log_sent: "retry_log c dl req n lg res \<Longrightarrow> Sent q r \<in> set lg \<Longrightarrow> q = req"
  by (induction c dl req n lg res rule: retry_log.induct) auto

lemma retry_log_count: "retry_log c dl req n lg res \<Longrightarrow> n + length (filter is_sent lg) \<le> max (n + 1) (cl_max_attempts c)"
  by (induction c dl req n lg res rule: retry_log.induct) auto

lemma retry_log_result:
  "retry_log c dl req n lg (Inr resp) \<Longrightarrow> 200 \<le> rs_status resp \<and> rs_status resp < 300"
  by (induction c dl req n lg "Inr resp :: api_error + http_response" rule: retry_log.induct)
     (auto dest: attempt_outcome_2xx split: sum.splits prod.splits)

lemma attempt_error_kind: "attempt_outcome r = Inl (e, a) \<Longrightarrow> e \<noteq> OutOfFuel"
  by (auto simp: attempt_outcome_def classify_def unavailable_def Let_def split: sum.splits transport_failure.splits if_splits)

lemma retry_log_error:
  "retry_log c dl req n lg (Inl e) \<Longrightarrow> e \<noteq> OutOfFuel"
  by (induction c dl req n lg "Inl e :: api_error + http_response" rule: retry_log.induct)
     (auto dest: attempt_error_kind split: sum.splits prod.splits)

lemma with_retries_error:
  "fst (with_retries c env req w) = Inl e \<Longrightarrow> e \<noteq> OutOfFuel"
  using with_retries_recording [of c env req w "[]"] retry_log_error by metis

lemma api_request_error:
  "api_request c env m p q b w = (Inl e, w') \<Longrightarrow> e \<noteq> OutOfFuel"
  unfolding api_request_def Let_def by (metis fst_conv with_retries_error)

lemma json_object_error:
  "fst ((case cl_loads c d of None \<Rightarrow> io_raise (unavailable m1 False)
     | Some (JObj o1) \<Rightarrow> io_return o1 | Some _ \<Rightarrow> io_raise (unavailable m2 False)) w) = Inl e \<Longrightarrow>
   e \<noteq> OutOfFuel"
  by (auto simp: unavailable_def split: option.splits json.splits)

lemma api_json_error:
  assumes "fst (api_json c env m p q b w) = Inl e"
  shows "e \<noteq> OutOfFuel"
proof (cases "api_request c env m p q b w")
  case (Pair r w')
  show ?thesis
  proof (cases r)
    case (Inl e')
    then show ?thesis using assms Pair api_request_error [of c env m p q b w e w'] by (simp add: api_json_def)
  next
    case (Inr resp)
    then show ?thesis using assms Pair json_object_error
      by (cases "rs_body resp = []") (simp add: api_json_def, simp only: api_json_def io_bind_step if_False)
  qed
qed

subsection \<open>Pagination\<close>

definition page_query :: "(str \<times> str list) list \<Rightarrow> str option \<Rightarrow> (str \<times> str list) list" where
  "page_query params token =
     params @ [(''limit'', [''100''])] @ (case token of None \<Rightarrow> [] | Some t \<Rightarrow> [(''page_token'', [t])])"

text \<open>A server that answers the pages of a listing: whatever its state, it answers the request with the
  given token with the items given first, and the next token when there is one.\<close>

fun serves :: "client \<Rightarrow> 'w http_env \<Rightarrow> str \<Rightarrow> (str \<times> str list) list \<Rightarrow> str \<Rightarrow> str option \<Rightarrow>
    json list list \<Rightarrow> str list \<Rightarrow> bool" where
  "serves c env path params key token [items] [] \<longleftrightarrow>
     (\<forall>w. \<exists>page w'. api_json c env ''GET'' path (page_query params token) None w = (Inr page, w')
        \<and> page_items key page = Inr items \<and> \<not> truthy (jget page ''next_page_token''))"
| "serves c env path params key token (items # rest) (t # ts) \<longleftrightarrow>
     t \<noteq> [] \<and> (\<forall>w. \<exists>page w'. api_json c env ''GET'' path (page_query params token) None w = (Inr page, w')
        \<and> page_items key page = Inr items \<and> jget page ''next_page_token'' = JStr t)
     \<and> serves c env path params key (Some t) rest ts"
| "serves c env path params key token _ _ \<longleftrightarrow> False"

definition collect_item :: "(str \<times> json) list \<Rightarrow> (str \<times> json) list list \<Rightarrow>
    ('w, api_error, (str \<times> json) list list) io" where
  "collect_item d acc = io_return (acc @ [d])"

lemma fold_collect: "io_fold (yield_item key collect_item) (map JObj ds) acc w = (Inr (acc @ ds), w)"
  by (induction ds arbitrary: acc) (simp_all add: yield_item_def collect_item_def io_bind_def)

lemma paginate_serves:
  assumes "serves c env path params key token (map (map JObj) pages) toks"
    and "distinct (seen @ toks)" and "length pages \<le> fuel"
  shows "fst (paginate fuel c env path params key collect_item token seen acc w) = Inr (acc @ concat pages)"
  using assms
proof (induction toks arbitrary: token pages seen fuel acc w)
  case Nil
  then obtain ds where ds: "pages = [ds]" by (cases pages; cases "tl pages") auto
  obtain fuel' where f: "fuel = Suc fuel'" using Nil.prems ds by (cases fuel) auto
  obtain page w' where "api_json c env ''GET'' path (page_query params token) None w = (Inr page, w')"
    "page_items key page = Inr (map JObj ds)" "\<not> truthy (jget page ''next_page_token'')"
    using Nil.prems(1) ds by (simp del: ex_simps) blast
  then show ?case by (simp add: f ds page_query_def fold_collect)
next
  case (Cons t ts)
  then obtain ds rest where ds: "pages = ds # rest" by (cases pages) auto
  obtain fuel' where f: "fuel = Suc fuel'" using Cons.prems ds by (cases fuel) auto
  obtain page w' where p: "api_json c env ''GET'' path (page_query params token) None w = (Inr page, w')"
    "page_items key page = Inr (map JObj ds)" "jget page ''next_page_token'' = JStr t"
    and t: "t \<noteq> []" and s: "serves c env path params key (Some t) (map (map JObj) rest) ts"
    using Cons.prems(1) ds by (simp del: ex_simps) blast
  have "fst (paginate fuel' c env path params key collect_item (Some t) (seen @ [t]) (acc @ ds) w') =
      Inr ((acc @ ds) @ concat rest)"
    using Cons.prems ds f by (intro Cons.IH s) auto
  then show ?case using p t Cons.prems(2) by (simp add: f ds page_query_def fold_collect)
qed

lemma paginate_no_fuel_error:
  assumes tokens: "\<And>q w page w'. api_json c env ''GET'' path q None w = (Inr page, w') \<Longrightarrow>
      truthy (jget page ''next_page_token'') \<Longrightarrow> py_str (cl_repr c) (jget page ''next_page_token'') \<in> T"
    and body: "\<And>d acc w. fst (body d acc w) \<noteq> Inl OutOfFuel"
    and T: "finite T" "set seen \<subseteq> T" "distinct seen" "card T < fuel + length seen"
  shows "fst (paginate fuel c env path params key body token seen acc w) \<noteq> Inl OutOfFuel"
  using T(2-4)
proof (induction fuel arbitrary: token seen acc w)
  case 0
  then show ?case using card_mono [OF T(1) 0(1)] distinct_card [OF 0(2)] by simp
next
  case (Suc fuel)
  let ?q = "page_query params token"
  have fold: "fst (io_fold (yield_item key body) items acc w) \<noteq> Inl OutOfFuel" for items acc w
  proof (induction items arbitrary: acc w)
    case (Cons it items)
    have "fst (yield_item key body it acc w) \<noteq> Inl OutOfFuel"
      using body by (auto simp: yield_item_def unavailable_def split: json.splits)
    then show ?case using Cons.IH by (auto simp: io_bind_def split: prod.splits sum.splits)
  qed simp
  show ?case
  proof (cases "api_json c env ''GET'' path ?q None w")
    case (Pair r w1)
    show ?thesis
    proof (cases r)
      case (Inl e)
      then have "e \<noteq> OutOfFuel" using Pair api_json_error [of c env "''GET''" path ?q None w e] by auto
      then show ?thesis using Pair Inl by (simp add: page_query_def)
    next
      case (Inr page)
      show ?thesis
      proof (cases "page_items key page")
        case (Inl e)
        then show ?thesis using Pair Inr
          by (auto simp: page_query_def page_items_def unavailable_def split: option.splits json.splits)
      next
        case items: (Inr items)
        obtain r2 w2 where r2: "io_fold (yield_item key body) items acc w1 = (r2, w2)" by fastforce
        show ?thesis
        proof (cases r2)
          case (Inl e)
          then show ?thesis using Pair Inr items r2 fold [of items acc w1] by (simp add: page_query_def)
        next
          case acc': (Inr acc')
          let ?n = "jget page ''next_page_token''"
          let ?t = "py_str (cl_repr c) ?n"
          have "fst (paginate fuel c env path params key body (Some ?t) (seen @ [?t]) acc' w2) \<noteq> Inl OutOfFuel"
            if "truthy ?n" "?t \<notin> set seen"
            using Suc.prems that tokens [of ?q w page w1] Pair Inr by (intro Suc.IH) auto
          then show ?thesis using Pair Inr items r2 acc'
            by (auto simp: page_query_def Let_def unavailable_def)
        qed
      qed
    qed
  qed
qed

subsection \<open>What the client keeps\<close>

text \<open>A property of the world that the transport keeps for the requests in \<open>R\<close>, and clock and random
  source keep.\<close>

definition env_keeps :: "('w \<Rightarrow> bool) \<Rightarrow> (http_request \<Rightarrow> bool) \<Rightarrow> 'w http_env \<Rightarrow> bool" where
  "env_keeps P R env \<longleftrightarrow>
     (\<forall>q w. P w \<longrightarrow> R q \<longrightarrow> P (snd (he_request env q w))) \<and> (\<forall>d w. P w \<longrightarrow> P (he_sleep env d w))
     \<and> (\<forall>w. P w \<longrightarrow> P (snd (he_rng env w)))"

lemma retry_delay_keeps:
  "env_keeps P R env \<Longrightarrow> P w \<Longrightarrow> retry_delay c env asked n w = (d, w') \<Longrightarrow> P w'"
  by (force simp: env_keeps_def retry_delay_def backoff_delay_def split: option.splits py_float.splits prod.splits)

lemma retry_loop_keeps:
  assumes "env_keeps P R env" and "R req" and "P w"
  shows "P (snd (retry_loop c env dl req n w))"
  using assms
proof (induction c env dl req n w rule: retry_loop.induct)
  case (1 c env dl req n w)
  obtain r w1 where r: "he_request env req w = (r, w1)" by fastforce
  then have w1: "P w1" using "1.prems" by (force simp: env_keeps_def)
  show ?case
  proof (cases "attempt_outcome r")
    case (Inr resp)
    then show ?thesis using r w1 by (subst retry_loop.simps) simp
  next
    case (Inl ea)
    obtain err asked where ea: "ea = (err, asked)" by fastforce
    obtain d w2 where d: "retry_delay c env asked (n + 1) w1 = (d, w2)" by fastforce
    have w2: "P w2" by (rule retry_delay_keeps [OF "1.prems"(1) w1 d])
    show ?thesis
    proof (cases "retryable err \<and> \<not> cl_max_attempts c \<le> n + 1 \<and> (\<exists>q. d = Some q \<and> \<not> dl < he_time env w2 + q)")
      case False
      then show ?thesis using r w1 w2 Inl ea d by (subst retry_loop.simps) (auto split: option.splits)
    next
      case True
      then obtain q where q: "d = Some q" "\<not> dl < he_time env w2 + q" by blast
      have "P (he_sleep env q w2)" using "1.prems"(1) w2 by (simp add: env_keeps_def)
      then have "P (snd (retry_loop c env dl req (n + 1) (he_sleep env q w2)))"
        using "1.IH" [OF r [symmetric] Inl ea [symmetric] _ _ d [symmetric] q(1) q(2) "1.prems"(1,2)] True by blast
      then show ?thesis using r Inl ea d q True by (subst retry_loop.simps) simp
    qed
  qed
qed

lemma with_retries_keeps: "env_keeps P R env \<Longrightarrow> R req \<Longrightarrow> io_keeps P (with_retries c env req)"
  by (simp add: io_keeps_def with_retries_def retry_loop_keeps)

definition api_call :: "client \<Rightarrow> str \<Rightarrow> str \<Rightarrow> json option \<Rightarrow> http_request \<Rightarrow> bool" where
  "api_call c method path body q \<longleftrightarrow> hr_method q = method \<and> (\<exists>params. hr_url q = api_url c path params)
     \<and> hr_body q = map_option (cl_dumps c) body"

lemma api_request_keeps:
  "env_keeps P R env \<Longrightarrow> (\<And>q. api_call c method path body q \<Longrightarrow> R q) \<Longrightarrow>
   io_keeps P (api_request c env method path params body)"
  unfolding api_request_def Let_def by (erule with_retries_keeps) (simp add: api_call_def exI [of _ params])

lemma api_json_keeps:
  "env_keeps P R env \<Longrightarrow> (\<And>q. api_call c method path body q \<Longrightarrow> R q) \<Longrightarrow>
   io_keeps P (api_json c env method path params body)"
  unfolding api_json_def
  by (rule io_keeps_bind, erule api_request_keeps) (auto simp: io_keeps_def split: option.splits json.splits)

lemma paginate_post:
  assumes env: "env_keeps P R env" and R: "\<And>q. api_call c ''GET'' path None q \<Longrightarrow> R q"
    and body: "\<And>d acc. I acc \<Longrightarrow> io_post P (body d acc) (\<lambda>acc' _. I acc')"
    and "I acc"
  shows "io_post P (paginate fuel c env path params key body token seen acc) (\<lambda>acc' _. I acc')"
  using assms(4)
proof (induction fuel arbitrary: token seen acc)
  case 0
  show ?case by (simp only: paginate.simps io_post_raise)
next
  case (Suc fuel)
  have item: "io_post P (yield_item key body it a) (\<lambda>acc' _. I acc')" if "I a" for it a
    unfolding yield_item_def using body [OF that] by (cases it) (simp_all add: io_post_def)
  have json: "io_post P (api_json c env ''GET'' path q None) (\<lambda>_ _. True)" for q
    by (rule io_post_keeps, rule api_json_keeps [OF env R])
  show ?case unfolding paginate.simps Let_def
    by (rule io_post_bind [OF json], rule io_post_bind [where R = "\<lambda>_. True"], rule io_post_lift, simp,
        rule io_post_bind [where R = I], rule io_post_fold, rule item, assumption, rule Suc.prems)
       (auto simp: Suc.IH io_post_raise io_post_return simp del: io_simps)
qed

lemma paginate_valid:
  assumes env: "\<And>acc. env_keeps (I acc) R env" and R: "\<And>q. api_call c ''GET'' path None q \<Longrightarrow> R q"
    and body: "\<And>d acc. io_valid (I acc) (body d acc) I"
  shows "io_valid (I acc) (paginate fuel c env path params key body token seen acc) I"
proof (induction fuel arbitrary: token seen acc)
  case 0
  show ?case by (simp only: paginate.simps io_valid_raise)
next
  case (Suc fuel)
  have item: "io_valid (I a) (yield_item key body it a) I" for it a
    unfolding yield_item_def using body by (cases it) (simp_all add: io_valid_def)
  have json: "io_valid (I acc) (api_json c env ''GET'' path q None) (\<lambda>_. I acc)" for q
    by (rule io_valid_keeps, rule api_json_keeps [OF env R])
  show ?case unfolding paginate.simps Let_def
    by (rule io_valid_bind [OF json], rule io_valid_bind [where R = "\<lambda>_. I acc"], rule io_valid_lift, simp,
        rule io_valid_bind [where R = I], rule io_valid_fold, rule item)
       (auto simp: Suc.IH io_valid_raise io_valid_return simp del: io_simps)
qed

subsection \<open>The requests of the client\<close>

definition path_char :: "char \<Rightarrow> bool" where
  "path_char c \<longleftrightarrow> unreserved c \<or> c \<in> set ''/%''"

definition query_char :: "char \<Rightarrow> bool" where
  "query_char c \<longleftrightarrow> unreserved c \<or> c \<in> set ''%+&=''"

text \<open>A path the client appends to its base URL.\<close>

definition safe_path :: "str \<Rightarrow> bool" where
  "safe_path p \<longleftrightarrow> list_all path_char p \<and> p \<noteq> [] \<and> hd p = CHR ''/''"


lemma percent_chars: "c \<in> set (percent ch) \<Longrightarrow> path_char c \<and> query_char c"
proof -
  have digit: "is_digit (hex_digit n) \<or> (65 \<le> ordc (hex_digit n) \<and> ordc (hex_digit n) \<le> 90)" if "n < 16" for n
    using that by (auto simp: hex_digit_def is_digit_def)
  have "ordc ch div 16 < 16" using nat_of_char_less_256 [of ch] by (simp add: less_mult_imp_div_less)
  moreover assume "c \<in> set (percent ch)"
  ultimately have "c = CHR ''%'' \<or> unreserved c"
    using digit [of "ordc ch div 16"] digit [of "ordc ch mod 16"] by (auto simp: percent_def unreserved_def)
  then show ?thesis by (auto simp: path_char_def query_char_def)
qed

lemma seg_chars: "list_all path_char (seg v)"
  using percent_chars by (auto simp: seg_def list_all_iff path_char_def)

lemma urlencode_chars: "list_all query_char (urlencode params)"
proof -
  have plus: "list_all query_char (quote_plus v)" for v
    using percent_chars by (auto simp: quote_plus_def list_all_iff query_char_def)
  have join: "list_all query_char (join_with ''&'' ws)" if "\<forall>w \<in> set ws. list_all query_char w" for ws
    using that by (induction "''&''" ws rule: join_with.induct) (auto simp: query_char_def)
  show ?thesis unfolding urlencode_def by (rule join) (auto simp: plus query_char_def)
qed

lemma operation_paths:
  "safe_path ''/auth/me''" "safe_path (inbox_path inbox)" "safe_path (inbox_path inbox @ ''/messages'')"
  "safe_path (inbox_path inbox @ ''/drafts'')" "safe_path (message_path inbox mid)"
  "safe_path (message_path inbox mid @ ''/raw'')" "safe_path (draft_path inbox mid)"
  using seg_chars
  by (simp_all add: safe_path_def inbox_path_def message_path_def draft_path_def path_char_def unreserved_def is_digit_def)

text \<open>
  The requests the client makes: reads of the API and of download URLs, the latter without any header; the creation
  of a draft; a change of the labels of a message; the deletion of a draft. There is none that sends mail and none
  that deletes a message.
\<close>

definition labels_body :: "str list \<Rightarrow> str list \<Rightarrow> json" where
  "labels_body add remove = JObj ((if add = [] then [] else [(''add_labels'', JList (map JStr add))])
     @ (if remove = [] then [] else [(''remove_labels'', JList (map JStr remove))]))"

text \<open>The paths of one inbox.\<close>

definition concerns :: "str \<Rightarrow> str \<Rightarrow> bool" where
  "concerns inbox p \<longleftrightarrow> p = ''/auth/me'' \<or> p = inbox_path inbox \<or> starts_with (inbox_path inbox @ ''/'') p"

definition modest :: "client \<Rightarrow> str \<Rightarrow> http_request \<Rightarrow> bool" where
  "modest c inbox q \<longleftrightarrow>
     hr_method q = ''GET'' \<and> hr_body q = None
       \<and> (hr_headers q = [] \<or> (\<exists>p params. safe_path p \<and> concerns inbox p \<and> hr_url q = api_url c p params))
     \<or> (\<exists>fields. api_call c ''POST'' (inbox_path inbox @ ''/drafts'') (Some (JObj fields)) q)
     \<or> (\<exists>mid add remove. api_call c ''PATCH'' (message_path inbox mid) (Some (labels_body add remove)) q)
     \<or> (\<exists>did. api_call c ''DELETE'' (draft_path inbox did) None q)"

lemma operation_concerns:
  "concerns inbox ''/auth/me''" "concerns inbox (inbox_path inbox)" "concerns inbox (inbox_path inbox @ ''/messages'')"
  "concerns inbox (inbox_path inbox @ ''/drafts'')" "concerns inbox (message_path inbox mid)"
  "concerns inbox (message_path inbox mid @ ''/raw'')" "concerns inbox (draft_path inbox mid)"
  by (simp_all add: concerns_def starts_with_def message_path_def draft_path_def)

lemma modest_url:
  assumes "modest c inbox q" and "hr_headers q \<noteq> []"
  obtains p params where "safe_path p" "concerns inbox p" "hr_url q = api_url c p params"
  using assms operation_paths(4,5,7) operation_concerns(4,5,7) unfolding modest_def api_call_def by metis

text \<open>A draft is not a message, whatever the identifiers.\<close>

lemma draft_no_message: "draft_path inbox did \<noteq> message_path inbox' mid @ rest"
proof
  assume eq: "draft_path inbox did = message_path inbox' mid @ rest"
  have seg: "\<forall>c \<in> set (seg v). c \<noteq> CHR ''/''" for v
  proof -
    have "list_all query_char (seg v)" using percent_chars by (auto simp: seg_def list_all_iff query_char_def)
    moreover have "\<not> query_char (CHR ''/'')" by (simp add: query_char_def unreserved_def is_digit_def)
    ultimately show ?thesis by (auto simp: list_all_iff)
  qed
  have cut: "dropWhile (\<lambda>c. c \<noteq> CHR ''/'') (seg v @ CHR ''/'' # t) = CHR ''/'' # t" for v t
    using seg [of v] by (simp add: dropWhile_append2)
  have "seg inbox @ CHR ''/'' # ''drafts/'' @ seg did = seg inbox' @ CHR ''/'' # ''messages/'' @ seg mid @ rest"
    using eq by (simp add: draft_path_def message_path_def inbox_path_def)
  from arg_cong [OF this, of "dropWhile (\<lambda>c. c \<noteq> CHR ''/'')"] show False unfolding cut by simp
qed

lemma env_keeps_any: "env_keeps P (\<lambda>_. True) env \<Longrightarrow> env_keeps P R env"
  by (simp add: env_keeps_def)

lemma env_keeps_both: "env_keeps P R env \<Longrightarrow> env_keeps Q R env \<Longrightarrow> env_keeps (\<lambda>w. P w \<and> Q w) R env"
  by (simp add: env_keeps_def)

text \<open>The calls of the client, over any environment that lets modest requests pass.\<close>

lemma modest_read: "safe_path p \<Longrightarrow> concerns inbox p \<Longrightarrow> api_call c ''GET'' p None q \<Longrightarrow> modest c inbox q"
  by (auto simp: api_call_def modest_def)

lemma client_calls_keep:
  assumes env: "env_keeps P (modest c inbox) env"
  shows "io_keeps P (auth_me c env)" and "io_keeps P (get_inbox c env inbox)"
    and "io_keeps P (get_message c env inbox mid)" and "io_keeps P (get_raw_meta c env inbox mid)"
    and "io_keeps P (download c env url)" and "io_keeps P (update_labels c env inbox mid add remove)"
    and "io_keeps P (get_draft c env inbox mid)" and "io_keeps P (create_draft c env inbox fs)"
    and "io_keeps P (delete_draft c env inbox mid)"
proof -
  have read: "safe_path p \<Longrightarrow> concerns inbox p \<Longrightarrow> io_keeps P (api_json c env ''GET'' p qs None)" for p qs
    by (rule api_json_keeps [OF env]) (rule modest_read)
  show "io_keeps P (auth_me c env)" "io_keeps P (get_inbox c env inbox)" "io_keeps P (get_message c env inbox mid)"
    "io_keeps P (get_draft c env inbox mid)"
    by (simp_all add: auth_me_def get_inbox_def get_message_def get_draft_def read operation_paths operation_concerns)
  show "io_keeps P (update_labels c env inbox mid add remove)" "io_keeps P (create_draft c env inbox fs)"
    unfolding update_labels_def create_draft_def labels_body_def [symmetric]
    by (rule api_json_keeps [OF env]; unfold modest_def; blast)+
  show "io_keeps P (get_raw_meta c env inbox mid)"
    unfolding get_raw_meta_def by (intro io_keeps_bind io_keeps_basic read operation_paths operation_concerns)
  have "io_keeps P (api_request c env ''DELETE'' (draft_path inbox mid) [] None)"
    by (rule api_request_keeps [OF env]) (unfold modest_def, blast)
  then show "io_keeps P (delete_draft c env inbox mid)"
    unfolding delete_draft_def by (intro io_keeps_then io_keeps_basic)
  show "io_keeps P (download c env url)"
    unfolding download_def
    by (intro io_keeps_bind with_retries_keeps [OF env]) (auto simp: modest_def io_keeps_def)
qed

lemma client_listings_keep:
  assumes env: "env_keeps P (modest c inbox) env" and body: "\<And>d acc. io_keeps P (body d acc)"
  shows "io_keeps P (list_messages fuel c env inbox labels trash spam asc body acc)"
    and "io_keeps P (list_drafts fuel c env inbox body acc)"
proof -
  have pages: "io_keeps P (paginate fuel c env p params key body None [] acc)" if "safe_path p" "concerns inbox p" for p params key
    by (rule io_keeps_post, rule paginate_post [OF env modest_read [OF that], where I = "\<lambda>_. True"])
       (auto intro: io_post_keeps body)
  show "io_keeps P (list_messages fuel c env inbox labels trash spam asc body acc)"
    and "io_keeps P (list_drafts fuel c env inbox body acc)"
    unfolding list_messages_def list_drafts_def by (rule pages, rule operation_paths, rule operation_concerns)+
qed

subsection \<open>Properties\<close>

definition sent_count :: "http_log list \<Rightarrow> nat" where "sent_count lg = length (filter is_sent lg)"

text \<open>C24: The retry discipline, for every transport, clock and random source: a call sends the same request
  between one and \<open>max_attempts\<close> times; it retries only after a retryable error (a transport failure, 429
  or 5xx) and sleeps only when the delay ends before the budget's deadline; what it returns is the
  outcome of the last attempt, and a returned response is a 2xx.\<close>

theorem retry_discipline:
  "\<exists>lg. with_retries c (recording env) req (w, []) =
        (fst (with_retries c env req w), (snd (with_retries c env req w), lg))
     \<and> retry_log c (he_time env w + cl_retry_budget c) req 0 lg (fst (with_retries c env req w))
     \<and> sent_count lg \<le> max 1 (cl_max_attempts c)
     \<and> (\<forall>resp. fst (with_retries c env req w) = Inr resp \<longrightarrow> 200 \<le> rs_status resp \<and> rs_status resp < 300)"
proof -
  obtain lg where lg: "with_retries c (recording env) req (w, []) =
        (fst (with_retries c env req w), (snd (with_retries c env req w), lg))"
    "retry_log c (he_time env w + cl_retry_budget c) req 0 lg (fst (with_retries c env req w))"
    using with_retries_recording [of c env req w "[]"] by auto
  then show ?thesis using retry_log_count retry_log_result
    by (intro exI [of _ lg]) (fastforce simp: sent_count_def)
qed

theorem retry_discipline_witness:
  "\<exists>lg. with_retries \<lparr>cl_base = [], cl_api_key = ''k'', cl_max_attempts = 3, cl_retry_budget = 10,
          cl_backoff_base = 1, cl_loads = (\<lambda>_. None), cl_dumps = (\<lambda>_. []), cl_repr = (\<lambda>_. [])\<rparr>
        (recording \<lparr>he_request = (\<lambda>q n. (Inl (TransportError ''down''), n)), he_time = (\<lambda>n. n), he_sleep = (+), he_rng = Pair 0\<rparr>)
        \<lparr>hr_method = ''GET'', hr_url = ''u'', hr_headers = [], hr_body = None\<rparr> (0, [])
     = (Inl (unavailable ''upstream unreachable: down'' True), (3, lg)) \<and> sent_count lg = 3"
proof -
  let ?c = "\<lparr>cl_base = [], cl_api_key = ''k'', cl_max_attempts = 3, cl_retry_budget = 10,
          cl_backoff_base = 1, cl_loads = (\<lambda>_. None), cl_dumps = (\<lambda>_. []), cl_repr = (\<lambda>_. [])\<rparr> :: client"
  let ?env = "\<lparr>he_request = (\<lambda>q n. (Inl (TransportError ''down''), n)), he_time = (\<lambda>n. n), he_sleep = (+), he_rng = Pair 0\<rparr>"
  let ?req = "\<lparr>hr_method = ''GET'', hr_url = ''u'', hr_headers = [], hr_body = None\<rparr>"
  show ?thesis
    using retry_discipline [of ?c ?env ?req 0]
    by (simp add: with_retries_def retry_loop.simps recording_def attempt_outcome_def unavailable_def
        retry_delay_def backoff_delay_def sent_count_def)
qed

text \<open>The API key never reaches a download host: every request a download sends goes to the given URL,
  has no header at all and no body, and only a 200 answer becomes content.\<close>

theorem download_never_carries_key:
  "\<exists>lg. download c (recording env) url (w, []) =
        (fst (download c env url w), (snd (download c env url w), lg))
     \<and> (\<forall>q r. Sent q r \<in> set lg \<longrightarrow> hr_headers q = [] \<and> hr_body q = None \<and> hr_url q = url)
     \<and> (\<forall>data. fst (download c env url w) = Inr data \<longrightarrow>
          (\<exists>resp. fst (with_retries c env \<lparr>hr_method = ''GET'', hr_url = url, hr_headers = [], hr_body = None\<rparr> w)
                    = Inr resp \<and> rs_status resp = 200 \<and> rs_body resp = data))"
proof -
  let ?req = "\<lparr>hr_method = ''GET'', hr_url = url, hr_headers = [], hr_body = None\<rparr>"
  obtain lg where lg: "with_retries c (recording env) ?req (w, []) =
        (fst (with_retries c env ?req w), (snd (with_retries c env ?req w), lg))"
    "retry_log c (he_time env w + cl_retry_budget c) ?req 0 lg (fst (with_retries c env ?req w))"
    using with_retries_recording [of c env ?req w "[]"] by auto
  have sent: "\<forall>q r. Sent q r \<in> set lg \<longrightarrow> hr_headers q = [] \<and> hr_body q = None \<and> hr_url q = url"
  proof (intro allI impI)
    fix q r assume "Sent q r \<in> set lg"
    then have "q = ?req" by (rule retry_log_sent [OF lg(2)])
    then show "hr_headers q = [] \<and> hr_body q = None \<and> hr_url q = url" by simp
  qed
  show ?thesis
  proof (cases "with_retries c env ?req w")
    case (Pair r w')
    then show ?thesis using lg(1) sent by (intro exI [of _ lg]) (cases r; simp add: download_def io_bind_def)
  qed
qed

theorem download_never_carries_key_witness:
  "\<exists>lg. download \<lparr>cl_base = [], cl_api_key = ''secret'', cl_max_attempts = 3, cl_retry_budget = 10,
          cl_backoff_base = 1, cl_loads = (\<lambda>_. None), cl_dumps = (\<lambda>_. []), cl_repr = (\<lambda>_. [])\<rparr>
        (recording \<lparr>he_request = (\<lambda>q n. (Inr \<lparr>rs_status = 200, rs_headers = [], rs_body = ''data''\<rparr>, n)),
           he_time = (\<lambda>n. n), he_sleep = (+), he_rng = Pair 0\<rparr>) ''u'' (0, [])
     = (Inr ''data'', (0, lg)) \<and> list_all (\<lambda>e. case e of Sent q r \<Rightarrow> hr_headers q = [] | _ \<Rightarrow> True) lg"
proof -
  let ?c = "\<lparr>cl_base = [], cl_api_key = ''secret'', cl_max_attempts = 3, cl_retry_budget = 10,
          cl_backoff_base = 1, cl_loads = (\<lambda>_. None), cl_dumps = (\<lambda>_. []), cl_repr = (\<lambda>_. [])\<rparr> :: client"
  let ?env = "\<lparr>he_request = (\<lambda>q n. (Inr \<lparr>rs_status = 200, rs_headers = [], rs_body = ''data''\<rparr>, n)),
           he_time = (\<lambda>n. n), he_sleep = (+), he_rng = Pair 0\<rparr>"
  have run: "download ?c ?env ''u'' 0 = (Inr ''data'', 0)"
    by (simp add: download_def with_retries_def retry_loop.simps attempt_outcome_def io_bind_def)
  obtain lg where "download ?c (recording ?env) ''u'' (0, []) = (Inr ''data'', (0, lg))"
      "\<forall>q r. Sent q r \<in> set lg \<longrightarrow> hr_headers q = [] \<and> hr_body q = None \<and> hr_url q = ''u''"
    using download_never_carries_key [of ?c ?env "''u''" 0] by (auto simp: run)
  then show ?thesis
    by (intro exI [of _ lg]) (fastforce simp: list_all_iff split: http_log.splits)
qed

text \<open>C25: A listing is complete: against a server that splits the objects of a collection into any number of
  pages linked by distinct tokens, pagination hands every object of every page to the consumer, in
  order and exactly once.\<close>

theorem pagination_complete:
  assumes "serves c env path params key None (map (map JObj) pages) toks" and "distinct toks"
    and "length pages \<le> fuel"
  shows "fst (paginate fuel c env path params key collect_item None [] [] w) = Inr (concat pages)"
  using paginate_serves [OF assms(1), of "[]" fuel "[]" w] assms(2,3) by simp

text \<open>C26: Pagination ends: if the tokens a server can name are finitely many, then with fuel for one page
  more than that the loop has ended, whatever the server answers: each page brings a new token, or the
  listing ends, or the repeated token is reported as a loop.\<close>

theorem pagination_terminates:
  assumes "\<And>q w page w'. api_json c env ''GET'' path q None w = (Inr page, w') \<Longrightarrow>
      truthy (jget page ''next_page_token'') \<Longrightarrow> py_str (cl_repr c) (jget page ''next_page_token'') \<in> T"
    and "finite T" and "card T < fuel"
    and "\<And>d acc w. fst (body d acc w) \<noteq> Inl OutOfFuel"
  shows "fst (paginate fuel c env path params key body None [] acc w) \<noteq> Inl OutOfFuel"
  using paginate_no_fuel_error [of c env path T body "[]" fuel params key None acc w] assms by simp

text \<open>A server that answers every request with one page which names itself as the next one.\<close>

definition looping_client :: client where
  "looping_client = \<lparr>cl_base = [], cl_api_key = ''k'', cl_max_attempts = 1, cl_retry_budget = 0,
     cl_backoff_base = 0, cl_loads = (\<lambda>_. Some (JObj [(''messages'', JList [JObj []]), (''next_page_token'', JStr ''t'')])),
     cl_dumps = (\<lambda>_. []), cl_repr = (\<lambda>_. [])\<rparr>"

definition ok_env :: "unit http_env" where
  "ok_env = \<lparr>he_request = (\<lambda>q w. (Inr \<lparr>rs_status = 200, rs_headers = [], rs_body = ''x''\<rparr>, w)),
     he_time = (\<lambda>_. 0), he_sleep = (\<lambda>_ w. w), he_rng = Pair 0\<rparr>"

lemma looping_page:
  "api_json looping_client ok_env m p q None () =
     (Inr [(''messages'', JList [JObj []]), (''next_page_token'', JStr ''t'')], ())"
  by (simp add: api_json_def api_request_def with_retries_def retry_loop.simps ok_env_def attempt_outcome_def
      looping_client_def io_bind_def)

theorem pagination_terminates_witness:
  "fst (paginate 2 looping_client ok_env ''/p'' [] ''messages'' collect_item None [] [] ()) \<noteq> Inl OutOfFuel"
proof (rule pagination_terminates [where T = "{''t''}"])
  fix q w page w'
  assume "api_json looping_client ok_env ''GET'' ''/p'' q None w = (Inr page, w')"
  then show "py_str (cl_repr looping_client) (jget page ''next_page_token'') \<in> {''t''}"
    by (auto simp: looping_page jget_def)
qed (simp_all add: collect_item_def)

definition two_pages_client :: client where
  "two_pages_client = looping_client\<lparr>cl_loads := (\<lambda>b. if b = ''t''
     then Some (JObj [(''messages'', JList [JObj [(''message_id'', JStr ''m2'')]])])
     else Some (JObj [(''messages'', JList [JObj [(''message_id'', JStr ''m1'')]]), (''next_page_token'', JStr ''t'')]))\<rparr>"

definition two_pages_env :: "unit http_env" where
  "two_pages_env = ok_env\<lparr>he_request := (\<lambda>q w.
     (Inr \<lparr>rs_status = 200, rs_headers = [], rs_body = (if hr_url q = ''/p?limit=100&page_token=t'' then ''t'' else ''x'')\<rparr>, w))\<rparr>"

lemma two_pages_urls:
  "api_url two_pages_client ''/p'' (page_query [] None) = ''/p?limit=100''"
  "api_url two_pages_client ''/p'' (page_query [] (Some ''t'')) = ''/p?limit=100&page_token=t''"
  by code_simp+

theorem pagination_complete_witness:
  "fst (paginate 2 two_pages_client two_pages_env ''/p'' [] ''messages'' collect_item None [] [] ())
     = Inr (concat [[[(''message_id'', JStr ''m1'')]], [[(''message_id'', JStr ''m2'')]]])"
proof (rule pagination_complete)
  have "serves two_pages_client two_pages_env ''/p'' [] ''messages'' None
      [[JObj [(''message_id'', JStr ''m1'')]], [JObj [(''message_id'', JStr ''m2'')]]] [''t'']"
    using two_pages_urls
    by (simp add: api_json_def api_request_def with_retries_def retry_loop.simps two_pages_env_def ok_env_def
        attempt_outcome_def io_bind_def page_items_def jget_def)
       (simp add: two_pages_client_def looping_client_def)
  then show "serves two_pages_client two_pages_env ''/p'' [] ''messages'' None
      (map (map JObj) [[[(''message_id'', JStr ''m1'')]], [[(''message_id'', JStr ''m2'')]]]) [''t'']" by simp
qed simp_all

end
