(* ===== verification/Drafts.thy ===== *)
theory Drafts
  imports Effects Calendar
begin

text \<open>
  Projections between draft JSON and RFC 822 bytes, \<open>imapgw/drafts.py\<close>. What the code takes from
  Python's \<open>email\<close>, \<open>hashlib\<close>, \<open>html.parser\<close> and codecs is the record \<open>email_lib\<close>: rendering a list of
  headers and a text body (which raises for a header value with a line break), the digest, parsing a
  message into the parts the code looks at, cutting HTML into tags and data, and strict decoding.
  Everything the code itself does with these values is defined here. White space is the ASCII white
  space and the no-break space the code names.

  The lemmas describe the shape of the plain text made from HTML and what is left out of it.
\<close>

subsection \<open>The libraries\<close>

datatype payload = NoPayload | BytesPayload bytes | OtherPayload

record body_part =
  bp_disposition :: "str option"
  bp_payload :: payload
  bp_charset :: "str option"

record header_value =
  hv_text :: str
  hv_addresses :: "str list option"

record email_msg =
  em_multipart :: bool
  em_attachments :: bool
  em_plain :: "body_part option"
  em_html :: "body_part option"
  em_get_all :: "str \<Rightarrow> header_value list"
  em_subject :: str

datatype html_event =
    StartTag str "(str \<times> str option) list"
  | StartEndTag str "(str \<times> str option) list"
  | EndTag str
  | HtmlData str

datatype decoded = Decoded str | UnknownCharset | Undecodable

record email_lib =
  el_render :: "(str \<times> str) list \<Rightarrow> str \<Rightarrow> bytes option"
  el_sha256 :: "bytes \<Rightarrow> str"
  el_format_date :: "datetime \<Rightarrow> str"
  el_fromisoformat :: "str \<Rightarrow> datetime option"
  el_parse :: "bytes \<Rightarrow> email_msg option"
  el_html_events :: "str \<Rightarrow> html_event list"
  el_decode :: "str \<Rightarrow> bytes \<Rightarrow> decoded"
  el_repr :: "json \<Rightarrow> str"

datatype draft_error = DraftParseError str

record draft_fields =
  df_to :: "str list"
  df_cc :: "str list"
  df_bcc :: "str list"
  df_reply_to :: "str list"
  df_subject :: str
  df_text :: str

subsection \<open>Rendering\<close>

definition parse_iso8601 :: "email_lib \<Rightarrow> json \<Rightarrow> datetime" where
  "parse_iso8601 lib value =
     (let text = py_strip (py_str (el_repr lib) (jor value (JStr []))) in
      if text = [] then epoch
      else (let text' = (if last text = CHR ''Z'' then butlast text @ ''+00:00'' else text) in
        (case el_fromisoformat lib text' of
           None \<Rightarrow> epoch
         | Some dt \<Rightarrow> (case dt_utcoffset dt of None \<Rightarrow> dt\<lparr>dt_utcoffset := Some 0\<rparr> | Some _ \<Rightarrow> dt))))"

definition as_list :: "(json \<Rightarrow> str) \<Rightarrow> json \<Rightarrow> str list" where
  "as_list rep value = (case value of
     JStr s \<Rightarrow> if s \<noteq> [] then [s] else []
   | JList xs \<Rightarrow> filter (\<lambda>s. s \<noteq> []) (map (py_str rep) xs)
   | _ \<Rightarrow> [])"

definition address_header :: "email_lib \<Rightarrow> (str \<times> json) list \<Rightarrow> str \<Rightarrow> str \<Rightarrow> (str \<times> str) list" where
  "address_header lib draft header key =
     (let values = as_list (el_repr lib) (jget draft key) in
      if values = [] then [] else [(header, join_with '', '' values)])"

definition inbox_domain :: "str \<Rightarrow> str" where
  "inbox_domain inbox = (if CHR ''@'' \<in> set inbox then rev (fst (partition_at (CHR ''@'') (rev inbox)))
     else ''imapgw.local'')"

definition draft_headers :: "email_lib \<Rightarrow> (str \<times> json) list \<Rightarrow> str \<Rightarrow> (str \<times> str) list" where
  "draft_headers lib draft inbox =
     (let draft_id = jtext (el_repr lib) draft ''draft_id'';
          subject = jget draft ''subject'';
          date = parse_iso8601 lib (jor (jget draft ''created_at'') (jget draft ''updated_at''))
      in [(''From'', inbox)]
         @ address_header lib draft ''To'' ''to'' @ address_header lib draft ''Cc'' ''cc''
         @ address_header lib draft ''Bcc'' ''bcc'' @ address_header lib draft ''Reply-To'' ''reply_to''
         @ (if truthy subject then [(''Subject'', py_str (el_repr lib) subject)] else [])
         @ [(''Date'', el_format_date lib date),
            (''Message-ID'', ''<'' @ (if draft_id = [] then ''draft'' else draft_id) @ ''@''
               @ inbox_domain inbox @ ''>'')]
         @ (if draft_id = [] then [] else [(''X-AgentMail-Draft-Id'', draft_id)]))"

definition cr_str :: str where "cr_str = [CHR 0x0D]"
definition lf_str :: str where "lf_str = [CHR 0x0A]"

definition render_draft :: "email_lib \<Rightarrow> (str \<times> json) list \<Rightarrow> str \<Rightarrow> bytes option" where
  "render_draft lib draft inbox =
     (let text = jtext (el_repr lib) draft ''text'';
          text' = replace_all cr_str lf_str (replace_all (cr_str @ lf_str) lf_str text)
      in el_render lib (draft_headers lib draft inbox) text')"

definition content_key :: "email_lib \<Rightarrow> str \<Rightarrow> bytes \<Rightarrow> str" where
  "content_key lib draft_id rendered = draft_id @ ''#'' @ take 16 (el_sha256 lib rendered)"

definition client_id_for :: "email_lib \<Rightarrow> bytes \<Rightarrow> str" where
  "client_id_for lib raw = ''imapgw-'' @ take 32 (el_sha256 lib raw)"

definition api_body :: "draft_fields \<Rightarrow> str option \<Rightarrow> (str \<times> json) list" where
  "api_body f client_id =
     (let lst = (\<lambda>key values. if values = [] then [] else [(key, JList (map JStr values))])
      in [(''subject'', JStr (df_subject f)), (''text'', JStr (df_text f))]
         @ lst ''to'' (df_to f) @ lst ''cc'' (df_cc f) @ lst ''bcc'' (df_bcc f) @ lst ''reply_to'' (df_reply_to f)
         @ (case client_id of None \<Rightarrow> [] | Some cid \<Rightarrow> if cid = [] then [] else [(''client_id'', JStr cid)]))"

subsection \<open>HTML to text\<close>

definition block_tags :: "str list" where
  "block_tags = [''address'', ''article'', ''aside'', ''blockquote'', ''div'', ''dd'', ''dt'', ''fieldset'',
     ''footer'', ''form'', ''header'', ''hr'', ''li'', ''main'', ''nav'', ''ol'', ''pre'', ''section'', ''table'',
     ''tr'', ''ul'']"

definition paragraph_tags :: "str list" where
  "paragraph_tags = [''p'', ''h1'', ''h2'', ''h3'', ''h4'', ''h5'', ''h6'']"

definition skip_tags :: "str list" where
  "skip_tags = [''script'', ''style'', ''head'', ''title'', ''template'']"

record html_state =
  hs_out :: "str list"
  hs_skip :: nat
  hs_pre :: nat
  hs_href :: "str option"
  hs_link :: "str list"

definition html_init :: html_state where
  "html_init = \<lparr>hs_out = [], hs_skip = 0, hs_pre = 0, hs_href = None, hs_link = []\<rparr>"

definition emit :: "str \<Rightarrow> html_state \<Rightarrow> html_state" where
  "emit t s = s\<lparr>hs_out := hs_out s @ [t]\<rparr>"

text \<open>\<open>dict(attrs).get(name)\<close>: the last binding wins; an attribute without value reads as \<open>None\<close>.\<close>

definition attr_value :: "(str \<times> str option) list \<Rightarrow> str \<Rightarrow> str option" where
  "attr_value attrs nm = (case map_of (rev attrs) nm of None \<Rightarrow> None | Some v \<Rightarrow> v)"

definition handle_starttag :: "str \<Rightarrow> (str \<times> str option) list \<Rightarrow> html_state \<Rightarrow> html_state" where
  "handle_starttag tag attrs s =
     (if tag \<in> set skip_tags then s\<lparr>hs_skip := hs_skip s + 1\<rparr>
      else if hs_skip s \<noteq> 0 then s
      else if tag = ''br'' then emit lf_str s
      else if tag = ''pre'' then emit lf_str (s\<lparr>hs_pre := hs_pre s + 1\<rparr>)
      else if tag \<in> set paragraph_tags then emit (lf_str @ lf_str) s
      else if tag \<in> set block_tags then
        (let s1 = emit lf_str s in if tag = ''li'' then emit ''- '' s1 else s1)
      else if tag = ''a'' then
        s\<lparr>hs_href := (case attr_value attrs ''href'' of
             Some h \<Rightarrow> if h \<noteq> [] then Some (py_strip h) else None
           | None \<Rightarrow> None), hs_link := []\<rparr>
      else if tag = ''img'' then
        (case attr_value attrs ''alt'' of Some alt \<Rightarrow> if alt \<noteq> [] then emit alt s else s | None \<Rightarrow> s)
      else s)"

definition handle_endtag :: "str \<Rightarrow> html_state \<Rightarrow> html_state" where
  "handle_endtag tag s =
     (if tag \<in> set skip_tags then s\<lparr>hs_skip := hs_skip s - 1\<rparr>
      else if hs_skip s \<noteq> 0 then s
      else if tag = ''pre'' then emit lf_str (s\<lparr>hs_pre := hs_pre s - 1\<rparr>)
      else if tag \<in> set paragraph_tags then emit (lf_str @ lf_str) s
      else if tag \<in> set block_tags \<and> tag \<noteq> ''li'' then emit lf_str s
      else if tag = ''a'' then
        (let text = py_strip (concat (hs_link s)); s1 = s\<lparr>hs_href := None\<rparr> in
         (case hs_href s of
            None \<Rightarrow> s1
          | Some href \<Rightarrow>
              if href = [] \<or> starts_with ''javascript:'' (py_lower href) \<or> starts_with ''cid:'' (py_lower href)
              then s1
              else (let target = (if starts_with ''mailto:'' (py_lower href) then drop 7 href else href)
                    in if target \<noteq> [] \<and> target \<noteq> text then emit ('' <'' @ target @ ''>'') s1 else s1)))
      else s)"

definition handle_startendtag :: "str \<Rightarrow> (str \<times> str option) list \<Rightarrow> html_state \<Rightarrow> html_state" where
  "handle_startendtag tag attrs s =
     (let s1 = handle_starttag tag attrs s in
      if tag \<notin> set [''br'', ''img'', ''hr''] then handle_endtag tag s1 else s1)"

text \<open>\<open>re.sub(r"\s+", " ", data)\<close>.\<close>

fun collapse_space :: "bool \<Rightarrow> str \<Rightarrow> str" where
  "collapse_space prev [] = []"
| "collapse_space prev (c # s) =
     (if str_space c then (if prev then collapse_space True s else CHR '' '' # collapse_space True s)
      else c # collapse_space False s)"

definition nbsp :: str where "nbsp = [CHR 0xC2, CHR 0xA0]"

definition at_line_start :: "str list \<Rightarrow> bool" where
  "at_line_start out \<longleftrightarrow> out = [] \<or> starts_with (rev lf_str) (rev (last out)) \<or> starts_with (rev ''- '') (rev (last out))"

definition handle_data :: "str \<Rightarrow> html_state \<Rightarrow> html_state" where
  "handle_data data s =
     (if hs_skip s \<noteq> 0 then s
      else (let data1 = (if hs_pre s = 0 then collapse_space False (replace_all nbsp '' '' data) else data);
                data2 = (if hs_pre s = 0 \<and> at_line_start (hs_out s) then lstrip_by (\<lambda>c. c = CHR '' '') data1
                         else data1)
            in if hs_pre s = 0 \<and> data2 = [] then s
               else (let s1 = emit data2 s in
                 (case hs_href s of None \<Rightarrow> s1 | Some _ \<Rightarrow> s1\<lparr>hs_link := hs_link s @ [data2]\<rparr>))))"

fun html_step :: "html_event \<Rightarrow> html_state \<Rightarrow> html_state" where
  "html_step (StartTag t a) s = handle_starttag t a s"
| "html_step (StartEndTag t a) s = handle_startendtag t a s"
| "html_step (EndTag t) s = handle_endtag t s"
| "html_step (HtmlData d) s = handle_data d s"

definition html_run :: "html_event list \<Rightarrow> html_state \<Rightarrow> html_state" where
  "html_run evs s = fold html_step evs s"

text \<open>\<open>re.sub(r"\n{3,}", "\n\n", t)\<close>: runs of line feeds are cut to two.\<close>

fun squeeze_lf :: "nat \<Rightarrow> str \<Rightarrow> str" where
  "squeeze_lf n [] = []"
| "squeeze_lf n (c # s) =
     (if c = lf then (if n < 2 then c # squeeze_lf (n + 1) s else squeeze_lf n s)
      else c # squeeze_lf 0 s)"

definition strip_lf :: "str \<Rightarrow> str" where
  "strip_lf t = rstrip_by (\<lambda>c. c = lf) (lstrip_by (\<lambda>c. c = lf) t)"

definition html_text :: "html_state \<Rightarrow> str" where
  "html_text s =
     (let lines = map (rstrip_by str_space) (split_on lf (concat (hs_out s)));
          text = strip_lf (squeeze_lf 0 (join_with lf_str lines))
      in if text = [] then [] else text @ lf_str)"

definition html_to_text :: "email_lib \<Rightarrow> str \<Rightarrow> str" where
  "html_to_text lib html = html_text (html_run (el_html_events lib html) html_init)"

subsection \<open>Parsing an APPEND\<close>

definition decode_text_part :: "email_lib \<Rightarrow> body_part \<Rightarrow> draft_error + str" where
  "decode_text_part lib part = (case bp_payload part of
     NoPayload \<Rightarrow> Inr []
   | OtherPayload \<Rightarrow> Inl (DraftParseError ''text body is not text'')
   | BytesPayload payload \<Rightarrow>
       (let charset0 = py_lower (case bp_charset part of
              Some cs \<Rightarrow> if cs = [] then ''us-ascii'' else cs | None \<Rightarrow> ''us-ascii'');
            charset = (if (charset0 = ''us-ascii'' \<or> charset0 = ''ascii'') \<and> list_ex (\<lambda>b. 128 \<le> ordc b) payload
                       then ''utf-8'' else charset0)
        in (case el_decode lib charset payload of
              Decoded t \<Rightarrow> Inr t
            | UnknownCharset \<Rightarrow> Inl (DraftParseError ''unsupported text charset'')
            | Undecodable \<Rightarrow> Inl (DraftParseError ''text body is not valid in its declared charset''))))"

definition header_addresses :: "header_value \<Rightarrow> str list" where
  "header_addresses h = (case hv_addresses h of
     Some (a # as) \<Rightarrow> a # as
   | _ \<Rightarrow> (let value = py_strip (hv_text h) in
       if value = [] then []
       else filter (\<lambda>p. p \<noteq> []) (map py_strip (split_on (CHR '','') value))))"

definition addresses :: "email_msg \<Rightarrow> str \<Rightarrow> str list" where
  "addresses msg nm = concat (map header_addresses (em_get_all msg nm))"

definition parse_append :: "email_lib \<Rightarrow> bytes \<Rightarrow> draft_error + draft_fields" where
  "parse_append lib raw = (case el_parse lib raw of
     None \<Rightarrow> Inl (DraftParseError ''message could not be parsed'')
   | Some msg \<Rightarrow>
       if em_multipart msg \<and> em_attachments msg
       then Inl (DraftParseError ''attachments are not supported in new drafts'')
       else (let is_html = (em_plain msg = None);
                 body = (case em_plain msg of Some b \<Rightarrow> Some b | None \<Rightarrow> em_html msg)
             in (case body of
                   None \<Rightarrow> Inl (DraftParseError ''no text/plain or text/html part in the message'')
                 | Some b \<Rightarrow>
                     if bp_disposition b = Some ''attachment''
                     then Inl (DraftParseError ''attachments are not supported in new drafts'')
                     else ebind (decode_text_part lib b) (\<lambda>t.
                       let text = replace_all (cr_str @ lf_str) lf_str t;
                           text' = (if is_html then html_to_text lib text else text)
                       in Inr \<lparr>df_to = addresses msg ''To'', df_cc = addresses msg ''Cc'',
                            df_bcc = addresses msg ''Bcc'', df_reply_to = addresses msg ''Reply-To'',
                            df_subject = py_strip (em_subject msg), df_text = text'\<rparr>))))"

subsection \<open>The shape of the plain text\<close>

text \<open>No run of line feeds longer than two, when \<open>n\<close> of them precede the text.\<close>

fun lf_runs_ok :: "nat \<Rightarrow> str \<Rightarrow> bool" where
  "lf_runs_ok n [] = True"
| "lf_runs_ok n (c # s) = (if c = lf then n < 2 \<and> lf_runs_ok (n + 1) s else lf_runs_ok 0 s)"

lemma lf_runs_ok_mono: "lf_runs_ok n s \<Longrightarrow> m \<le> n \<Longrightarrow> lf_runs_ok m s"
  by (induction n s arbitrary: m rule: lf_runs_ok.induct) (auto split: if_splits)

lemma squeeze_lf_ok: "lf_runs_ok n (squeeze_lf n s)"
  by (induction n s rule: squeeze_lf.induct) auto

lemma lf_runs_ok_factor: "lf_runs_ok n s \<Longrightarrow> s \<noteq> a @ [lf, lf, lf] @ b"
proof (induction a arbitrary: n s)
  case (Cons x a)
  then show ?case by (cases s) (auto split: if_splits)
qed auto

lemma strip_lf_parts:
  "\<exists>a b. t = a @ strip_lf t @ b \<and> (strip_lf t \<noteq> [] \<longrightarrow> hd (strip_lf t) \<noteq> lf)"
proof -
  let ?u = "lstrip_by (\<lambda>c. c = lf) t"
  obtain b where b: "?u = strip_lf t @ b" unfolding strip_lf_def using rstrip_by_prefix by blast
  have "t = takeWhile (\<lambda>c. c = lf) t @ ?u" by (simp add: lstrip_by_def)
  moreover have "?u \<noteq> [] \<Longrightarrow> hd ?u \<noteq> lf" unfolding lstrip_by_def by (rule hd_dropWhile)
  ultimately show ?thesis using b by (metis append_is_Nil_conv hd_append2)
qed

lemma hd_dropWhile_rev: "dropWhile P (rev s) \<noteq> [] \<Longrightarrow> \<not> P (last (rev (dropWhile P (rev s))))"
  by (simp add: last_rev hd_dropWhile)

lemma strip_lf_last: "strip_lf t \<noteq> [] \<Longrightarrow> last (strip_lf t) \<noteq> lf"
  unfolding strip_lf_def rstrip_by_def using hd_dropWhile_rev [of "\<lambda>c. c = lf"] by auto

subsection \<open>What is left out\<close>

fun end_of_skip :: "html_event \<Rightarrow> bool" where
  "end_of_skip (EndTag t) = (t \<in> set skip_tags)"
| "end_of_skip _ = False"

fun skip_event :: "html_event \<Rightarrow> bool" where
  "skip_event (StartTag t a) = (t \<in> set skip_tags)"
| "skip_event (StartEndTag t a) = (t \<in> set skip_tags)"
| "skip_event (EndTag t) = (t \<in> set skip_tags)"
| "skip_event (HtmlData d) = False"

lemma html_run_simps [simp]:
  "html_run [] s = s" "html_run (e # es) s = html_run es (html_step e s)"
  "html_run (es @ fs) s = html_run fs (html_run es s)"
  by (simp_all add: html_run_def)

lemma skipped_step: "hs_skip s \<noteq> 0 \<Longrightarrow> \<not> skip_event e \<Longrightarrow> html_step e s = s"
  by (cases e) (auto simp: handle_starttag_def handle_endtag_def handle_startendtag_def handle_data_def Let_def)

lemma skipped_run: "hs_skip s \<noteq> 0 \<Longrightarrow> \<not> list_ex skip_event es \<Longrightarrow> html_run es s = s"
  by (induction es) (simp_all add: skipped_step)

lemma open_skip_step:
  "hs_skip s \<noteq> 0 \<Longrightarrow> \<not> end_of_skip e \<Longrightarrow> hs_out (html_step e s) = hs_out s \<and> hs_skip (html_step e s) \<noteq> 0"
  by (cases e) (auto simp: handle_starttag_def handle_endtag_def handle_startendtag_def handle_data_def Let_def)

lemma open_skip_run:
  "hs_skip s \<noteq> 0 \<Longrightarrow> \<not> list_ex end_of_skip es \<Longrightarrow> hs_out (html_run es s) = hs_out s"
proof (induction es arbitrary: s)
  case (Cons e es)
  then show ?case using open_skip_step [of s e] by simp
qed simp

subsection \<open>Properties\<close>

text \<open>The plain text made from any HTML is empty, or it starts with a character that is not a line
  feed, ends with exactly one line feed, and nowhere has more than one blank line in a row.\<close>

theorem html_text_shape:
  "html_to_text lib html = [] \<or>
   (\<exists>body. html_to_text lib html = body @ [lf] \<and> body \<noteq> [] \<and> hd body \<noteq> lf \<and> last body \<noteq> lf
      \<and> \<not> contains_sub [lf, lf, lf] body)"
proof -
  let ?s = "html_run (el_html_events lib html) html_init"
  let ?t = "squeeze_lf 0 (join_with lf_str (map (rstrip_by str_space) (split_on lf (concat (hs_out ?s)))))"
  obtain a b where ab: "?t = a @ strip_lf ?t @ b" and hd: "strip_lf ?t \<noteq> [] \<longrightarrow> hd (strip_lf ?t) \<noteq> lf"
    using strip_lf_parts [of ?t] by blast
  have "\<not> contains_sub [lf, lf, lf] (strip_lf ?t)"
    unfolding contains_sub_iff
  proof
    assume "\<exists>x y. strip_lf ?t = x @ [lf, lf, lf] @ y"
    then obtain x y where "?t = (a @ x) @ [lf, lf, lf] @ (y @ b)" using ab by auto
    then show False using lf_runs_ok_factor [OF squeeze_lf_ok] by blast
  qed
  then show ?thesis
    using hd strip_lf_last [of ?t]
    by (auto simp: html_to_text_def html_text_def Let_def lf_str_def lf_def)
qed

text \<open>Scripts, styles, titles and templates leave no trace: a skipped element whose content has no
  skipped element of its own changes nothing of the state, wherever it stands.\<close>

theorem skipped_element_leaves_no_trace:
  assumes "t \<in> set skip_tags" and "\<not> list_ex skip_event inner"
  shows "html_run (before @ StartTag t attrs # inner @ EndTag t # after) s = html_run (before @ after) s"
proof -
  let ?s = "html_run before s"
  have "html_run inner (handle_starttag t attrs ?s) = handle_starttag t attrs ?s"
    using assms by (intro skipped_run) (simp_all add: handle_starttag_def)
  moreover have "handle_endtag t (handle_starttag t attrs ?s) = ?s"
    using assms(1) by (simp add: handle_starttag_def handle_endtag_def)
  ultimately show ?thesis by simp
qed

theorem skipped_element_leaves_no_trace_witness:
  "html_run ([HtmlData ''a''] @ StartTag ''style'' [] # [HtmlData ''b {}''] @ EndTag ''style'' # [EndTag ''p'']) html_init
     = html_run ([HtmlData ''a''] @ [EndTag ''p'']) html_init"
  by (rule skipped_element_leaves_no_trace) (simp_all add: skip_tags_def)

text \<open>A document that omits the end tag of its head loses its whole content: after an opening \<open>head\<close>
  tag, whatever follows without an end tag of a skipped element, the text is what it was before.\<close>

theorem omitted_head_end_drops_content:
  assumes "\<not> list_ex end_of_skip rest"
  shows "html_text (html_run (before @ StartTag ''head'' attrs # rest) s) = html_text (html_run before s)"
proof -
  let ?h = "handle_starttag ''head'' attrs (html_run before s)"
  have "hs_skip ?h \<noteq> 0" "hs_out ?h = hs_out (html_run before s)"
    by (simp_all add: handle_starttag_def skip_tags_def)
  then show ?thesis using open_skip_run [OF _ assms] by (simp add: html_text_def)
qed

theorem omitted_head_end_drops_content_witness:
  "html_text (html_run ([] @ StartTag ''head'' [] # [StartTag ''body'' [], StartTag ''p'' [], HtmlData ''Hello'',
      EndTag ''p'']) html_init) = html_text (html_run [] html_init)"
  by (rule omitted_head_end_drops_content) (simp add: skip_tags_def)

end
