(* ===== verification/Mailbox_Model.thy ===== *)
theory Mailbox_Model
  imports Drafts Complex_Main
begin

text \<open>
  The data of \<open>imapgw/mailbox.py\<close>: the mailboxes as views over labels, the items of a snapshot, and the
  two directions of the correspondence between labels and flags. Flag names carry the backslash as the
  character \<open>backslash\<close>; sets of flags and labels are HOL sets.
\<close>

subsection \<open>Flags\<close>

definition flag_seen :: str where "flag_seen = [backslash] @ ''Seen''"
definition flag_flagged :: str where "flag_flagged = [backslash] @ ''Flagged''"
definition flag_draft :: str where "flag_draft = [backslash] @ ''Draft''"
definition flag_deleted :: str where "flag_deleted = [backslash] @ ''Deleted''"
definition flag_answered :: str where "flag_answered = [backslash] @ ''Answered''"

lemmas flag_defs = flag_seen_def flag_flagged_def flag_draft_def flag_deleted_def flag_answered_def

definition all_flags :: "str list" where
  "all_flags = [flag_seen, flag_answered, flag_flagged, flag_deleted, flag_draft]"

lemma flags_distinct [simp]: "distinct all_flags"
  by (simp add: all_flags_def flag_defs)

lemma flag_neqs [simp]:
  "flag_seen \<noteq> flag_flagged" "flag_flagged \<noteq> flag_seen" "flag_seen \<noteq> flag_deleted" "flag_deleted \<noteq> flag_seen"
  "flag_flagged \<noteq> flag_deleted" "flag_deleted \<noteq> flag_flagged" "flag_draft \<noteq> flag_deleted"
  "flag_deleted \<noteq> flag_draft" "flag_seen \<noteq> flag_draft" "flag_draft \<noteq> flag_seen"
  "flag_flagged \<noteq> flag_draft" "flag_draft \<noteq> flag_flagged"
  by (simp_all add: flag_defs)

subsection \<open>Mailboxes\<close>

datatype mailbox_kind = Messages | DraftItems

record mailbox_def =
  md_name :: str
  md_kind :: mailbox_kind
  md_query_labels :: "str list"
  md_exclude_labels :: "str set"
  md_include_trash :: bool
  md_include_spam :: bool
  md_permanent_flags :: "str list"
  md_appendable :: bool

definition hidden_labels :: "str set" where "hidden_labels = {''trash'', ''spam''}"

definition message_permanent :: "str list" where
  "message_permanent = [flag_seen, flag_flagged, flag_deleted]"

definition trash_permanent :: "str list" where "trash_permanent = [flag_seen, flag_flagged]"

definition draft_permanent :: "str list" where "draft_permanent = [flag_deleted]"

definition inbox_box :: mailbox_def where
  "inbox_box = \<lparr>md_name = ''INBOX'', md_kind = Messages, md_query_labels = [''received''],
     md_exclude_labels = hidden_labels, md_include_trash = False, md_include_spam = False,
     md_permanent_flags = message_permanent, md_appendable = False\<rparr>"

definition drafts_box :: mailbox_def where
  "drafts_box = \<lparr>md_name = ''Drafts'', md_kind = DraftItems, md_query_labels = [],
     md_exclude_labels = {}, md_include_trash = False, md_include_spam = False,
     md_permanent_flags = draft_permanent, md_appendable = True\<rparr>"

definition sent_box :: mailbox_def where
  "sent_box = \<lparr>md_name = ''Sent'', md_kind = Messages, md_query_labels = [''sent''],
     md_exclude_labels = hidden_labels, md_include_trash = False, md_include_spam = False,
     md_permanent_flags = message_permanent, md_appendable = False\<rparr>"

definition trash_box :: mailbox_def where
  "trash_box = \<lparr>md_name = ''Trash'', md_kind = Messages, md_query_labels = [''trash''],
     md_exclude_labels = {}, md_include_trash = True, md_include_spam = False,
     md_permanent_flags = trash_permanent, md_appendable = False\<rparr>"

definition spam_box :: mailbox_def where
  "spam_box = \<lparr>md_name = ''Spam'', md_kind = Messages, md_query_labels = [''spam''],
     md_exclude_labels = {}, md_include_trash = False, md_include_spam = True,
     md_permanent_flags = trash_permanent, md_appendable = False\<rparr>"

text \<open>A table of mailboxes: a dictionary in insertion order.\<close>

type_synonym mailbox_table = "(str \<times> mailbox_def) list"

definition mailboxes :: mailbox_table where
  "mailboxes = [(''INBOX'', inbox_box), (''Drafts'', drafts_box), (''Sent'', sent_box),
     (''Trash'', trash_box), (''Spam'', spam_box)]"

definition lookup_mailbox :: "mailbox_table \<Rightarrow> str \<Rightarrow> mailbox_def option" where
  "lookup_mailbox defs nm = (if py_upper nm = ''INBOX'' then map_of defs ''INBOX'' else map_of defs nm)"

subsection \<open>Items and snapshots\<close>

record item =
  it_uid :: nat
  it_key :: str
  it_id :: str
  it_flags :: "str set"
  it_date :: datetime
  it_size_hint :: "int option"
  it_labels :: "str set"
  it_from :: str
  it_to :: "str list"
  it_subject :: str

record snapshot =
  sn_inbox :: str
  sn_name :: str
  sn_uidvalidity :: int
  sn_uidnext :: nat
  sn_items :: "item list"
  sn_version :: nat
  sn_synced_at :: rat

text \<open>\<open>by_uid\<close>: the dictionary comprehension over the items, so the last item of a UID wins.\<close>

definition by_uid :: "snapshot \<Rightarrow> nat \<Rightarrow> item option" where
  "by_uid sn u = map_of (rev (map (\<lambda>i. (it_uid i, i)) (sn_items sn))) u"

definition snapshot_uids :: "snapshot \<Rightarrow> nat list" where
  "snapshot_uids sn = map it_uid (sn_items sn)"

definition sequence_items :: "snapshot \<Rightarrow> nat list \<Rightarrow> item list" where
  "sequence_items sn uids = List.map_filter (by_uid sn) uids"

definition message_flags :: "str set \<Rightarrow> str set" where
  "message_flags labels =
     (if ''unread'' \<notin> labels then {flag_seen} else {}) \<union> (if ''starred'' \<in> labels then {flag_flagged} else {})"

definition draft_flags :: "str set" where "draft_flags = {flag_draft, flag_seen}"

definition flags_of :: "item \<Rightarrow> nat set \<Rightarrow> str set" where
  "flags_of i deleted = (if it_uid i \<in> deleted then it_flags i \<union> {flag_deleted} else it_flags i)"

text \<open>\<open>FLAG_LABELS\<close>: labels to add and to remove when the flag is set.\<close>

definition flag_labels :: "str \<Rightarrow> (str list \<times> str list) option" where
  "flag_labels f = (if f = flag_seen then Some ([''read''], [''unread''])
     else if f = flag_flagged then Some ([''starred''], []) else None)"

text \<open>The change of labels \<open>set_flag\<close> asks for: reversed when the flag is cleared.\<close>

definition label_change :: "str \<Rightarrow> bool \<Rightarrow> (str list \<times> str list) option" where
  "label_change f value = map_option (\<lambda>(a, r). if value then (a, r) else (r, a)) (flag_labels f)"

definition apply_change :: "str list \<times> str list \<Rightarrow> str set \<Rightarrow> str set" where
  "apply_change ch labels = (labels \<union> set (fst ch)) - set (snd ch)"

subsection \<open>Facts\<close>

lemma mailboxes_named: "(k, d) \<in> set mailboxes \<Longrightarrow> md_name d = k"
  by (auto simp: mailboxes_def inbox_box_def drafts_box_def sent_box_def trash_box_def spam_box_def)

lemma lookup_mailbox_named: "lookup_mailbox mailboxes nm = Some d \<Longrightarrow> (md_name d, d) \<in> set mailboxes"
  using mailboxes_named by (fastforce simp: lookup_mailbox_def split: if_splits dest: map_of_SomeD)

lemma by_uid_distinct:
  assumes "distinct (snapshot_uids sn)"
  shows "by_uid sn u = Some i \<longleftrightarrow> i \<in> set (sn_items sn) \<and> it_uid i = u"
proof -
  let ?xs = "rev (map (\<lambda>i. (it_uid i, i)) (sn_items sn))"
  have "distinct (map fst ?xs)" using assms by (simp add: snapshot_uids_def o_def rev_map [symmetric])
  then have "map_of ?xs u = Some i \<longleftrightarrow> (u, i) \<in> set ?xs" by (rule map_of_eq_Some_iff)
  then show ?thesis by (auto simp: by_uid_def)
qed

lemma by_uid_Some: "by_uid sn u = Some i \<Longrightarrow> i \<in> set (sn_items sn) \<and> it_uid i = u"
  by (auto simp: by_uid_def dest!: map_of_SomeD)

lemma by_uid_dom: "by_uid sn u \<noteq> None \<longleftrightarrow> u \<in> set (snapshot_uids sn)"
  by (auto simp: by_uid_def snapshot_uids_def map_of_eq_None_iff image_image)

lemma by_uid_None: "by_uid sn u = None \<longleftrightarrow> u \<notin> set (snapshot_uids sn)"
  using by_uid_dom by blast

lemma message_flags_iff [simp]:
  "flag_seen \<in> message_flags l \<longleftrightarrow> ''unread'' \<notin> l"
  "flag_flagged \<in> message_flags l \<longleftrightarrow> ''starred'' \<in> l"
  "flag_deleted \<notin> message_flags l" "flag_draft \<notin> message_flags l"
  by (auto simp: message_flags_def flag_defs)

text \<open>What setting or clearing a flag does to the flags of the changed labels.\<close>

lemma message_flags_change:
  "label_change f v = Some ch \<Longrightarrow> message_flags (apply_change ch l) =
     (if v then insert f (message_flags l) else message_flags l - {f})"
  by (auto simp: label_change_def flag_labels_def apply_change_def message_flags_def split: if_splits)

lemma flag_label_roundtrip:
  assumes "f = flag_seen \<or> f = flag_flagged"
  shows "\<exists>ch. label_change f v = Some ch
    \<and> message_flags (apply_change ch labels) =
        (if v then insert f (message_flags labels) else message_flags labels - {f})"
proof -
  obtain ch where "label_change f v = Some ch"
    using assms by (cases v) (auto simp: label_change_def flag_labels_def)
  then show ?thesis using message_flags_change by blast
qed

end
