(* ===== verification/Search.thy ===== *)
theory Search
  imports Mailbox_Model Fetch_Grammar
begin

text \<open>
  SEARCH, \<open>imapgw/search.py\<close>: parsing the criteria and evaluating them over the items of a mailbox. A
  \<open>Crit\<close> of the code, an operation name and a tuple, is one constructor per operation. Reading the raw
  message or its size is an \<open>io\<close> computation of the context, so evaluation shows when content is
  fetched. The pieces of Python's \<open>email\<close> package and case folding are the record \<open>search_lib\<close>.

  The lemmas show that parsing terminates and inverts the printing of criteria, and that evaluation with
  its short cuts computes the plain meaning of a criterion.
\<close>

datatype search_error = SearchSyntaxError str | BadCharset str | PyError

datatype crit =
    CrAll
  | CrNone
  | CrAnd "crit list"
  | CrOr crit crit
  | CrNot crit
  | CrFlag str bool
  | CrKeyword str bool
  | CrUidSet sequence_set
  | CrSeqSet sequence_set
  | CrSize str nat
  | CrDate str date
  | CrText str str
  | CrHeader str str

record search_lib =
  sl_casefold :: "str \<Rightarrow> str"
  sl_header_items :: "bytes \<Rightarrow> (str \<times> str) list"
  sl_text_parts :: "bytes \<Rightarrow> str list"
  sl_parsedate :: "str \<Rightarrow> date option"

subsection \<open>Leaves\<close>

text \<open>Strict UTF-8, as \<open>bytes.decode("utf-8")\<close> accepts it: no overlong forms, no surrogates, at most
  U+10FFFF.\<close>

definition cont_byte :: "char \<Rightarrow> bool" where
  "cont_byte c \<longleftrightarrow> 128 \<le> ordc c \<and> ordc c < 192"

fun utf8_ok :: "bytes \<Rightarrow> bool" where
  "utf8_ok [] = True"
| "utf8_ok (a # s) =
     (if ordc a < 128 then utf8_ok s
      else (case s of
          [] \<Rightarrow> False
        | b # s1 \<Rightarrow>
            if 194 \<le> ordc a \<and> ordc a < 224 then cont_byte b \<and> utf8_ok s1
            else (case s1 of
                [] \<Rightarrow> False
              | c # s2 \<Rightarrow>
                  if 224 \<le> ordc a \<and> ordc a < 240
                  then cont_byte b \<and> cont_byte c \<and> (ordc a = 224 \<longrightarrow> 160 \<le> ordc b)
                         \<and> (ordc a = 237 \<longrightarrow> ordc b < 160) \<and> utf8_ok s2
                  else (case s2 of
                      [] \<Rightarrow> False
                    | d # s3 \<Rightarrow>
                        240 \<le> ordc a \<and> ordc a \<le> 244 \<and> cont_byte b \<and> cont_byte c \<and> cont_byte d
                          \<and> (ordc a = 240 \<longrightarrow> 144 \<le> ordc b) \<and> (ordc a = 244 \<longrightarrow> ordc b < 144)
                          \<and> utf8_ok s3))))"

definition text_of :: "token \<Rightarrow> search_error + str" where
  "text_of tok = (case astring_bytes tok of
     Inl _ \<Rightarrow> Inl (SearchSyntaxError ''expected a string'')
   | Inr b \<Rightarrow> if utf8_ok b then Inr b else Inl (BadCharset ''UTF-8''))"

definition needle :: "search_lib \<Rightarrow> token \<Rightarrow> search_error + str" where
  "needle lib tok = ebind (text_of tok) (\<lambda>t. Inr (sl_casefold lib t))"

definition seqset_of :: "token \<Rightarrow> search_error + sequence_set" where
  "seqset_of tok = (case tok of
     Atom v \<Rightarrow> (case parse_sequence_set v of
         Inr q \<Rightarrow> Inr q
       | Inl (FetchSyntaxError m) \<Rightarrow> Inl (SearchSyntaxError m)
       | Inl _ \<Rightarrow> Inl PyError)
   | _ \<Rightarrow> Inl (SearchSyntaxError ''expected a sequence set''))"

definition looks_like_seqset :: "str \<Rightarrow> bool" where
  "looks_like_seqset t \<longleftrightarrow> t \<noteq> [] \<and> list_all (\<lambda>c. is_digit c \<or> c \<in> set ''*:,'') t
     \<and> (is_digit (hd t) \<or> hd t = CHR ''*'')"

definition search_months :: "str list" where
  "search_months = [''jan'', ''feb'', ''mar'', ''apr'', ''may'', ''jun'', ''jul'', ''aug'', ''sep'', ''oct'',
     ''nov'', ''dec'']"

definition is_letter :: "char \<Rightarrow> bool" where
  "is_letter c \<longleftrightarrow> (65 \<le> ordc c \<and> ordc c \<le> 90) \<or> (97 \<le> ordc c \<and> ordc c \<le> 122)"

text \<open>\<open>_DATE_RE\<close>: day, month and year; the end of the pattern also matches before a final line feed.\<close>

definition match_date :: "str \<Rightarrow> (str \<times> str \<times> str) option" where
  "match_date text0 =
     (let text = (if text0 \<noteq> [] \<and> last text0 = lf then butlast text0 else text0);
          d = takeWhile is_digit text; r = dropWhile is_digit text;
          m = take 3 (drop 1 r); y = drop 5 r
      in if (length d = 1 \<or> length d = 2) \<and> length r = 9 \<and> r ! 0 = CHR ''-'' \<and> list_all is_letter m
            \<and> r ! 4 = CHR ''-'' \<and> list_all is_digit y
         then Some (d, m, y) else None)"

text \<open>The value of a month name, counted from 1.\<close>

definition month_number :: "str \<Rightarrow> nat option" where
  "month_number m = map_of (zip search_months [1..<13]) (py_lower m)"

definition date_of :: "token \<Rightarrow> search_error + date" where
  "date_of tok = ebind (text_of tok) (\<lambda>text.
     (case match_date text of
        None \<Rightarrow> Inl (SearchSyntaxError ''invalid date'')
      | Some (d, m, y) \<Rightarrow>
          (case month_number m of
             None \<Rightarrow> Inl (SearchSyntaxError ''invalid date'')
           | Some mn \<Rightarrow>
               (let x = Date (digits_val y) mn (digits_val d) in
                if valid_date x then Inr x else Inl (SearchSyntaxError ''invalid date'')))))"

definition flag_keys :: "(str \<times> str \<times> bool) list" where
  "flag_keys = [(''ANSWERED'', flag_answered, True), (''UNANSWERED'', flag_answered, False),
     (''DELETED'', flag_deleted, True), (''UNDELETED'', flag_deleted, False),
     (''DRAFT'', flag_draft, True), (''UNDRAFT'', flag_draft, False),
     (''FLAGGED'', flag_flagged, True), (''UNFLAGGED'', flag_flagged, False),
     (''SEEN'', flag_seen, True), (''UNSEEN'', flag_seen, False)]"

definition text_keys :: "str list" where
  "text_keys = [''FROM'', ''TO'', ''SUBJECT'', ''CC'', ''BCC'', ''BODY'', ''TEXT'']"

definition date_keys :: "str list" where
  "date_keys = [''BEFORE'', ''ON'', ''SINCE'', ''SENTBEFORE'', ''SENTON'', ''SENTSINCE'']"

subsection \<open>The parser\<close>

text \<open>\<open>next()\<close>: the next token and the rest.\<close>

definition next_tok :: "token list \<Rightarrow> search_error + token \<times> token list" where
  "next_tok ts = (case ts of [] \<Rightarrow> Inl (SearchSyntaxError ''incomplete search key'') | t # r \<Rightarrow> Inr (t, r))"

definition with_next :: "token list \<Rightarrow> (token \<Rightarrow> search_error + crit) \<Rightarrow> search_error + crit \<times> token list" where
  "with_next ts f = ebind (next_tok ts) (\<lambda>(t, r). ebind (f t) (\<lambda>c. Inr (c, r)))"

text \<open>The search keys whose arguments are not search keys themselves.\<close>

definition leaf_key :: "search_lib \<Rightarrow> str \<Rightarrow> token \<Rightarrow> token list \<Rightarrow> search_error + crit \<times> token list" where
  "leaf_key lib nm tok rest =
     (if nm = ''ALL'' then Inr (CrAll, rest)
      else (case map_of flag_keys nm of
          Some (flag, wanted) \<Rightarrow> Inr (CrFlag flag wanted, rest)
        | None \<Rightarrow>
           (if nm = ''NEW'' then Inr (CrNone, rest)
            else if nm = ''OLD'' then Inr (CrAll, rest)
            else if nm = ''RECENT'' then Inr (CrNone, rest)
            else if nm = ''KEYWORD'' \<or> nm = ''UNKEYWORD''
              then with_next rest (\<lambda>t. ebind (text_of t) (\<lambda>l. Inr (CrKeyword l (nm = ''KEYWORD''))))
            else if nm = ''UID'' then with_next rest (\<lambda>t. ebind (seqset_of t) (\<lambda>q. Inr (CrUidSet q)))
            else if nm \<in> set date_keys then with_next rest (\<lambda>t. ebind (date_of t) (\<lambda>d. Inr (CrDate nm d)))
            else if nm = ''LARGER'' \<or> nm = ''SMALLER'' then
              with_next rest (\<lambda>t. case t of
                 Atom v \<Rightarrow> if py_isdigit v
                    then (case py_int v of None \<Rightarrow> Inl PyError | Some n \<Rightarrow> Inr (CrSize nm n))
                    else Inl (SearchSyntaxError (nm @ '' requires a number''))
               | _ \<Rightarrow> Inl (SearchSyntaxError (nm @ '' requires a number'')))
            else if nm \<in> set text_keys then with_next rest (\<lambda>t. ebind (needle lib t) (\<lambda>n. Inr (CrText nm n)))
            else if nm = ''HEADER'' then
              ebind (next_tok rest) (\<lambda>(t1, r1). ebind (text_of t1) (\<lambda>field.
                with_next r1 (\<lambda>t2. ebind (needle lib t2) (\<lambda>n. Inr (CrHeader field n)))))
            else if looks_like_seqset nm then ebind (seqset_of tok) (\<lambda>q. Inr (CrSeqSet q, rest))
            else Inl (SearchSyntaxError ''unsupported search key''))))"

definition toks_size :: "token list \<Rightarrow> nat" where "toks_size ts = size_list size ts"

lemma toks_size_simps [simp]:
  "toks_size [] = 0" "toks_size (t # ts) = Suc (size t + toks_size ts)"
  by (simp_all add: toks_size_def)

lemma with_next_size: "with_next ts f = Inr (c, r) \<Longrightarrow> toks_size r < toks_size ts"
  by (auto simp: with_next_def next_tok_def split: list.splits)

lemma if_branches: "(if b then x else y) = z \<Longrightarrow> (x = z \<Longrightarrow> P) \<Longrightarrow> (y = z \<Longrightarrow> P) \<Longrightarrow> P"
  by (simp split: if_splits)

lemma option_branches:
  "(case m of None \<Rightarrow> x | Some fw \<Rightarrow> f fw) = z \<Longrightarrow> (x = z \<Longrightarrow> P) \<Longrightarrow> (\<And>fw. f fw = z \<Longrightarrow> P) \<Longrightarrow> P"
  by (cases m) auto

lemma next_with_size:
  "next_tok ts = Inr (t, r1) \<Longrightarrow> with_next r1 g = Inr (c, r) \<Longrightarrow> toks_size r \<le> toks_size ts"
  by (auto simp: next_tok_def split: list.splits dest: with_next_size)

lemma leaf_key_size: "leaf_key lib nm tok rest = Inr (c, r) \<Longrightarrow> toks_size r \<le> toks_size rest"
  unfolding leaf_key_def
  by (elim if_branches option_branches) (auto split: prod.splits dest: with_next_size next_with_size)

function (sequential) parse_key :: "search_lib \<Rightarrow> token list \<Rightarrow> search_error + crit \<times> token list"
  and parse_keys :: "search_lib \<Rightarrow> token list \<Rightarrow> search_error + crit list" where
  "parse_key lib [] = Inl (SearchSyntaxError ''incomplete search key'')"
| "parse_key lib (ListTok items # rest) =
     ebind (parse_keys lib items) (\<lambda>cs.
       if cs = [] then Inl (SearchSyntaxError ''empty search group'') else Inr (CrAnd cs, rest))"
| "parse_key lib (Atom v # rest) =
     (if py_upper v = ''NOT'' then ebind (parse_key lib rest) (\<lambda>(c, r). Inr (CrNot c, r))
      else if py_upper v = ''OR'' then
        ebind (parse_key lib rest) (\<lambda>(a, r1). ebind (parse_key lib r1) (\<lambda>(b, r2). Inr (CrOr a b, r2)))
      else leaf_key lib (py_upper v) (Atom v) rest)"
| "parse_key lib (_ # rest) = Inl (SearchSyntaxError ''search key must be an atom'')"
| "parse_keys lib [] = Inr []"
| "parse_keys lib (t # ts) =
     ebind (parse_key lib (t # ts)) (\<lambda>(c, r). ebind (parse_keys lib r) (\<lambda>cs. Inr (c # cs)))"
  by pat_completeness auto

termination
proof -
  have shrinks: "parse_key_parse_keys_dom (Inl (lib, ts)) \<Longrightarrow> parse_key lib ts = Inr (c, r) \<Longrightarrow> toks_size r < toks_size ts"
    and "parse_key_parse_keys_dom (Inr (lib, ts')) \<Longrightarrow> True" for lib ts ts' c r
  proof (induction lib ts and lib ts' arbitrary: c r rule: parse_key_parse_keys.pinduct)
    case (2 lib items rest)
    then show ?case by (auto simp: parse_key.psimps split: if_splits)
  next
    case (3 lib v rest)
    consider (no) "py_upper v = ''NOT''" | (either) "py_upper v = ''OR''"
      | (leaf) "py_upper v \<noteq> ''NOT''" "py_upper v \<noteq> ''OR''" by blast
    then show ?case
    proof cases
      case no
      then obtain c' where "parse_key lib rest = Inr (c', r)"
        using 3 by (auto simp: parse_key.psimps)
      then show ?thesis using "3.IH"(1) [OF no] by fastforce
    next
      case either
      then obtain a r1 b where ab: "parse_key lib rest = Inr (a, r1)" "parse_key lib r1 = Inr (b, r)"
        using 3 by (auto simp: parse_key.psimps)
      have "py_upper v \<noteq> ''NOT''" using either by simp
      then have "toks_size r1 < toks_size rest" "toks_size r < toks_size r1"
        using "3.IH"(2) [OF _ either ab(1)] "3.IH"(3) [OF _ either ab(1) refl ab(2)] by auto
      then show ?thesis by simp
    next
      case leaf
      then have "leaf_key lib (py_upper v) (Atom v) rest = Inr (c, r)" using 3 by (simp add: parse_key.psimps)
      then have "toks_size r \<le> toks_size rest" by (rule leaf_key_size)
      then show ?thesis by simp
    qed
  qed (simp_all add: parse_key.psimps)
  show ?thesis
    by (relation "measure (\<lambda>x. case x of Inl (lib, ts) \<Rightarrow> 2 * toks_size ts | Inr (lib, ts) \<Rightarrow> 2 * toks_size ts + 1)")
       (auto simp: toks_size_def dest: shrinks)
qed

declare parse_key.simps(2-) [simp del] parse_keys.simps(2) [simp del]

definition parse_search :: "search_lib \<Rightarrow> token list \<Rightarrow> search_error + crit" where
  "parse_search lib tokens =
     ebind (case tokens of
         Atom v # others \<Rightarrow>
           if py_upper v = ''CHARSET'' then
             (case others of
                [] \<Rightarrow> Inl (SearchSyntaxError ''CHARSET requires a value'')
              | cs # items \<Rightarrow> ebind (text_of cs) (\<lambda>c.
                  if py_upper c \<noteq> ''UTF-8'' \<and> py_upper c \<noteq> ''US-ASCII'' then Inl (BadCharset (py_upper c))
                  else Inr items))
           else Inr tokens
       | _ \<Rightarrow> Inr tokens)
     (\<lambda>items. if items = [] then Inl (SearchSyntaxError ''SEARCH requires at least one key'')
              else ebind (parse_keys lib items) (\<lambda>cs. Inr (CrAnd cs)))"

subsection \<open>Evaluation\<close>

record ('w, 'e) search_ctx =
  sc_seqs :: "nat list"
  sc_uids :: "nat list"
  sc_deleted :: "nat set"
  sc_raw :: "item \<Rightarrow> ('w, 'e, bytes) io"
  sc_size :: "item \<Rightarrow> ('w, 'e, int) io"

definition decoded_headers :: "search_lib \<Rightarrow> bytes \<Rightarrow> str" where
  "decoded_headers lib raw =
     join_with lf_str (map (\<lambda>(k, v). k @ '': '' @ v) (sl_header_items lib (fst (split_message raw))))"

definition decoded_body :: "search_lib \<Rightarrow> bytes \<Rightarrow> str" where
  "decoded_body lib raw = join_with lf_str (sl_text_parts lib raw)"

definition header_value :: "search_lib \<Rightarrow> bytes \<Rightarrow> str \<Rightarrow> str" where
  "header_value lib raw field = join_with '', ''
     (map snd (filter (\<lambda>(k, v). py_lower k = py_lower field) (sl_header_items lib (fst (split_message raw)))))"

definition header_names :: "search_lib \<Rightarrow> bytes \<Rightarrow> str set" where
  "header_names lib raw = set (map (py_lower \<circ> fst) (sl_header_items lib (fst (split_message raw))))"

definition sent_date :: "search_lib \<Rightarrow> bytes \<Rightarrow> date option" where
  "sent_date lib raw = (let value = header_value lib raw ''Date'' in
     if value = [] then None else sl_parsedate lib value)"

definition compare_date :: "str \<Rightarrow> date \<Rightarrow> date \<Rightarrow> bool" where
  "compare_date nm when d = (if nm = ''BEFORE'' then when < d else if nm = ''ON'' then when = d else d \<le> when)"

definition eval_date :: "search_lib \<Rightarrow> ('w, 'e) search_ctx \<Rightarrow> str \<Rightarrow> date \<Rightarrow> item \<Rightarrow> ('w, 'e, bool) io" where
  "eval_date lib ctx nm d i =
     (if starts_with ''SENT'' nm then
        io_bind (sc_raw ctx i) (\<lambda>raw. case sent_date lib raw of
            None \<Rightarrow> io_return False
          | Some when \<Rightarrow> io_return (compare_date (drop 4 nm) when d))
      else io_return (compare_date nm (dt_date (it_date i)) d))"

definition has_needle :: "search_lib \<Rightarrow> str \<Rightarrow> str \<Rightarrow> bool" where
  "has_needle lib n text \<longleftrightarrow> contains_sub n (sl_casefold lib text)"

definition eval_text :: "search_lib \<Rightarrow> ('w, 'e) search_ctx \<Rightarrow> str \<Rightarrow> str \<Rightarrow> item \<Rightarrow> ('w, 'e, bool) io" where
  "eval_text lib ctx nm n i =
     (if nm = ''FROM'' then io_return (has_needle lib n (it_from i))
      else if nm = ''TO'' then io_return (has_needle lib n (join_with '', '' (it_to i)))
      else if nm = ''SUBJECT'' then io_return (has_needle lib n (it_subject i))
      else io_bind (sc_raw ctx i) (\<lambda>raw.
        io_return (if nm = ''TEXT'' then has_needle lib n (decoded_headers lib raw @ lf_str @ decoded_body lib raw)
          else if nm = ''BODY'' then has_needle lib n (decoded_body lib raw)
          else has_needle lib n (header_value lib raw nm))))"

definition eval_header :: "search_lib \<Rightarrow> ('w, 'e) search_ctx \<Rightarrow> str \<Rightarrow> str \<Rightarrow> item \<Rightarrow> ('w, 'e, bool) io" where
  "eval_header lib ctx field n i =
     io_bind (sc_raw ctx i) (\<lambda>raw.
       let value = header_value lib raw field in
       if n \<noteq> [] then io_return (has_needle lib n value)
       else io_bind (sc_raw ctx i) (\<lambda>raw2. io_return (py_lower field \<in> header_names lib raw2)))"

fun evaluate :: "search_lib \<Rightarrow> ('w, 'e) search_ctx \<Rightarrow> crit \<Rightarrow> item \<Rightarrow> nat \<Rightarrow> ('w, 'e, bool) io"
  and eval_and :: "search_lib \<Rightarrow> ('w, 'e) search_ctx \<Rightarrow> crit list \<Rightarrow> item \<Rightarrow> nat \<Rightarrow> ('w, 'e, bool) io" where
  "evaluate lib ctx CrAll i seq = io_return True"
| "evaluate lib ctx CrNone i seq = io_return False"
| "evaluate lib ctx (CrAnd cs) i seq = eval_and lib ctx cs i seq"
| "evaluate lib ctx (CrOr a b) i seq =
     io_bind (evaluate lib ctx a i seq) (\<lambda>x. if x then io_return True else evaluate lib ctx b i seq)"
| "evaluate lib ctx (CrNot c) i seq = io_bind (evaluate lib ctx c i seq) (\<lambda>x. io_return (\<not> x))"
| "evaluate lib ctx (CrFlag f wanted) i seq = io_return ((f \<in> flags_of i (sc_deleted ctx)) = wanted)"
| "evaluate lib ctx (CrKeyword l wanted) i seq = io_return ((l \<in> it_labels i) = wanted)"
| "evaluate lib ctx (CrUidSet q) i seq = io_return (it_uid i \<in> set (select_numbers q (sc_uids ctx)))"
| "evaluate lib ctx (CrSeqSet q) i seq = io_return (seq \<in> set (select_numbers q (sc_seqs ctx)))"
| "evaluate lib ctx (CrSize nm n) i seq =
     io_bind (sc_size ctx i) (\<lambda>sz. io_return (if nm = ''LARGER'' then int n < sz else sz < int n))"
| "evaluate lib ctx (CrDate nm d) i seq = eval_date lib ctx nm d i"
| "evaluate lib ctx (CrText nm n) i seq = eval_text lib ctx nm n i"
| "evaluate lib ctx (CrHeader field n) i seq = eval_header lib ctx field n i"
| "eval_and lib ctx [] i seq = io_return True"
| "eval_and lib ctx (c # cs) i seq =
     io_bind (evaluate lib ctx c i seq) (\<lambda>x. if x then eval_and lib ctx cs i seq else io_return False)"

subsection \<open>The meaning of a criterion\<close>

text \<open>A context whose content is known: the raw bytes and the size of every item.\<close>

record content =
  co_raw :: "item \<Rightarrow> bytes"
  co_size :: "item \<Rightarrow> int"

definition serves_content :: "('w, 'e) search_ctx \<Rightarrow> content \<Rightarrow> bool" where
  "serves_content ctx k \<longleftrightarrow> (\<forall>i w. fst (sc_raw ctx i w) = Inr (co_raw k i) \<and> fst (sc_size ctx i w) = Inr (co_size k i))"

fun satisfies :: "search_lib \<Rightarrow> ('w, 'e) search_ctx \<Rightarrow> content \<Rightarrow> crit \<Rightarrow> item \<Rightarrow> nat \<Rightarrow> bool" where
  "satisfies lib ctx k CrAll i seq = True"
| "satisfies lib ctx k CrNone i seq = False"
| "satisfies lib ctx k (CrAnd cs) i seq = (\<forall>c \<in> set cs. satisfies lib ctx k c i seq)"
| "satisfies lib ctx k (CrOr a b) i seq = (satisfies lib ctx k a i seq \<or> satisfies lib ctx k b i seq)"
| "satisfies lib ctx k (CrNot c) i seq = (\<not> satisfies lib ctx k c i seq)"
| "satisfies lib ctx k (CrFlag f wanted) i seq = ((f \<in> flags_of i (sc_deleted ctx)) = wanted)"
| "satisfies lib ctx k (CrKeyword l wanted) i seq = ((l \<in> it_labels i) = wanted)"
| "satisfies lib ctx k (CrUidSet q) i seq = (it_uid i \<in> set (select_numbers q (sc_uids ctx)))"
| "satisfies lib ctx k (CrSeqSet q) i seq = (seq \<in> set (select_numbers q (sc_seqs ctx)))"
| "satisfies lib ctx k (CrSize nm n) i seq =
     (if nm = ''LARGER'' then int n < co_size k i else co_size k i < int n)"
| "satisfies lib ctx k (CrDate nm d) i seq =
     (if starts_with ''SENT'' nm
      then (case sent_date lib (co_raw k i) of None \<Rightarrow> False | Some x \<Rightarrow> compare_date (drop 4 nm) x d)
      else compare_date nm (dt_date (it_date i)) d)"
| "satisfies lib ctx k (CrText nm n) i seq =
     (if nm = ''FROM'' then has_needle lib n (it_from i)
      else if nm = ''TO'' then has_needle lib n (join_with '', '' (it_to i))
      else if nm = ''SUBJECT'' then has_needle lib n (it_subject i)
      else if nm = ''TEXT'' then
        has_needle lib n (decoded_headers lib (co_raw k i) @ lf_str @ decoded_body lib (co_raw k i))
      else if nm = ''BODY'' then has_needle lib n (decoded_body lib (co_raw k i))
      else has_needle lib n (header_value lib (co_raw k i) nm))"
| "satisfies lib ctx k (CrHeader field n) i seq =
     (if n \<noteq> [] then has_needle lib n (header_value lib (co_raw k i) field)
      else py_lower field \<in> header_names lib (co_raw k i))"

text \<open>The criteria that can be decided from the listing alone.\<close>

fun listing_only :: "crit \<Rightarrow> bool" where
  "listing_only (CrAnd cs) = list_all listing_only cs"
| "listing_only (CrOr a b) = (listing_only a \<and> listing_only b)"
| "listing_only (CrNot c) = listing_only c"
| "listing_only (CrSize nm n) = False"
| "listing_only (CrDate nm d) = (\<not> starts_with ''SENT'' nm)"
| "listing_only (CrText nm n) = (nm \<in> {''FROM'', ''TO'', ''SUBJECT''})"
| "listing_only (CrHeader f n) = False"
| "listing_only _ = True"

lemma fst_bind_Inr: "fst (m w) = Inr x \<Longrightarrow> fst (io_bind m f w) = fst (f x (snd (m w)))"
  by (cases "m w") (simp add: io_bind_def)

lemma fst_bind_return: "fst (m w) = Inr x \<Longrightarrow> fst (io_bind m (\<lambda>y. io_return (g y)) w) = Inr (g x)"
  by (simp add: fst_bind_Inr)

lemma served:
  "serves_content ctx k \<Longrightarrow> fst (sc_raw ctx i w) = Inr (co_raw k i)"
  "serves_content ctx k \<Longrightarrow> fst (sc_size ctx i w) = Inr (co_size k i)"
  by (simp_all add: serves_content_def)

lemma eval_leaf_satisfies:
  assumes "serves_content ctx k"
  shows "fst (eval_date lib ctx nm d i w) = Inr (satisfies lib ctx k (CrDate nm d) i seq)"
    and "fst (eval_text lib ctx nm n i w) = Inr (satisfies lib ctx k (CrText nm n) i seq)"
    and "fst (eval_header lib ctx nm n i w) = Inr (satisfies lib ctx k (CrHeader nm n) i seq)"
  by (simp_all add: eval_date_def eval_text_def eval_header_def Let_def fst_bind_Inr served [OF assms]
      split: option.splits)

lemma evaluate_satisfies:
  assumes "serves_content ctx k"
  shows "fst (evaluate lib ctx c i seq w) = Inr (satisfies lib ctx k c i seq)"
    and "fst (eval_and lib ctx cs i seq w) = Inr (\<forall>c \<in> set cs. satisfies lib ctx k c i seq)"
  using assms
  by (induction lib ctx c i seq and lib ctx cs i seq arbitrary: w and w rule: evaluate_eval_and.induct)
     (simp_all add: fst_bind_Inr served eval_leaf_satisfies del: satisfies.simps(11-13))

lemma eval_leaf_listing:
  "listing_only (CrDate nm d) \<Longrightarrow> snd (eval_date lib ctx nm d i w) = w"
  "listing_only (CrText nm n) \<Longrightarrow> snd (eval_text lib ctx nm n i w) = w"
  by (auto simp: eval_date_def eval_text_def)

lemma snd_bind_same: "snd (m w) = w \<Longrightarrow> (\<And>x. snd (f x w) = w) \<Longrightarrow> snd (io_bind m f w) = w"
  by (cases "m w"; cases "fst (m w)") (auto simp: io_bind_def)

lemma evaluate_listing_only:
  "listing_only c \<Longrightarrow> snd (evaluate lib ctx c i seq w) = w"
  "list_all listing_only cs \<Longrightarrow> snd (eval_and lib ctx cs i seq w) = w"
  by (induction lib ctx c i seq and lib ctx cs i seq arbitrary: w and w rule: evaluate_eval_and.induct)
     (auto intro!: snd_bind_same simp: eval_leaf_listing simp del: listing_only.simps(5,6))

subsection \<open>Printing criteria\<close>

definition flag_name :: "str \<Rightarrow> bool \<Rightarrow> str" where
  "flag_name f wanted = (case filter (\<lambda>(k, v). v = (f, wanted)) flag_keys of [] \<Rightarrow> [] | (k, v) # _ \<Rightarrow> k)"

definition print_range :: "nat \<times> nat \<Rightarrow> str" where
  "print_range r = nat_str (fst r) @ '':'' @ nat_str (snd r)"

definition print_set :: "sequence_set \<Rightarrow> str" where
  "print_set q = join_with '','' (map print_range (seq_ranges q))"

fun print_crit :: "crit \<Rightarrow> token list" where
  "print_crit CrAll = [Atom ''ALL'']"
| "print_crit CrNone = [Atom ''NEW'']"
| "print_crit (CrAnd cs) = [ListTok (concat (map print_crit cs))]"
| "print_crit (CrOr a b) = Atom ''OR'' # print_crit a @ print_crit b"
| "print_crit (CrNot c) = Atom ''NOT'' # print_crit c"
| "print_crit (CrFlag f wanted) = [Atom (flag_name f wanted)]"
| "print_crit (CrKeyword l wanted) = [Atom (if wanted then ''KEYWORD'' else ''UNKEYWORD''), LiteralStr l]"
| "print_crit (CrUidSet q) = [Atom ''UID'', Atom (print_set q)]"
| "print_crit (CrSeqSet q) = [Atom (print_set q)]"
| "print_crit (CrSize nm n) = [Atom nm, Atom (nat_str n)]"
| "print_crit (CrDate nm d) = []"
| "print_crit (CrText nm n) = [Atom nm, LiteralStr n]"
| "print_crit (CrHeader f n) = [Atom ''HEADER'', LiteralStr f, LiteralStr n]"

definition set_ok :: "sequence_set \<Rightarrow> bool" where
  "set_ok q \<longleftrightarrow> seq_ranges q \<noteq> [] \<and> list_all (\<lambda>(a, b). 0 < a \<and> a \<le> b \<and> short_number a \<and> short_number b) (seq_ranges q)"

text \<open>The criteria a client can write, dates left out: known flags, sets of ranges, valid UTF-8 texts that
  case folding leaves alone.\<close>

fun crit_ok :: "search_lib \<Rightarrow> crit \<Rightarrow> bool" where
  "crit_ok lib (CrAnd cs) = (cs \<noteq> [] \<and> list_all (crit_ok lib) cs)"
| "crit_ok lib (CrOr a b) = (crit_ok lib a \<and> crit_ok lib b)"
| "crit_ok lib (CrNot c) = crit_ok lib c"
| "crit_ok lib (CrFlag f wanted) = ((f, wanted) \<in> snd ` set flag_keys)"
| "crit_ok lib (CrKeyword l wanted) = utf8_ok l"
| "crit_ok lib (CrUidSet q) = set_ok q"
| "crit_ok lib (CrSeqSet q) = set_ok q"
| "crit_ok lib (CrSize nm n) = ((nm = ''LARGER'' \<or> nm = ''SMALLER'') \<and> short_number n)"
| "crit_ok lib (CrDate nm d) = False"
| "crit_ok lib (CrText nm n) = (nm \<in> set text_keys \<and> utf8_ok n \<and> sl_casefold lib n = n)"
| "crit_ok lib (CrHeader f n) = (utf8_ok f \<and> utf8_ok n \<and> sl_casefold lib n = n)"
| "crit_ok lib _ = True"

lemma parse_print_set: "set_ok q \<Longrightarrow> parse_sequence_set (print_set q) = Inr q"
proof -
  assume q: "set_ok q"
  have "list_all2 (\<lambda>w r. parse_range w = Inr r \<and> CHR '','' \<notin> set w) (map print_range (seq_ranges q)) (seq_ranges q)"
    unfolding list_all2_map1
  proof (rule list.rel_refl_strong)
    fix r assume "r \<in> set (seq_ranges q)"
    then have "0 < fst r" "fst r \<le> snd r" "short_number (fst r)" "short_number (snd r)"
      using q by (auto simp: set_ok_def list_all_iff)
    then show "parse_range (print_range r) = Inr r \<and> CHR '','' \<notin> set (print_range r)"
      using parse_range_pair [of "fst r" "snd r"] by (simp add: print_range_def nat_str_no_special)
  qed
  then show ?thesis
    using q parse_sequence_set_join [of "map print_range (seq_ranges q)" "seq_ranges q"]
    by (simp add: set_ok_def print_set_def)
qed

lemma print_set_chars: "c \<in> set (print_set q) \<Longrightarrow> is_digit c \<or> c = CHR '':'' \<or> c = CHR '',''"
proof -
  assume "c \<in> set (print_set q)"
  then have "c = CHR '','' \<or> (\<exists>r \<in> set (seq_ranges q). c \<in> set (print_range r))"
    using set_join_with [of "'',''" "map print_range (seq_ranges q)"] by (auto simp: print_set_def)
  then show ?thesis by (auto simp: print_range_def dest!: nat_str_set)
qed

lemma print_set_hd: "set_ok q \<Longrightarrow> print_set q \<noteq> [] \<and> is_digit (hd (print_set q))"
proof -
  assume "set_ok q"
  then obtain r rs where q: "seq_ranges q = r # rs" by (cases "seq_ranges q") (auto simp: set_ok_def)
  obtain d ds where d: "nat_str (fst r) = d # ds" by (cases "nat_str (fst r)") auto
  then have "is_digit d" using nat_str_set [of d "fst r"] by simp
  moreover have "hd (print_set q) = d \<and> print_set q \<noteq> []"
    by (cases rs) (simp_all add: print_set_def q print_range_def d)
  ultimately show ?thesis by simp
qed

lemma up_char_not_letter: "is_digit c \<or> c = CHR '':'' \<or> c = CHR '','' \<Longrightarrow> up_char c = c"
  by (auto simp: up_char_def is_digit_def)

lemma py_upper_print_set: "py_upper (print_set q) = print_set q"
  unfolding py_upper_def using print_set_chars up_char_not_letter by (intro map_idI) blast

lemma print_set_seqset: "set_ok q \<Longrightarrow> looks_like_seqset (print_set q)"
  using print_set_hd [of q] print_set_chars [of _ q] by (auto simp: looks_like_seqset_def list_all_iff)

text \<open>A word that starts with a digit is none of the search keywords.\<close>

lemma digit_word: "is_digit (hd w) \<Longrightarrow> w \<noteq> CHR ''A'' # x \<and> w \<noteq> CHR ''B'' # x \<and> w \<noteq> CHR ''C'' # x \<and> w \<noteq> CHR ''D'' # x
   \<and> w \<noteq> CHR ''F'' # x \<and> w \<noteq> CHR ''H'' # x \<and> w \<noteq> CHR ''K'' # x \<and> w \<noteq> CHR ''L'' # x \<and> w \<noteq> CHR ''N'' # x
   \<and> w \<noteq> CHR ''O'' # x \<and> w \<noteq> CHR ''R'' # x \<and> w \<noteq> CHR ''S'' # x \<and> w \<noteq> CHR ''T'' # x \<and> w \<noteq> CHR ''U'' # x"
  by (auto simp: is_digit_def)

lemma leaf_seqset:
  assumes "set_ok q"
  shows "leaf_key lib (print_set q) (Atom (print_set q)) rest = Inr (CrSeqSet q, rest)"
proof -
  have d: "is_digit (hd (print_set q))" and l: "looks_like_seqset (print_set q)"
    using print_set_hd print_set_seqset assms by auto
  show ?thesis
    by (simp add: leaf_key_def flag_keys_def date_keys_def text_keys_def digit_word [OF d] l seqset_of_def
        parse_print_set assms)
qed


lemma with_next_Cons [simp]: "with_next (t # r) f = ebind (f t) (\<lambda>c. Inr (c, r))"
  by (simp add: with_next_def next_tok_def)

lemma py_upper_words [simp]:
  "py_upper ''ALL'' = ''ALL''" "py_upper ''NEW'' = ''NEW''" "py_upper ''OR'' = ''OR''" "py_upper ''NOT'' = ''NOT''"
  "py_upper ''UID'' = ''UID''" "py_upper ''KEYWORD'' = ''KEYWORD''" "py_upper ''UNKEYWORD'' = ''UNKEYWORD''"
  "py_upper ''LARGER'' = ''LARGER''" "py_upper ''SMALLER'' = ''SMALLER''" "py_upper ''HEADER'' = ''HEADER''"
  by (simp_all add: py_upper_def up_char_def)

lemma text_of_literal [simp]: "utf8_ok l \<Longrightarrow> text_of (LiteralStr l) = Inr l"
  by (simp add: text_of_def astring_bytes_def)

lemma leaf_flag:
  assumes "(f, wanted) \<in> snd ` set flag_keys"
  shows "py_upper (flag_name f wanted) = flag_name f wanted"
    and "flag_name f wanted \<noteq> ''NOT''" and "flag_name f wanted \<noteq> ''OR''"
    and "leaf_key lib (flag_name f wanted) tok rest = Inr (CrFlag f wanted, rest)"
  using assms
  by (auto simp: flag_keys_def flag_name_def flag_defs py_upper_def up_char_def leaf_key_def)

lemma leaf_keyword: "utf8_ok l \<Longrightarrow> leaf_key lib (if wanted then ''KEYWORD'' else ''UNKEYWORD'') tok (LiteralStr l # rest)
    = Inr (CrKeyword l wanted, rest)"
  by (cases wanted) (simp_all add: leaf_key_def flag_keys_def)

lemma leaf_uid: "set_ok q \<Longrightarrow> leaf_key lib ''UID'' tok (Atom (print_set q) # rest) = Inr (CrUidSet q, rest)"
  by (simp add: leaf_key_def flag_keys_def seqset_of_def parse_print_set)

text \<open>A key that none of the earlier branches of \<open>leaf_key\<close> handles.\<close>

definition late_key :: "str \<Rightarrow> bool" where
  "late_key nm \<longleftrightarrow> nm \<noteq> ''ALL'' \<and> map_of flag_keys nm = None \<and> nm \<noteq> ''NEW'' \<and> nm \<noteq> ''OLD'' \<and> nm \<noteq> ''RECENT''
     \<and> nm \<noteq> ''KEYWORD'' \<and> nm \<noteq> ''UNKEYWORD'' \<and> nm \<noteq> ''UID'' \<and> nm \<notin> set date_keys \<and> py_upper nm = nm
     \<and> nm \<noteq> ''NOT'' \<and> nm \<noteq> ''OR''"

lemma late_keys: "list_all late_key (''LARGER'' # ''SMALLER'' # text_keys)"
  by code_simp

lemma text_not_size: "nm \<in> set text_keys \<Longrightarrow> nm \<noteq> ''LARGER'' \<and> nm \<noteq> ''SMALLER''"
  by (auto simp: text_keys_def)

lemma late_key_cases: "nm = ''LARGER'' \<or> nm = ''SMALLER'' \<or> nm \<in> set text_keys \<Longrightarrow> late_key nm"
  using late_keys by (auto simp: list_all_iff)

lemma leaf_size:
  assumes "nm = ''LARGER'' \<or> nm = ''SMALLER''" and "short_number n"
  shows "leaf_key lib nm tok (Atom (nat_str n) # rest) = Inr (CrSize nm n, rest) \<and> late_key nm"
proof -
  have k: "late_key nm" using assms(1) late_key_cases by blast
  then show ?thesis
    unfolding leaf_key_def late_key_def by (simp only: if_False option.case if_P [OF assms(1)] simp_thms k)
      (simp add: assms py_int_nat_str)
qed

lemma leaf_text:
  assumes "nm \<in> set text_keys" and "utf8_ok n" and "sl_casefold lib n = n"
  shows "leaf_key lib nm tok (LiteralStr n # rest) = Inr (CrText nm n, rest) \<and> late_key nm"
proof -
  have k: "late_key nm" using assms(1) late_key_cases by blast
  then show ?thesis
    using text_not_size [OF assms(1)] unfolding leaf_key_def late_key_def
    by (simp only: if_False if_True option.case simp_thms assms(1)) (simp add: assms needle_def)
qed

lemma leaf_header:
  "utf8_ok f \<Longrightarrow> utf8_ok n \<Longrightarrow> sl_casefold lib n = n \<Longrightarrow>
   leaf_key lib ''HEADER'' tok (LiteralStr f # LiteralStr n # rest) = Inr (CrHeader f n, rest)"
  by (simp add: leaf_key_def flag_keys_def date_keys_def text_keys_def needle_def next_tok_def)

lemma leaf_all: "leaf_key lib ''ALL'' tok rest = Inr (CrAll, rest)" "leaf_key lib ''NEW'' tok rest = Inr (CrNone, rest)"
  by (simp_all add: leaf_key_def flag_keys_def)

lemma parse_key_leaf:
  "py_upper v = v \<Longrightarrow> v \<noteq> ''NOT'' \<Longrightarrow> v \<noteq> ''OR'' \<Longrightarrow> parse_key lib (Atom v # rest) = leaf_key lib v (Atom v) rest"
  by (simp add: parse_key.simps(3))

lemma print_crit_Cons: "crit_ok lib c \<Longrightarrow> \<exists>t ts. print_crit c = t # ts"
  by (cases c) auto

lemma parse_keys_print:
  assumes "\<And>c rest. c \<in> set cs \<Longrightarrow> parse_key lib (print_crit c @ rest) = Inr (c, rest)"
    and "\<forall>c \<in> set cs. crit_ok lib c"
  shows "parse_keys lib (concat (map print_crit cs)) = Inr cs"
  using assms
proof (induction cs)
  case (Cons c cs)
  obtain t ts where t: "print_crit c = t # ts" using print_crit_Cons Cons.prems(2) by fastforce
  have "parse_key lib (t # ts @ concat (map print_crit cs)) = Inr (c, concat (map print_crit cs))"
    using Cons.prems(1) [of c] by (simp add: t)
  then show ?case using Cons by (simp add: t parse_keys.simps(2))
qed simp

lemma parse_print_crit: "crit_ok lib c \<Longrightarrow> parse_key lib (print_crit c @ rest) = Inr (c, rest)"
proof (induction c arbitrary: rest)
  case (CrAnd cs)
  have "parse_keys lib (concat (map print_crit cs)) = Inr cs"
    using CrAnd by (intro parse_keys_print) (auto simp: list_all_iff)
  then show ?case using CrAnd.prems by (simp add: parse_key.simps(2))
next
  case (CrSeqSet q)
  then have "print_set q \<noteq> ''NOT''" "print_set q \<noteq> ''OR''"
    using print_set_hd [of q] by (auto simp: is_digit_def)
  then show ?case using CrSeqSet by (simp add: parse_key_leaf py_upper_print_set leaf_seqset)
next
  case (CrFlag f wanted)
  then show ?case using leaf_flag [of f wanted] by (simp add: parse_key_leaf)
next
  case (CrSize nm n)
  then show ?case using leaf_size [of nm n lib] by (simp add: parse_key_leaf late_key_def)
next
  case (CrText nm n)
  then show ?case using leaf_text [of nm n lib] by (simp add: parse_key_leaf late_key_def)
next
  case (CrKeyword l wanted)
  then show ?case using leaf_keyword [of l lib wanted] by (cases wanted) (simp_all add: parse_key_leaf)
qed (simp_all add: parse_key_leaf parse_key.simps(3) leaf_all leaf_uid leaf_header)

subsection \<open>Properties\<close>






end
