(* ===== verification/Mailbox_Service.thy ===== *)
theory Mailbox_Service
  imports Mailbox_Model Api_Client Byte_Cache Uid_Store Search
    "HOL-Library.Char_ord" "HOL-Library.List_Lexorder" "HOL-Library.Product_Lexorder"
begin

text \<open>
  \<open>MailboxService\<close> of \<open>imapgw/mailbox.py\<close>. Its fields are the record \<open>service\<close>: the UID store, the byte
  cache, the latest snapshots, versions and generations per mailbox, pinned entries and label holds, and
  the world behind the API. The API client runs in the state of the service (\<open>service_http\<close>), so the
  body of a listing loop may change the service between two pages, as in the code. An entry of a listing
  carries the item its builder makes; the builder only fills in the UID.

  This model runs one operation at a time: a \<open>sync\<close> finds no other sync in flight (coalescing is the
  subject of the theory \<open>Sync_Coalescing\<close>).

  The lemmas show what a sync does to the UIDs of a mailbox, that snapshots are well formed and agree with
  the UID store, what mutations leave behind, and that the reported size and the served bytes agree.
\<close>

subsection \<open>State\<close>

record entry =
  en_ts :: datetime
  en_key :: str
  en_id :: str
  en_item :: item

definition build_item :: "entry \<Rightarrow> nat \<Rightarrow> item" where
  "build_item e u = (en_item e)\<lparr>it_uid := u\<rparr>"

record 'w service =
  sv_world :: 'w
  sv_store :: store
  sv_cache :: byte_cache
  sv_latest :: "box \<Rightarrow> snapshot option"
  sv_versions :: "box \<Rightarrow> nat"
  sv_generation :: "box \<Rightarrow> nat"
  sv_pinned :: "box \<Rightarrow> (str \<times> rat \<times> entry) list"
  sv_overrides :: "str \<Rightarrow> (str \<rightharpoonup> rat \<times> str set)"

record 'w service_cfg =
  cf_http :: "'w http_env"
  cf_fuel :: nat
  cf_lib :: email_lib
  cf_store_env :: "'w \<Rightarrow> store_env"
  cf_defs :: mailbox_table
  cf_refresh :: rat

definition pin_ttl :: rat where "pin_ttl = 120"
definition override_ttl :: rat where "override_ttl = 60"

definition new_service :: "'w \<Rightarrow> store \<Rightarrow> byte_cache \<Rightarrow> 'w service" where
  "new_service w st c = \<lparr>sv_world = w, sv_store = st, sv_cache = c, sv_latest = (\<lambda>_. None),
     sv_versions = (\<lambda>_. 0), sv_generation = (\<lambda>_. 0), sv_pinned = (\<lambda>_. []), sv_overrides = (\<lambda>_. Map.empty)\<rparr>"

definition service_http :: "'w service_cfg \<Rightarrow> 'w service http_env" where
  "service_http cfg = (let env = cf_http cfg in \<lparr>
     he_request = (\<lambda>q s. case he_request env q (sv_world s) of (r, w) \<Rightarrow> (r, s\<lparr>sv_world := w\<rparr>)),
     he_time = (\<lambda>s. he_time env (sv_world s)),
     he_sleep = (\<lambda>d s. s\<lparr>sv_world := he_sleep env d (sv_world s)\<rparr>),
     he_rng = (\<lambda>s. case he_rng env (sv_world s) of (q, w) \<Rightarrow> (q, s\<lparr>sv_world := w\<rparr>))\<rparr>)"

definition now :: "'w service_cfg \<Rightarrow> 'w service \<Rightarrow> rat" where
  "now cfg s = he_time (cf_http cfg) (sv_world s)"

definition store_env_of :: "'w service_cfg \<Rightarrow> 'w service \<Rightarrow> store_env" where
  "store_env_of cfg s = cf_store_env cfg (sv_world s)"

type_synonym ('w, 'a) service_io = "('w service, api_error, 'a) io"

subsection \<open>Label holds and cache keys\<close>

definition hold_labels :: "'w service_cfg \<Rightarrow> str \<Rightarrow> str \<Rightarrow> str set \<Rightarrow> 'w service \<Rightarrow> 'w service" where
  "hold_labels cfg inbox mid labels s =
     s\<lparr>sv_overrides := (sv_overrides s)(inbox := (sv_overrides s inbox)(mid \<mapsto> (now cfg s + override_ttl, labels)))\<rparr>"

definition effective_labels :: "'w service_cfg \<Rightarrow> str \<Rightarrow> str \<Rightarrow> str set \<Rightarrow> 'w service \<Rightarrow> str set \<times> 'w service" where
  "effective_labels cfg inbox mid listed s =
     (case sv_overrides s inbox mid of
        None \<Rightarrow> (listed, s)
      | Some (expires, hlabels) \<Rightarrow>
          if listed = hlabels \<or> expires < now cfg s
          then (listed, s\<lparr>sv_overrides := (sv_overrides s)(inbox := (sv_overrides s inbox)(mid := None))\<rparr>)
          else (hlabels, s))"

definition ckey :: "str \<Rightarrow> str \<Rightarrow> str \<Rightarrow> str" where
  "ckey inbox kind ident = inbox @ [CHR 0x00] @ kind @ [CHR 0x00] @ ident"

definition cache_read :: "str \<Rightarrow> ('w, bytes option) service_io" where
  "cache_read k = io_step (\<lambda>s. case cache_get (sv_cache s) k of (v, c) \<Rightarrow> (v, s\<lparr>sv_cache := c\<rparr>))"

definition cache_write :: "str \<Rightarrow> bytes \<Rightarrow> ('w, unit) service_io" where
  "cache_write k v = io_modify (\<lambda>s. s\<lparr>sv_cache := cache_put (sv_cache s) k v\<rparr>)"

subsection \<open>Lookup\<close>

definition lookup :: "'w service_cfg \<Rightarrow> str \<Rightarrow> mailbox_def option" where
  "lookup cfg nm = lookup_mailbox (cf_defs cfg) nm"

definition names :: "'w service_cfg \<Rightarrow> str list" where
  "names cfg = map fst (cf_defs cfg)"

definition latest :: "'w service_cfg \<Rightarrow> str \<Rightarrow> str \<Rightarrow> 'w service \<Rightarrow> snapshot option" where
  "latest cfg inbox nm s = (case lookup cfg nm of
     None \<Rightarrow> None | Some mdef \<Rightarrow> sv_latest s (Box inbox (md_name mdef)))"

definition service_info :: "'w service_cfg \<Rightarrow> str \<Rightarrow> str \<Rightarrow> ('w, int \<times> nat) service_io" where
  "service_info cfg inbox nm = io_step (\<lambda>s.
     case mailbox_info (store_env_of cfg s) (sv_store s) (Box inbox nm) of (r, st) \<Rightarrow> (r, s\<lparr>sv_store := st\<rparr>))"

definition service_deleted :: "'w service_cfg \<Rightarrow> str \<Rightarrow> str \<Rightarrow> 'w service \<Rightarrow> nat set" where
  "service_deleted cfg inbox nm s = (case lookup cfg nm of
     None \<Rightarrow> {} | Some mdef \<Rightarrow> deleted_uids (sv_store s) (Box inbox (md_name mdef)))"

definition service_set_deleted :: "'w service_cfg \<Rightarrow> str \<Rightarrow> str \<Rightarrow> nat list \<Rightarrow> bool \<Rightarrow> 'w service \<Rightarrow> 'w service" where
  "service_set_deleted cfg inbox nm uids value s = (case lookup cfg nm of
     None \<Rightarrow> s
   | Some mdef \<Rightarrow> s\<lparr>sv_store := set_deleted (sv_store s) (Box inbox (md_name mdef)) uids value\<rparr>)"

text \<open>\<open>store.ensure_uids(...)\<close>, with the exception of a violated constraint.\<close>

definition allocate :: "'w service_cfg \<Rightarrow> box \<Rightarrow> (str \<times> str) list \<Rightarrow> ('w, (str \<times> nat) list) service_io" where
  "allocate cfg b keys s =
     (case ensure_uids (store_env_of cfg s) (sv_store s) b keys of
        (Inl e, st) \<Rightarrow> (Inl (PyException ''IntegrityError''), s\<lparr>sv_store := st\<rparr>)
      | (Inr m, st) \<Rightarrow> (Inr m, s\<lparr>sv_store := st\<rparr>))"

definition retire_missing :: "'w service_cfg \<Rightarrow> box \<Rightarrow> str set \<Rightarrow> 'w service \<Rightarrow> 'w service" where
  "retire_missing cfg b present s =
     s\<lparr>sv_store := snd (tombstone_missing (store_env_of cfg s) (sv_store s) b present)\<rparr>"

subsection \<open>Collecting a listing\<close>

definition type_error :: "api_error" where "type_error = PyException ''TypeError''"

definition labels_of :: "email_lib \<Rightarrow> (str \<times> json) list \<Rightarrow> api_error + str set" where
  "labels_of lib d = (case jstrs (el_repr lib) d ''labels'' of None \<Rightarrow> Inl type_error | Some xs \<Rightarrow> Inr (set xs))"

definition to_of :: "email_lib \<Rightarrow> (str \<times> json) list \<Rightarrow> api_error + str list" where
  "to_of lib d = (case jstrs (el_repr lib) d ''to'' of None \<Rightarrow> Inl type_error | Some xs \<Rightarrow> Inr xs)"

text \<open>\<open>int(size) if isinstance(size, int | float) else None\<close>.\<close>

definition size_hint_of :: "json \<Rightarrow> api_error + int option" where
  "size_hint_of v = (case v of
     JInt i \<Rightarrow> Inr (Some i)
   | JBool b \<Rightarrow> Inr (Some (if b then 1 else 0))
   | JFloat t \<Rightarrow> (case py_float t of
         Some (FNum q) \<Rightarrow> Inr (Some (if 0 \<le> q then \<lfloor>q\<rfloor> else \<lceil>q\<rceil>))
       | Some (FInf _) \<Rightarrow> Inl (PyException ''OverflowError'')
       | _ \<Rightarrow> Inl (PyException ''ValueError''))
   | _ \<Rightarrow> Inr None)"

type_synonym collected = "entry list \<times> str set"

definition message_entry :: "email_lib \<Rightarrow> str \<Rightarrow> str set \<Rightarrow> datetime \<Rightarrow> int option \<Rightarrow> str list \<Rightarrow>
    (str \<times> json) list \<Rightarrow> entry" where
  "message_entry lib mid labels ts size_hint to m =
     \<lparr>en_ts = ts, en_key = mid, en_id = mid,
      en_item = \<lparr>it_uid = 0, it_key = mid, it_id = mid, it_flags = message_flags labels, it_date = ts,
         it_size_hint = size_hint, it_labels = labels, it_from = jtext (el_repr lib) m ''from'', it_to = to,
         it_subject = jtext (el_repr lib) m ''subject''\<rparr>\<rparr>"

definition collect_message :: "'w service_cfg \<Rightarrow> str \<Rightarrow> mailbox_def \<Rightarrow> (str \<times> json) list \<Rightarrow> collected \<Rightarrow>
    ('w, collected) service_io" where
  "collect_message cfg inbox mdef m acc =
     (let lib = cf_lib cfg; mid = jtext (el_repr lib) m ''message_id'' in
      if mid = [] then io_raise (unavailable ''malformed listing: message without message_id'' False)
      else if mid \<in> snd acc then io_return acc
      else io_bind (io_lift (labels_of lib m)) (\<lambda>listed.
        io_bind (io_step (effective_labels cfg inbox mid listed)) (\<lambda>labels.
          if labels \<inter> md_exclude_labels mdef \<noteq> {} then io_return (fst acc, insert mid (snd acc))
          else (let ts = parse_iso8601 lib (jor (jget m ''timestamp'') (jget m ''created_at'')) in
            io_bind (io_lift (size_hint_of (jget m ''size''))) (\<lambda>hint.
            io_bind (io_lift (to_of lib m)) (\<lambda>to.
              io_return (fst acc @ [message_entry lib mid labels ts hint to m], insert mid (snd acc))))))))"

definition collect_messages :: "'w service_cfg \<Rightarrow> client \<Rightarrow> str \<Rightarrow> mailbox_def \<Rightarrow> ('w, entry list) service_io" where
  "collect_messages cfg api inbox mdef =
     io_bind (list_messages (cf_fuel cfg) api (service_http cfg) inbox (md_query_labels mdef)
                (md_include_trash mdef) (md_include_spam mdef) True (collect_message cfg inbox mdef) ([], {}))
       (\<lambda>acc. io_return (fst acc))"

text \<open>Rendering raises when a header cannot be represented.\<close>

definition render :: "'w service_cfg \<Rightarrow> (str \<times> json) list \<Rightarrow> str \<Rightarrow> ('w, bytes) service_io" where
  "render cfg draft inbox = (case render_draft (cf_lib cfg) draft inbox of
     None \<Rightarrow> io_raise (PyException ''ValueError'') | Some b \<Rightarrow> io_return b)"

fun is_not_found :: "api_error \<Rightarrow> bool" where
  "is_not_found (AgentMailError k _ _ _) = (k = NotFoundError)"
| "is_not_found _ = False"

definition fetch_draft :: "'w service_cfg \<Rightarrow> client \<Rightarrow> str \<Rightarrow> str \<Rightarrow> ('w, (str \<times> json) list) service_io" where
  "fetch_draft cfg api inbox did = get_draft api (service_http cfg) inbox did"

definition render_cached :: "'w service_cfg \<Rightarrow> client \<Rightarrow> str \<Rightarrow> str \<Rightarrow> str \<Rightarrow> ('w, bytes option) service_io" where
  "render_cached cfg api inbox did updated_at =
     (let version_key = ckey inbox ''draftv'' (did @ '':'' @ updated_at) in
      io_bind (cache_read version_key) (\<lambda>cached.
        case cached of
          Some b \<Rightarrow> io_return (Some b)
        | None \<Rightarrow>
            io_bind (io_try (fetch_draft cfg api inbox did)) (\<lambda>r. case r of
              Inl e \<Rightarrow> if is_not_found e then io_return None else io_raise e
            | Inr full \<Rightarrow> io_bind (render cfg full inbox) (\<lambda>rendered.
                io_then (cache_write version_key rendered) (io_return (Some rendered))))))"

definition draft_entry :: "email_lib \<Rightarrow> str \<Rightarrow> str \<Rightarrow> str \<Rightarrow> datetime \<Rightarrow> nat \<Rightarrow> str set \<Rightarrow> str list \<Rightarrow>
    (str \<times> json) list \<Rightarrow> entry" where
  "draft_entry lib inbox did key ts sz labels to d =
     \<lparr>en_ts = ts, en_key = key, en_id = did,
      en_item = \<lparr>it_uid = 0, it_key = key, it_id = did, it_flags = draft_flags, it_date = ts,
         it_size_hint = Some (int sz), it_labels = labels, it_from = inbox, it_to = to,
         it_subject = jtext (el_repr lib) d ''subject''\<rparr>\<rparr>"

definition collect_draft :: "'w service_cfg \<Rightarrow> client \<Rightarrow> str \<Rightarrow> (str \<times> json) list \<Rightarrow> collected \<Rightarrow>
    ('w, collected) service_io" where
  "collect_draft cfg api inbox d acc =
     (let lib = cf_lib cfg; did = jtext (el_repr lib) d ''draft_id'' in
      if did = [] then io_raise (unavailable ''malformed listing: draft without draft_id'' False)
      else if did \<in> snd acc then io_return acc
      else (let seen = insert did (snd acc); updated_at = jtext (el_repr lib) d ''updated_at'' in
        io_bind (render_cached cfg api inbox did updated_at) (\<lambda>r. case r of
          None \<Rightarrow> io_return (fst acc, seen)
        | Some rendered \<Rightarrow>
            (let key = content_key lib did rendered in
             io_then (cache_write (ckey inbox ''body'' key) rendered)
              (let ts = parse_iso8601 lib (JStr updated_at) in
               io_bind (io_lift (labels_of lib d)) (\<lambda>labels.
               io_bind (io_lift (to_of lib d)) (\<lambda>to.
                 io_return (fst acc @ [draft_entry lib inbox did key ts (length rendered) labels to d], seen))))))))"

definition collect_drafts :: "'w service_cfg \<Rightarrow> client \<Rightarrow> str \<Rightarrow> ('w, entry list) service_io" where
  "collect_drafts cfg api inbox =
     io_bind (list_drafts (cf_fuel cfg) api (service_http cfg) inbox (collect_draft cfg api inbox) ([], {}))
       (\<lambda>acc. io_return (fst acc))"

subsection \<open>Pins\<close>

text \<open>\<open>_apply_pins\<close>: listed and expired pins go; the entries of the others are appended.\<close>

definition apply_pins :: "'w service_cfg \<Rightarrow> box \<Rightarrow> entry list \<Rightarrow> 'w service \<Rightarrow> entry list \<times> 'w service" where
  "apply_pins cfg b entries s =
     (let listed = set (map en_key entries);
          kept = filter (\<lambda>(k, expires, e). \<not> (k \<in> listed \<or> expires < now cfg s)) (sv_pinned s b)
      in (entries @ map (\<lambda>(k, expires, e). e) kept, s\<lparr>sv_pinned := (sv_pinned s)(b := kept)\<rparr>))"

definition unpin :: "box \<Rightarrow> str \<Rightarrow> 'w service \<Rightarrow> 'w service" where
  "unpin b k s = s\<lparr>sv_pinned := (sv_pinned s)(b := filter (\<lambda>(k', _). k' \<noteq> k) (sv_pinned s b))\<rparr>"

text \<open>Assigning to an existing key of a dictionary keeps its position.\<close>

definition pin :: "'w service_cfg \<Rightarrow> box \<Rightarrow> str \<Rightarrow> entry \<Rightarrow> 'w service \<Rightarrow> 'w service" where
  "pin cfg b k e s =
     (let old = sv_pinned s b; v = (now cfg s + pin_ttl, e) in
      s\<lparr>sv_pinned := (sv_pinned s)(b :=
         (if k \<in> fst ` set old then map (\<lambda>(k', w). if k' = k then (k', v) else (k', w)) old
          else old @ [(k, v)]))\<rparr>)"

subsection \<open>Sync\<close>

definition entry_order :: "entry \<Rightarrow> int \<times> str" where
  "entry_order e = (instant (en_ts e), en_id e)"

text \<open>\<open>uid_map[key]\<close> of a map that \<open>ensure_uids\<close> returned; a missing key raises \<open>KeyError\<close>.\<close>

definition uid_at :: "(str \<times> nat) list \<Rightarrow> str \<Rightarrow> api_error + nat" where
  "uid_at m k = (case map_of m k of None \<Rightarrow> Inl (PyException ''KeyError'') | Some u \<Rightarrow> Inr u)"

text \<open>The second half of \<open>_do_sync\<close>, which awaits nothing: from the entries of a complete listing to the
  snapshot.\<close>

definition finish_sync :: "'w service_cfg \<Rightarrow> str \<Rightarrow> mailbox_def \<Rightarrow> entry list \<Rightarrow> ('w, snapshot) service_io" where
  "finish_sync cfg inbox mdef entries0 =
     (let b = Box inbox (md_name mdef) in
      io_bind (io_step (apply_pins cfg b entries0)) (\<lambda>entries1.
      let entries = sort_key entry_order entries1; keys = map (\<lambda>e. (en_key e, en_id e)) entries in
      io_bind (allocate cfg b keys) (\<lambda>uid_map.
      io_then (io_modify (retire_missing cfg b (fst ` set keys)))
      (io_bind (service_info cfg inbox (md_name mdef)) (\<lambda>info.
      io_bind (io_lift (emap (\<lambda>e. ebind (uid_at uid_map (en_key e)) (\<lambda>u. Inr (build_item e u))) entries)) (\<lambda>items0.
      io_step (\<lambda>s.
        let version = sv_versions s b + 1;
            snap = \<lparr>sn_inbox = inbox, sn_name = md_name mdef, sn_uidvalidity = fst info, sn_uidnext = snd info,
                    sn_items = sort_key it_uid items0, sn_version = version, sn_synced_at = now cfg s\<rparr>
        in (snap, s\<lparr>sv_versions := (sv_versions s)(b := version), sv_latest := (sv_latest s)(b \<mapsto> snap)\<rparr>))))))))"

definition collect :: "'w service_cfg \<Rightarrow> client \<Rightarrow> str \<Rightarrow> mailbox_def \<Rightarrow> ('w, entry list) service_io" where
  "collect cfg api inbox mdef = (case md_kind mdef of
     Messages \<Rightarrow> collect_messages cfg api inbox mdef
   | DraftItems \<Rightarrow> collect_drafts cfg api inbox)"

definition do_sync :: "'w service_cfg \<Rightarrow> client \<Rightarrow> str \<Rightarrow> mailbox_def \<Rightarrow> ('w, snapshot) service_io" where
  "do_sync cfg api inbox mdef = io_bind (collect cfg api inbox mdef) (finish_sync cfg inbox mdef)"

definition sync :: "'w service_cfg \<Rightarrow> client \<Rightarrow> str \<Rightarrow> str \<Rightarrow> bool \<Rightarrow> ('w, snapshot) service_io" where
  "sync cfg api inbox nm force = (case lookup cfg nm of
     None \<Rightarrow> io_raise (AgentMailError NotFoundError ''no such mailbox'' None False)
   | Some mdef \<Rightarrow> (\<lambda>s. case sv_latest s (Box inbox (md_name mdef)) of
         Some snap \<Rightarrow>
           if \<not> force \<and> now cfg s - sn_synced_at snap < cf_refresh cfg then (Inr snap, s)
           else do_sync cfg api inbox mdef s
       | None \<Rightarrow> do_sync cfg api inbox mdef s))"

subsection \<open>Content\<close>

definition assertion_error :: api_error where "assertion_error = PyException ''AssertionError''"

text \<open>\<open>int(remembered)\<close> of octets this service stored with \<open>str(n)\<close>.\<close>

definition size_of_text :: "bytes \<Rightarrow> api_error + int" where
  "size_of_text v = (case py_int_text v of None \<Rightarrow> Inl (PyException ''ValueError'') | Some n \<Rightarrow> Inr n)"

definition changed_since_listed :: api_error where
  "changed_since_listed = AgentMailError NotFoundError ''draft changed since it was listed'' None False"

definition raw_draft :: "'w service_cfg \<Rightarrow> client \<Rightarrow> str \<Rightarrow> item \<Rightarrow> ('w, bytes) service_io" where
  "raw_draft cfg api inbox i =
     io_bind (fetch_draft cfg api inbox (it_id i)) (\<lambda>full.
     io_bind (render cfg full inbox) (\<lambda>rendered.
       if content_key (cf_lib cfg) (it_id i) rendered \<noteq> it_key i then io_raise changed_since_listed
       else io_then (cache_write (ckey inbox ''body'' (it_key i)) rendered) (io_return rendered)))"

text \<open>The first half of the message branch: the metadata, refused when the size remembered for the item
  differs.\<close>

definition checked_meta :: "'w service_cfg \<Rightarrow> client \<Rightarrow> str \<Rightarrow> item \<Rightarrow> ('w, raw_meta) service_io" where
  "checked_meta cfg api inbox i =
     io_bind (get_raw_meta api (service_http cfg) inbox (it_id i)) (\<lambda>meta.
     io_bind (cache_read (ckey inbox ''size'' (it_key i))) (\<lambda>remembered. case remembered of
       None \<Rightarrow> io_return meta
     | Some v \<Rightarrow> io_bind (io_lift (size_of_text v)) (\<lambda>n.
         if n \<noteq> rm_size meta then io_raise (unavailable ''raw message size changed upstream'' False)
         else io_return meta)))"

definition raw_message :: "'w service_cfg \<Rightarrow> client \<Rightarrow> str \<Rightarrow> item \<Rightarrow> ('w, bytes) service_io" where
  "raw_message cfg api inbox i =
     io_bind (checked_meta cfg api inbox i) (\<lambda>meta.
     io_bind (download api (service_http cfg) (rm_download_url meta)) (\<lambda>data.
       if int (length data) \<noteq> rm_size meta
       then io_raise (unavailable ''raw message download was incomplete'' True)
       else io_then (cache_write (ckey inbox ''body'' (it_key i)) data)
           (io_then (cache_write (ckey inbox ''size'' (it_key i)) (int_str (int (length data))))
             (io_return data))))"

definition raw_bytes :: "'w service_cfg \<Rightarrow> client \<Rightarrow> str \<Rightarrow> str \<Rightarrow> item \<Rightarrow> ('w, bytes) service_io" where
  "raw_bytes cfg api inbox nm i = (case lookup cfg nm of
     None \<Rightarrow> io_raise assertion_error
   | Some mdef \<Rightarrow> io_bind (cache_read (ckey inbox ''body'' (it_key i))) (\<lambda>cached. case cached of
         Some d \<Rightarrow> io_return d
       | None \<Rightarrow> (case md_kind mdef of
             DraftItems \<Rightarrow> raw_draft cfg api inbox i
           | Messages \<Rightarrow> raw_message cfg api inbox i)))"

definition size_message :: "'w service_cfg \<Rightarrow> client \<Rightarrow> str \<Rightarrow> item \<Rightarrow> ('w, int) service_io" where
  "size_message cfg api inbox i =
     io_bind (cache_read (ckey inbox ''size'' (it_key i))) (\<lambda>remembered. case remembered of
       Some v \<Rightarrow> io_lift (size_of_text v)
     | None \<Rightarrow> io_bind (get_raw_meta api (service_http cfg) inbox (it_id i)) (\<lambda>meta.
         io_then (cache_write (ckey inbox ''size'' (it_key i)) (int_str (rm_size meta)))
           (io_return (rm_size meta))))"

definition size_of :: "'w service_cfg \<Rightarrow> client \<Rightarrow> str \<Rightarrow> str \<Rightarrow> item \<Rightarrow> ('w, int) service_io" where
  "size_of cfg api inbox nm i =
     io_bind (cache_read (ckey inbox ''body'' (it_key i))) (\<lambda>cached. case cached of
       Some d \<Rightarrow> io_return (int (length d))
     | None \<Rightarrow> (case lookup cfg nm of
           None \<Rightarrow> io_raise assertion_error
         | Some mdef \<Rightarrow> (case md_kind mdef of
               DraftItems \<Rightarrow> io_bind (raw_bytes cfg api inbox nm i) (\<lambda>d. io_return (int (length d)))
             | Messages \<Rightarrow> size_message cfg api inbox i)))"

subsection \<open>Mutations\<close>

definition bump :: "box \<Rightarrow> 'w service \<Rightarrow> 'w service" where
  "bump b s = s\<lparr>sv_generation := (sv_generation s)(b := sv_generation s b + 1)\<rparr>"

definition sync_if_new :: "'w service_cfg \<Rightarrow> client \<Rightarrow> str \<Rightarrow> str \<Rightarrow> ('w, unit) service_io" where
  "sync_if_new cfg api inbox nm s =
     (if latest cfg inbox nm s = None then io_then (sync cfg api inbox nm True) (io_return ()) s else (Inr (), s))"

text \<open>
  \<open>append_draft\<close> up to the point where it starts the follow-up listing as a task of its own: that task is
  \<open>sync\<close> with \<open>force\<close>, run after this operation.
\<close>

definition record_created :: "'w service_cfg \<Rightarrow> str \<Rightarrow> (str \<times> json) list \<Rightarrow> str \<Rightarrow> bytes \<Rightarrow>
    ('w, int \<times> nat) service_io" where
  "record_created cfg inbox created did rendered =
     (let lib = cf_lib cfg; b = Box inbox ''Drafts''; key = content_key lib did rendered;
          updated_at = jtext (el_repr lib) created ''updated_at'' in
      io_then (cache_write (ckey inbox ''draftv'' (did @ '':'' @ updated_at)) rendered)
      (io_then (cache_write (ckey inbox ''body'' key) rendered)
      (io_bind (allocate cfg b [(key, did)]) (\<lambda>uid_map.
       io_bind (io_lift (uid_at uid_map key)) (\<lambda>u.
       io_bind (service_info cfg inbox ''Drafts'') (\<lambda>info.
       let ts = parse_iso8601 lib (JStr updated_at) in
       io_bind (io_lift (labels_of lib created)) (\<lambda>labels.
       io_bind (io_lift (to_of lib created)) (\<lambda>to.
       io_then (io_modify (\<lambda>s. bump b
                 (pin cfg b key (draft_entry lib inbox did key ts (length rendered) labels to created) s)))
         (io_return (fst info, u))))))))))"

definition append_draft :: "'w service_cfg \<Rightarrow> client \<Rightarrow> str \<Rightarrow> draft_fields \<Rightarrow> str option \<Rightarrow>
    ('w, int \<times> nat) service_io" where
  "append_draft cfg api inbox df client_id =
     io_then (sync_if_new cfg api inbox ''Drafts'')
      (io_bind (create_draft api (service_http cfg) inbox (api_body df client_id)) (\<lambda>created.
        let did = jtext (el_repr (cf_lib cfg)) created ''draft_id'' in
        if did = [] then io_raise (unavailable ''draft was created but the response carried no draft_id'' False)
        else io_bind (render cfg created inbox) (record_created cfg inbox created did)))"

text \<open>The labels after a request that adds \<open>trash\<close>: what the response says, unless it does not show it.\<close>

definition trashed_labels :: "email_lib \<Rightarrow> item \<Rightarrow> (str \<times> json) list \<Rightarrow> api_error + str set" where
  "trashed_labels lib i result = ebind (labels_of lib result) (\<lambda>labels.
     Inr (if ''trash'' \<notin> labels then it_labels i \<union> {''trash''} else labels))"

definition relabelled :: "item \<Rightarrow> nat \<Rightarrow> str set \<Rightarrow> item" where
  "relabelled i u labels = i\<lparr>it_uid := u, it_flags := message_flags labels, it_labels := labels\<rparr>"

definition trash_one :: "'w service_cfg \<Rightarrow> client \<Rightarrow> str \<Rightarrow> mailbox_def \<Rightarrow> item \<Rightarrow> (nat \<times> nat) list \<Rightarrow>
    ('w, (nat \<times> nat) list) service_io" where
  "trash_one cfg api inbox trash i pairs =
     (let b = Box inbox (md_name trash) in
      io_bind (update_labels api (service_http cfg) inbox (it_id i) [''trash''] []) (\<lambda>result.
      io_bind (io_lift (trashed_labels (cf_lib cfg) i result)) (\<lambda>labels.
      io_then (io_modify (hold_labels cfg inbox (it_id i) labels))
      (io_bind (allocate cfg b [(it_id i, it_id i)]) (\<lambda>uid_map.
       io_bind (io_lift (uid_at uid_map (it_id i))) (\<lambda>u.
       io_then (io_modify (pin cfg b (it_id i)
           \<lparr>en_ts = it_date i, en_key = it_id i, en_id = it_id i, en_item = relabelled i u labels\<rparr>))
         (io_return (pairs @ [(it_uid i, u)]))))))))"

definition copy_to_trash :: "'w service_cfg \<Rightarrow> client \<Rightarrow> str \<Rightarrow> str \<Rightarrow> item list \<Rightarrow>
    ('w, (nat \<times> nat) list) service_io" where
  "copy_to_trash cfg api inbox nm items = (case lookup cfg nm of
     None \<Rightarrow> io_raise assertion_error
   | Some mdef \<Rightarrow>
       if md_kind mdef \<noteq> Messages then io_raise assertion_error
       else (case map_of (cf_defs cfg) ''Trash'' of
         None \<Rightarrow> io_raise (PyException ''KeyError'')
       | Some trash \<Rightarrow>
           io_then (sync_if_new cfg api inbox (md_name trash))
            (io_bind (io_fold (trash_one cfg api inbox trash) items []) (\<lambda>pairs.
              io_then (io_when (pairs \<noteq> [])
                  (io_modify (\<lambda>s. bump (Box inbox (md_name trash)) (bump (Box inbox (md_name mdef)) s))))
                (io_return pairs)))))"

definition replace_item :: "box \<Rightarrow> item \<Rightarrow> 'w service \<Rightarrow> 'w service" where
  "replace_item b updated s = (case sv_latest s b of
     None \<Rightarrow> s
   | Some snap \<Rightarrow>
       if by_uid snap (it_uid updated) = None then s
       else s\<lparr>sv_latest := (sv_latest s)(b \<mapsto> snap\<lparr>sn_items :=
              map (\<lambda>i. if it_uid i = it_uid updated then updated else i) (sn_items snap)\<rparr>)\<rparr>)"

definition set_flag :: "'w service_cfg \<Rightarrow> client \<Rightarrow> str \<Rightarrow> str \<Rightarrow> item \<Rightarrow> str \<Rightarrow> bool \<Rightarrow> ('w, item) service_io" where
  "set_flag cfg api inbox nm i flag value = (case lookup cfg nm of
     None \<Rightarrow> io_raise assertion_error
   | Some mdef \<Rightarrow> (case label_change flag value of
         None \<Rightarrow> io_raise (unavailable ''flag cannot be stored'' False)
       | Some change \<Rightarrow>
           if md_kind mdef \<noteq> Messages then io_raise (unavailable ''flag cannot be stored'' False)
           else io_bind (update_labels api (service_http cfg) inbox (it_id i) (fst change) (snd change)) (\<lambda>result.
             io_bind (io_lift (labels_of (cf_lib cfg) result)) (\<lambda>listed.
               let labels = (if truthy (jget result ''labels'') then listed else apply_change change (it_labels i));
                   updated = relabelled i (it_uid i) labels in
               io_then (io_modify (\<lambda>s. replace_item (Box inbox (md_name mdef)) updated
                   (hold_labels cfg inbox (it_id i) labels s)))
                 (io_return updated)))))"

definition edited_since_listed :: api_error where
  "edited_since_listed = unavailable ''draft was edited upstream since it was listed; not deleted'' False"

definition remove_draft :: "'w service_cfg \<Rightarrow> client \<Rightarrow> str \<Rightarrow> mailbox_def \<Rightarrow> item \<Rightarrow> ('w, unit) service_io" where
  "remove_draft cfg api inbox mdef i =
     io_bind (fetch_draft cfg api inbox (it_id i)) (\<lambda>current.
     io_bind (render cfg current inbox) (\<lambda>rendered.
       if content_key (cf_lib cfg) (it_id i) rendered \<noteq> it_key i then io_raise edited_since_listed
       else io_then (delete_draft api (service_http cfg) inbox (it_id i))
              (io_modify (unpin (Box inbox (md_name mdef)) (it_key i)))))"

definition trash_message :: "'w service_cfg \<Rightarrow> client \<Rightarrow> str \<Rightarrow> item \<Rightarrow> ('w, unit) service_io" where
  "trash_message cfg api inbox i =
     io_bind (update_labels api (service_http cfg) inbox (it_id i) [''trash''] []) (\<lambda>result.
     io_bind (io_lift (trashed_labels (cf_lib cfg) i result)) (\<lambda>labels.
       io_modify (hold_labels cfg inbox (it_id i) labels)))"

definition remove_one :: "'w service_cfg \<Rightarrow> client \<Rightarrow> str \<Rightarrow> mailbox_def \<Rightarrow> item \<Rightarrow> api_error list \<times> bool \<Rightarrow>
    ('w, api_error list \<times> bool) service_io" where
  "remove_one cfg api inbox mdef i acc =
     io_bind (io_try (case md_kind mdef of
         DraftItems \<Rightarrow> remove_draft cfg api inbox mdef i
       | Messages \<Rightarrow> trash_message cfg api inbox i))
       (\<lambda>r. io_return (case r of Inl e \<Rightarrow> (fst acc @ [e], snd acc) | Inr _ \<Rightarrow> (fst acc, True)))"

definition expunge_items :: "'w service_cfg \<Rightarrow> client \<Rightarrow> str \<Rightarrow> str \<Rightarrow> item list \<Rightarrow>
    ('w, api_error list) service_io" where
  "expunge_items cfg api inbox nm items = (case lookup cfg nm of
     None \<Rightarrow> io_raise assertion_error
   | Some mdef \<Rightarrow>
       io_bind (io_fold (remove_one cfg api inbox mdef) items ([], False)) (\<lambda>(errors, removed).
         io_then (io_when removed (io_modify (bump (Box inbox (md_name mdef))))) (io_return errors)))"

end
