(* ===== verification/Mailbox_Sync.thy ===== *)
theory Mailbox_Sync
  imports Mailbox_Service
begin

text \<open>
  Correctness of the sync of \<open>imapgw/mailbox.py\<close>: what a listing loop leaves alone and what it collects,
  what the second half of \<open>_do_sync\<close> computes, and, from these and the contract of the UID store
  (\<open>store_uids\<close>), what a client can rely on: UIDs ascend, are stable and are never invented or lost by a
  failed listing, and what the gateway wrote itself stays visible until the listing catches up.
\<close>

subsection \<open>What a listing loop leaves alone\<close>

text \<open>Everything of the service but the world, the cache and the label holds.\<close>

definition same_tables :: "'w service \<Rightarrow> 'w service \<Rightarrow> bool" where
  "same_tables s0 s \<longleftrightarrow> sv_store s = sv_store s0 \<and> sv_pinned s = sv_pinned s0 \<and> sv_latest s = sv_latest s0
     \<and> sv_versions s = sv_versions s0 \<and> sv_generation s = sv_generation s0"

lemma same_tables_refl [simp]: "same_tables s s"
  by (simp add: same_tables_def)

lemma service_http_keeps:
  "(\<And>s w. P s \<Longrightarrow> P (s\<lparr>sv_world := w\<rparr>)) \<Longrightarrow> env_keeps P R (service_http cfg)"
  by (auto simp: env_keeps_def service_http_def Let_def split: prod.splits)

lemma same_tables_http [simp]: "env_keeps (same_tables s0) R (service_http cfg)"
  by (rule service_http_keeps) (simp add: same_tables_def)

lemma same_tables_steps [simp]:
  "io_keeps (same_tables s0) (cache_read k)" "io_keeps (same_tables s0) (cache_write k v)"
  "io_keeps (same_tables s0) (io_step (effective_labels cfg inbox mid listed))"
  by (auto simp: io_keeps_def cache_read_def cache_write_def same_tables_def effective_labels_def
      split: prod.splits option.splits)

lemma render_keeps [simp]: "io_keeps P (render cfg d inbox)"
  by (auto simp: render_def io_keeps_def split: option.splits)

lemma fetch_draft_keeps: "env_keeps P (modest api inbox) (service_http cfg) \<Longrightarrow> io_keeps P (fetch_draft cfg api inbox did)"
  unfolding fetch_draft_def by (rule client_calls_keep)

lemma render_cached_keeps [simp]: "io_keeps (same_tables s0) (render_cached cfg api inbox did u)"
proof -
  have w: "io_keeps (same_tables s0) (io_then (cache_write k r) (io_return (Some r)))" for k r
    by (intro io_keeps_then io_keeps_basic same_tables_steps)
  have f: "io_keeps (same_tables s0) (io_try (fetch_draft cfg api inbox did))"
    by (intro io_keeps_try fetch_draft_keeps same_tables_http)
  show ?thesis unfolding render_cached_def Let_def
    by (intro io_keeps_bind same_tables_steps)
       (auto split: option.splits sum.splits simp del: io_simps intro!: io_keeps_bind f w)
qed

subsection \<open>What a listing loop collects\<close>

definition entry_ok :: "entry \<Rightarrow> bool" where
  "entry_ok e \<longleftrightarrow> it_key (en_item e) = en_key e \<and> it_id (en_item e) = en_id e"

definition messages_ok :: "collected \<Rightarrow> bool" where
  "messages_ok acc \<longleftrightarrow> distinct (map en_key (fst acc)) \<and> en_key ` set (fst acc) \<subseteq> snd acc
     \<and> (\<forall>e \<in> set (fst acc). entry_ok e \<and> en_id e = en_key e)"

definition drafts_ok :: "email_lib \<Rightarrow> collected \<Rightarrow> bool" where
  "drafts_ok lib acc \<longleftrightarrow> distinct (map en_id (fst acc)) \<and> en_id ` set (fst acc) \<subseteq> snd acc
     \<and> (\<forall>e \<in> set (fst acc). entry_ok e \<and> (\<exists>b. en_key e = content_key lib (en_id e) b))"

lemma message_entry_simps [simp]:
  "en_key (message_entry lib mid l ts h to m) = mid" "en_id (message_entry lib mid l ts h to m) = mid"
  "en_ts (message_entry lib mid l ts h to m) = ts" "entry_ok (message_entry lib mid l ts h to m)"
  by (simp_all add: message_entry_def entry_ok_def)

lemma draft_entry_simps [simp]:
  "en_key (draft_entry lib inbox did k ts n l to d) = k" "en_id (draft_entry lib inbox did k ts n l to d) = did"
  "en_ts (draft_entry lib inbox did k ts n l to d) = ts" "entry_ok (draft_entry lib inbox did k ts n l to d)"
  by (simp_all add: draft_entry_def entry_ok_def)

lemma messages_ok_simps [simp]:
  "messages_ok ([], seen)"
  "messages_ok acc \<Longrightarrow> messages_ok (fst acc, insert mid (snd acc))"
  "messages_ok acc \<Longrightarrow> mid \<notin> snd acc \<Longrightarrow>
     messages_ok (fst acc @ [message_entry lib mid l ts h to m], insert mid (snd acc))"
  unfolding messages_ok_def by auto

lemma drafts_ok_simps [simp]:
  "drafts_ok lib ([], seen)"
  "drafts_ok lib acc \<Longrightarrow> drafts_ok lib (fst acc, insert did (snd acc))"
  "drafts_ok lib acc \<Longrightarrow> did \<notin> snd acc \<Longrightarrow>
     drafts_ok lib (fst acc @ [draft_entry lib inbox did (content_key lib did r) ts n l to d], insert did (snd acc))"
  unfolding drafts_ok_def by auto

lemma collect_message_post:
  assumes "messages_ok acc"
  shows "io_post (same_tables s0) (collect_message cfg inbox mdef m acc) (\<lambda>acc' _. messages_ok acc')"
  using assms unfolding collect_message_def Let_def
  by (auto simp del: io_simps intro!: io_post_raise io_post_return io_post_lift
        io_post_bind [where R = "\<lambda>_. True"] io_post_keeps)

lemma collect_draft_post:
  assumes "drafts_ok (cf_lib cfg) acc"
  shows "io_post (same_tables s0) (collect_draft cfg api inbox d acc) (\<lambda>acc' _. drafts_ok (cf_lib cfg) acc')"
  using assms unfolding collect_draft_def Let_def
  by (auto simp del: io_simps split: option.splits intro!: io_post_raise io_post_return
        io_post_lift io_post_bind [where R = "\<lambda>_. True"] io_post_keeps io_post_then)

lemma collect_messages_post:
  "io_post (same_tables s0) (collect_messages cfg api inbox mdef) (\<lambda>es _. \<exists>seen. messages_ok (es, seen))"
  unfolding collect_messages_def list_messages_def
proof (rule io_post_bind [where R = messages_ok], rule paginate_post [where R = "\<lambda>_. True"])
  show "io_post (same_tables s0) (io_return (fst acc)) (\<lambda>es _. \<exists>seen. messages_ok (es, seen))"
    if "messages_ok acc" for acc
    using that by (intro io_post_return exI [of _ "snd acc"]) simp
qed (simp_all add: collect_message_post)

lemma collect_drafts_post:
  "io_post (same_tables s0) (collect_drafts cfg api inbox) (\<lambda>es _. \<exists>seen. drafts_ok (cf_lib cfg) (es, seen))"
  unfolding collect_drafts_def list_drafts_def
proof (rule io_post_bind [where R = "drafts_ok (cf_lib cfg)"], rule paginate_post [where R = "\<lambda>_. True"])
  show "io_post (same_tables s0) (io_return (fst acc)) (\<lambda>es _. \<exists>seen. drafts_ok (cf_lib cfg) (es, seen))"
    if "drafts_ok (cf_lib cfg) acc" for acc
    using that by (intro io_post_return exI [of _ "snd acc"]) simp
qed (simp_all add: collect_draft_post)

subsection \<open>Pins\<close>

definition listing_ok :: "entry list \<Rightarrow> bool" where
  "listing_ok es \<longleftrightarrow> distinct (map en_key es) \<and> list_all entry_ok es"

definition pins_ok :: "(str \<times> rat \<times> entry) list \<Rightarrow> bool" where
  "pins_ok ps \<longleftrightarrow> distinct (map fst ps) \<and> (\<forall>(k, x, e) \<in> set ps. en_key e = k \<and> entry_ok e)"

definition digest_ok :: "email_lib \<Rightarrow> bool" where
  "digest_ok lib \<longleftrightarrow> (\<forall>b. 16 \<le> length (el_sha256 lib b))"

lemma content_key_inj:
  assumes "digest_ok lib" and "content_key lib d b = content_key lib d' b'"
  shows "d = d'"
proof -
  have "length (take 16 (el_sha256 lib b)) = 16" for b using assms(1) by (simp add: digest_ok_def min_absorb2)
  then show ?thesis using assms(2) by (simp add: content_key_def)
qed

lemma messages_listing_ok: "messages_ok (es, seen) \<Longrightarrow> listing_ok es"
  by (simp add: messages_ok_def listing_ok_def list_all_iff)

lemma drafts_listing_ok:
  assumes "digest_ok lib" and "drafts_ok lib (es, seen)"
  shows "listing_ok es"
proof -
  have "inj_on en_key (set es)"
  proof (rule inj_onI)
    fix x y assume xy: "x \<in> set es" "y \<in> set es" and eq: "en_key x = en_key y"
    have ids: "distinct (map en_id es)" using assms(2) by (simp add: drafts_ok_def)
    have "\<exists>b. en_key x = content_key lib (en_id x) b" "\<exists>b. en_key y = content_key lib (en_id y) b"
      using assms(2) xy by (auto simp: drafts_ok_def)
    then have "en_id x = en_id y" using eq content_key_inj [OF assms(1)] by metis
    then show "x = y" using ids xy unfolding distinct_map by (blast dest: inj_onD)
  qed
  then show ?thesis using assms(2)
    by (auto simp: drafts_ok_def listing_ok_def list_all_iff distinct_map)
qed

lemma collect_post:
  assumes "digest_ok (cf_lib cfg)"
  shows "io_post (same_tables s0) (collect cfg api inbox mdef) (\<lambda>es _. listing_ok es)"
proof (cases "md_kind mdef")
  case Messages
  then show ?thesis unfolding collect_def mailbox_kind.case
    by (simp add: io_post_weaken [OF collect_messages_post] messages_listing_ok del: io_simps)
       (blast intro: io_post_weaken [OF collect_messages_post] messages_listing_ok)
next
  case DraftItems
  then show ?thesis unfolding collect_def
    by simp (blast intro: io_post_weaken [OF collect_drafts_post] drafts_listing_ok [OF assms])
qed

definition live_pins :: "'w service_cfg \<Rightarrow> box \<Rightarrow> entry list \<Rightarrow> 'w service \<Rightarrow> (str \<times> rat \<times> entry) list" where
  "live_pins cfg b es s =
     filter (\<lambda>(k, x, e). k \<notin> en_key ` set es \<and> now cfg s \<le> x) (sv_pinned s b)"

lemma apply_pins_eq:
  "apply_pins cfg b es s = (es @ map (\<lambda>(k, x, e). e) (live_pins cfg b es s),
     s\<lparr>sv_pinned := (sv_pinned s)(b := live_pins cfg b es s)\<rparr>)"
proof -
  have "filter (\<lambda>(k, x, e). \<not> (k \<in> set (map en_key es) \<or> x < now cfg s)) (sv_pinned s b) = live_pins cfg b es s"
    unfolding live_pins_def by (rule filter_cong [OF refl]) (auto split: prod.splits)
  then show ?thesis unfolding apply_pins_def by (simp only: Let_def)
qed

lemma pins_ok_live: "pins_ok (sv_pinned s b) \<Longrightarrow> pins_ok (live_pins cfg b es s)"
  unfolding pins_ok_def live_pins_def
  by (auto simp: distinct_map intro: inj_on_subset)

lemma pins_keys: "pins_ok ps \<Longrightarrow> map (en_key \<circ> (\<lambda>(k, x, e). e)) ps = map fst ps"
  by (auto simp: pins_ok_def)

lemma listing_ok_pins:
  assumes "listing_ok es" and "pins_ok (sv_pinned s b)"
  shows "listing_ok (fst (apply_pins cfg b es s))"
proof -
  let ?ps = "live_pins cfg b es s"
  have ok: "pins_ok ?ps" by (rule pins_ok_live [OF assms(2)])
  have "set (map fst ?ps) \<inter> set (map en_key es) = {}" by (auto simp: live_pins_def)
  then have d: "distinct (map en_key es @ map fst ?ps)" using ok assms(1) by (auto simp: pins_ok_def listing_ok_def)
  have e: "list_all entry_ok (map (\<lambda>(k, x, e). e) ?ps)" using ok by (auto simp: pins_ok_def list_all_iff)
  have "map en_key (es @ map (\<lambda>(k, x, e). e) ?ps) = map en_key es @ map fst ?ps"
    by (simp only: map_append map_map pins_keys [OF ok])
  then show ?thesis
    using assms(1) d e unfolding apply_pins_eq listing_ok_def fst_conv list_all_append by (simp only:)
qed

subsection \<open>The second half of a sync\<close>

lemma sort_key_mset_ok: "listing_ok (sort_key f es) = listing_ok es"
proof -
  have "mset (map en_key (sort_key f es)) = mset (map en_key es)" by simp
  then have "distinct (map en_key (sort_key f es)) = distinct (map en_key es)" by (rule mset_eq_imp_distinct_iff)
  then show ?thesis by (simp add: listing_ok_def list_all_iff)
qed

definition entry_keys :: "entry list \<Rightarrow> (str \<times> str) list" where
  "entry_keys es = map (\<lambda>e. (en_key e, en_id e)) (sort_key entry_order es)"

lemma set_entry_keys [simp]: "fst ` set (entry_keys es) = en_key ` set es"
  by (simp add: entry_keys_def image_image)

definition items_for :: "store \<Rightarrow> box \<Rightarrow> entry list \<Rightarrow> item list" where
  "items_for st b es = map (\<lambda>x. build_item x (the (live_of st b (en_key x)))) es"

text \<open>What a sync of a listing does to the store: allocate for the listed and pinned keys, retire the rest.\<close>

definition synced_store :: "'w service_cfg \<Rightarrow> box \<Rightarrow> entry list \<Rightarrow> 'w service \<Rightarrow> store" where
  "synced_store cfg b es s =
     store_uids.reconcile (store_env_of cfg s) (sv_store s) b (entry_keys (fst (apply_pins cfg b es s)))"

lemma emap_uids:
  assumes "\<And>x. x \<in> set es \<Longrightarrow> map_of m (en_key x) \<noteq> None"
  shows "emap (\<lambda>x. ebind (uid_at m (en_key x)) (\<lambda>u. Inr (build_item x u))) es =
     Inr (map (\<lambda>x. build_item x (the (map_of m (en_key x)))) es)"
  using assms
proof (induction es)
  case (Cons a es)
  then obtain u where "map_of m (en_key a) = Some u" by fastforce
  then have "uid_at m (en_key a) = Inr (the (map_of m (en_key a)))" by (simp add: uid_at_def)
  then show ?case using Cons by simp
qed simp

lemma info_synced:
  assumes "store_inv st"
  shows "mailbox_info e (store_uids.reconcile e st b ks) b =
     ((the (validity_of (store_uids.reconcile e st b ks) b), uidnext_of (store_uids.reconcile e st b ks) b),
      store_uids.reconcile e st b ks)"
  by (simp add: mailbox_info_def ensure_mailbox_def store_uids.reconcile_def tombstone_eq
      ensure_uids_eq [OF assms] validity_of_def uidnext_of_def)

lemma finish_sync_eq:
  fixes cfg inbox mdef es s
  defines "b \<equiv> Box inbox (md_name mdef)"
  defines "st \<equiv> synced_store cfg b es s"
  assumes inv: "store_inv (sv_store s)"
  shows "finish_sync cfg inbox mdef es s =
    (let snap = \<lparr>sn_inbox = inbox, sn_name = md_name mdef, sn_uidvalidity = the (validity_of st b),
           sn_uidnext = uidnext_of st b,
           sn_items = sort_key it_uid (items_for st b (sort_key entry_order (fst (apply_pins cfg b es s)))),
           sn_version = sv_versions s b + 1, sn_synced_at = now cfg s\<rparr>
     in (Inr snap, (snd (apply_pins cfg b es s))\<lparr>sv_store := st,
           sv_versions := (sv_versions s)(b := sv_versions s b + 1),
           sv_latest := (sv_latest s)(b \<mapsto> snap)\<rparr>))"
proof -
  define es1 where "es1 = fst (apply_pins cfg b es s)"
  define s1 where "s1 = snd (apply_pins cfg b es s)"
  define ents where "ents = sort_key entry_order es1"
  define e where "e = store_env_of cfg s"
  have s1: "sv_store s1 = sv_store s" "store_env_of cfg s1 = e" "sv_versions s1 = sv_versions s"
    "sv_latest s1 = sv_latest s" "now cfg s1 = now cfg s" "sv_world s1 = sv_world s"
    by (simp_all add: s1_def apply_pins_eq e_def store_env_of_def now_def)
  have keys: "map (\<lambda>x. (en_key x, en_id x)) ents = entry_keys es1"
    by (simp add: ents_def entry_keys_def)
  have env: "store_env_of cfg (s1\<lparr>sv_store := x\<rparr>) = e" "now cfg (s1\<lparr>sv_store := x\<rparr>) = now cfg s" for x
    using s1 by (simp_all add: store_env_of_def now_def)
  obtain m st1 where m: "ensure_uids e (sv_store s) b (entry_keys es1) = (Inr m, st1)"
    and mof: "map_of m = live_of st1 b"
    using store_uids.ensure_result [OF inv, of e b "entry_keys es1"] by (cases "ensure_uids e (sv_store s) b (entry_keys es1)") auto
  have st: "st = snd (tombstone_missing e st1 b (fst ` set (entry_keys es1)))"
    by (simp add: st_def synced_store_def store_uids.reconcile_def e_def es1_def m [unfolded e_def es1_def])
  have inv1: "store_inv st1" using store_uids.ensure_ok [OF inv, of e b "entry_keys es1"] m by simp
  have live: "map_of m (en_key x) = live_of st b (en_key x)" "map_of m (en_key x) \<noteq> None" if "x \<in> set ents" for x
  proof -
    have k: "en_key x \<in> fst ` set (entry_keys es1)" using that by (simp add: ents_def)
    then show "map_of m (en_key x) = live_of st b (en_key x)"
      using store_uids.retire_live [OF inv1] by (simp add: mof st)
    show "map_of m (en_key x) \<noteq> None"
      using store_uids.ensure_covers [OF inv k, of e b] m by (simp add: mof)
  qed
  have items: "emap (\<lambda>x. ebind (uid_at m (en_key x)) (\<lambda>u. Inr (build_item x u))) ents = Inr (items_for st b ents)"
    using live by (subst emap_uids) (auto simp: items_for_def)
  have info: "mailbox_info e st b = ((the (validity_of st b), uidnext_of st b), st)"
    using info_synced [OF inv, of e b "entry_keys es1"] by (simp add: st_def synced_store_def e_def es1_def)
  have tomb: "snd (tombstone_missing e st1 b (en_key ` set es1)) = st" by (simp add: st)
  show ?thesis
    unfolding finish_sync_def Let_def b_def [symmetric]
    by (simp add: es1_def [symmetric] s1_def [symmetric] ents_def [symmetric] io_bind_def io_then_def
        allocate_def s1 keys m env retire_missing_def service_info_def b_def [symmetric] image_image tomb info items)
qed

subsection \<open>The invariant of the service\<close>

definition snapshot_ok :: "store \<Rightarrow> box \<Rightarrow> snapshot \<Rightarrow> bool" where
  "snapshot_ok st b sn \<longleftrightarrow> b = Box (sn_inbox sn) (sn_name sn)
     \<and> sorted_wrt (<) (snapshot_uids sn)
     \<and> (\<forall>i \<in> set (sn_items sn). it_uid i < sn_uidnext sn \<and> (\<exists>ident. owner_of st b (it_uid i) = Some (it_key i, ident)))
     \<and> sn_uidnext sn \<le> uidnext_of st b \<and> validity_of st b = Some (sn_uidvalidity sn)"

definition service_inv :: "'w service \<Rightarrow> bool" where
  "service_inv s \<longleftrightarrow> store_inv (sv_store s) \<and> (\<forall>b. pins_ok (sv_pinned s b))
     \<and> (\<forall>b sn. sv_latest s b = Some sn \<longrightarrow> snapshot_ok (sv_store s) b sn)"

text \<open>What every later state of the store keeps: owners, bounds and UIDVALIDITYs.\<close>

definition store_le :: "store \<Rightarrow> store \<Rightarrow> bool" where
  "store_le st st' \<longleftrightarrow> (\<forall>b u x. owner_of st b u = Some x \<longrightarrow> owner_of st' b u = Some x)
     \<and> (\<forall>b. uidnext_of st b \<le> uidnext_of st' b) \<and> (\<forall>b v. validity_of st b = Some v \<longrightarrow> validity_of st' b = Some v)"

lemma store_le_refl [simp]: "store_le st st"
  by (simp add: store_le_def)

lemma store_le_trans: "store_le a b \<Longrightarrow> store_le b c \<Longrightarrow> store_le a c"
  unfolding store_le_def by (meson le_trans)

lemma snapshot_ok_le: "snapshot_ok st b sn \<Longrightarrow> store_le st st' \<Longrightarrow> snapshot_ok st' b sn"
  unfolding snapshot_ok_def store_le_def by (meson le_trans)

lemma store_le_ensure: "store_inv st \<Longrightarrow> store_le st (snd (ensure_uids e st b ks))"
  using validity_step [of st _ _ "OpEnsure e b ks"]
  by (simp add: store_le_def owner_of_ensure store_uids.ensure_bound)

lemma store_le_retire: "store_inv st \<Longrightarrow> store_le st (snd (tombstone_missing e st b K))"
  by (simp add: store_le_def store_uids.retire_bound validity_of_def tombstone_eq)

lemma store_le_reconcile: "store_inv st \<Longrightarrow> store_le st (store_uids.reconcile e st b ks)"
  unfolding store_uids.reconcile_def
  by (blast intro: store_le_trans store_le_ensure store_le_retire store_uids.ensure_ok)

lemma store_le_info: "store_inv st \<Longrightarrow> store_le st (snd (mailbox_info e st b))"
proof -
  assume inv: "store_inv st"
  have "owner_of (snd (mailbox_info e st b)) = owner_of st"
    by (simp add: owner_of_def fun_eq_iff mailbox_info_def ensure_mailbox_frame)
  moreover have "uidnext_of st b' \<le> uidnext_of (snd (mailbox_info e st b)) b'" for b'
    using uidnext_step [OF inv, of b' "OpInfo e b"] by simp
  moreover have "validity_of st b' = Some v \<Longrightarrow> validity_of (snd (mailbox_info e st b)) b' = Some v" for b' v
    using validity_step [of st b' v "OpInfo e b"] by simp
  ultimately show "store_le st (snd (mailbox_info e st b))" by (simp add: store_le_def)
qed

lemma live_owner:
  assumes "store_inv st" and "live_of st b k = Some u"
  shows "\<exists>ident. owner_of st b u = Some (k, ident)"
proof -
  obtain r where r: "r \<in> set (rows st)" "r_box r = b" "r_key r = k" "r_uid r = u"
    using live_of_Some [OF assms(2)] by blast
  have "distinct (map fst (map (\<lambda>r. ((r_box r, r_uid r), (r_key r, r_id r))) (rows st)))"
    using assms(1) by (simp add: store_inv_def o_def)
  moreover have "((b, u), (k, r_id r)) \<in> set (map (\<lambda>r. ((r_box r, r_uid r), (r_key r, r_id r))) (rows st))"
    using r by force
  ultimately show ?thesis unfolding owner_of_def by (auto simp: map_of_eq_Some_iff simp del: map_map)
qed

lemma service_inv_tables:
  "service_inv s \<Longrightarrow> same_tables s s' \<Longrightarrow> service_inv s'"
  by (simp add: service_inv_def same_tables_def)

subsection \<open>What a sync gives\<close>

text \<open>The items of a snapshot are exactly the live rows of its mailbox in the store.\<close>

definition shows_live :: "store \<Rightarrow> box \<Rightarrow> snapshot \<Rightarrow> bool" where
  "shows_live st b sn \<longleftrightarrow> (\<forall>k u. live_of st b k = Some u \<longleftrightarrow> (\<exists>i \<in> set (sn_items sn). it_key i = k \<and> it_uid i = u))"

lemma strict_ascending:
  fixes f :: "'a \<Rightarrow> nat"
  assumes "distinct (map f xs)"
  shows "sorted_wrt (<) (map f (sort_key f xs))"
proof -
  have "distinct (map f (sort_key f xs))"
    using assms mset_eq_imp_distinct_iff [of "map f (sort_key f xs)" "map f xs"] by simp
  then show ?thesis using sorted_sort_key [of f xs] by (simp add: strict_sorted_iff)
qed

lemma items_for_facts:
  assumes inv: "store_inv st" and ok: "listing_ok es"
    and live: "\<And>k. live_of st b k \<noteq> None \<longleftrightarrow> k \<in> en_key ` set es"
  shows "\<And>x. x \<in> set es \<Longrightarrow> live_of st b (en_key x) = Some (the (live_of st b (en_key x)))"
    and "distinct (map it_uid (items_for st b es))"
    and "live_of st b k = Some u \<longleftrightarrow> (\<exists>i \<in> set (items_for st b es). it_key i = k \<and> it_uid i = u)"
proof -
  show L: "live_of st b (en_key x) = Some (the (live_of st b (en_key x)))" if "x \<in> set es" for x
    using live [of "en_key x"] that by auto
  have keys: "it_key (build_item x u) = en_key x" "it_uid (build_item x u) = u" if "x \<in> set es" for x u
    using ok that by (auto simp: listing_ok_def list_all_iff entry_ok_def build_item_def)
  have "inj_on (\<lambda>x. the (live_of st b (en_key x))) (set es)"
  proof (rule inj_onI)
    fix x y assume xy: "x \<in> set es" "y \<in> set es" and "the (live_of st b (en_key x)) = the (live_of st b (en_key y))"
    then have "en_key x = en_key y" using L store_uids.live_inj [OF inv] by metis
    then show "x = y" using ok xy by (auto simp: listing_ok_def distinct_map dest: inj_onD)
  qed
  then show "distinct (map it_uid (items_for st b es))"
    using ok by (auto simp: items_for_def listing_ok_def distinct_map build_item_def o_def)
  show "live_of st b k = Some u \<longleftrightarrow> (\<exists>i \<in> set (items_for st b es). it_key i = k \<and> it_uid i = u)"
  proof
    assume k: "live_of st b k = Some u"
    then obtain x where "x \<in> set es" "en_key x = k" using live [of k] by auto
    then show "\<exists>i \<in> set (items_for st b es). it_key i = k \<and> it_uid i = u"
      using k keys by (auto simp: items_for_def)
  next
    assume "\<exists>i \<in> set (items_for st b es). it_key i = k \<and> it_uid i = u"
    then show "live_of st b k = Some u" using L keys by (auto simp: items_for_def)
  qed
qed

lemma finish_sync_ok:
  fixes cfg inbox mdef es s
  defines "b \<equiv> Box inbox (md_name mdef)"
  defines "st \<equiv> synced_store cfg b es s"
  assumes inv: "service_inv s" and es: "listing_ok es"
  obtains snap where
    "finish_sync cfg inbox mdef es s = (Inr snap, (snd (apply_pins cfg b es s))\<lparr>sv_store := st,
         sv_versions := (sv_versions s)(b := sv_versions s b + 1), sv_latest := (sv_latest s)(b \<mapsto> snap)\<rparr>)"
    "snapshot_ok st b snap" "shows_live st b snap" "sn_synced_at snap = now cfg s"
    "sn_uidnext snap = uidnext_of st b" "sn_version snap = sv_versions s b + 1"
    "set (sn_items snap) = set (items_for st b (fst (apply_pins cfg b es s)))"
proof -
  have sinv: "store_inv (sv_store s)" and pins: "pins_ok (sv_pinned s b)" using inv by (auto simp: service_inv_def)
  let ?es = "sort_key entry_order (fst (apply_pins cfg b es s))"
  have ok: "listing_ok ?es" unfolding sort_key_mset_ok by (rule listing_ok_pins [where s = s, OF es pins])
  have stinv: "store_inv st" by (simp add: st_def synced_store_def store_uids.reconcile_ok [OF sinv])
  have live: "live_of st b k \<noteq> None \<longleftrightarrow> k \<in> en_key ` set ?es" for k
    using store_uids.reconcile_dom [OF sinv, of "store_env_of cfg s" b "entry_keys (fst (apply_pins cfg b es s))" k]
    by (simp add: st_def synced_store_def)
  note facts = items_for_facts [OF stinv ok live]
  let ?items = "sort_key it_uid (items_for st b ?es)"
  define snap where "snap = \<lparr>sn_inbox = inbox, sn_name = md_name mdef, sn_uidvalidity = the (validity_of st b),
    sn_uidnext = uidnext_of st b, sn_items = ?items, sn_version = sv_versions s b + 1, sn_synced_at = now cfg s\<rparr>"
  have showing: "shows_live st b snap" unfolding shows_live_def by (simp add: snap_def facts(3))
  have valid: "validity_of st b = Some (the (validity_of st b))"
    by (simp add: st_def synced_store_def store_uids.reconcile_def validity_of_def tombstone_eq ensure_uids_eq [OF sinv])
  have "it_uid i < uidnext_of st b \<and> (\<exists>ident. owner_of st b (it_uid i) = Some (it_key i, ident))"
    if "i \<in> set ?items" for i
  proof -
    have "live_of st b (it_key i) = Some (it_uid i)" using showing that by (auto simp: shows_live_def snap_def)
    then show ?thesis using store_uids.live_bound [OF stinv] live_owner [OF stinv] by blast
  qed
  then have sok: "snapshot_ok st b snap"
    using strict_ascending [OF facts(2)] valid
    by (simp add: snapshot_ok_def snap_def b_def snapshot_uids_def)
  have fin: "finish_sync cfg inbox mdef es s = (Inr snap, (snd (apply_pins cfg b es s))\<lparr>sv_store := st,
       sv_versions := (sv_versions s)(b := sv_versions s b + 1), sv_latest := (sv_latest s)(b \<mapsto> snap)\<rparr>)"
    using finish_sync_eq [OF sinv, of cfg inbox mdef es] unfolding Let_def b_def [symmetric] st_def [symmetric] snap_def [symmetric] .
  show ?thesis
    by (rule that [OF fin sok showing]) (simp_all add: snap_def items_for_def)
qed

lemma do_sync_cases:
  assumes inv: "service_inv s" and lib: "digest_ok (cf_lib cfg)"
    and run: "do_sync cfg api inbox mdef s = (r, s')"
  obtains e where "r = Inl e" "same_tables s s'"
  | es s1 snap where "r = Inr snap" "collect cfg api inbox mdef s = (Inr es, s1)" "same_tables s s1"
      "listing_ok es" "service_inv s1" "finish_sync cfg inbox mdef es s1 = (Inr snap, s')"
proof -
  obtain c s1 where c: "collect cfg api inbox mdef s = (c, s1)" by fastforce
  note post = io_postD [OF collect_post [OF lib, of s] same_tables_refl c]
  show thesis
  proof (cases c)
    case (Inl e)
    then show ?thesis using run c post(1) by (intro that(1) [of e]) (auto simp: do_sync_def)
  next
    case (Inr es)
    then have f: "finish_sync cfg inbox mdef es s1 = (r, s')" using run c by (simp add: do_sync_def)
    have s1: "service_inv s1" by (rule service_inv_tables [OF inv post(1)])
    obtain snap where "r = Inr snap" by (rule finish_sync_ok [OF s1 post(2) [OF Inr], of cfg inbox mdef]) (use f in auto)
    then show ?thesis using c Inr post f s1 by (intro that(2)) auto
  qed
qed

lemma apply_pins_frame [simp]:
  "sv_store (snd (apply_pins cfg b es s)) = sv_store s" "sv_generation (snd (apply_pins cfg b es s)) = sv_generation s"
  "sv_pinned (snd (apply_pins cfg b es s)) = (sv_pinned s)(b := live_pins cfg b es s)"
  "sv_latest (snd (apply_pins cfg b es s)) = sv_latest s" "sv_overrides (snd (apply_pins cfg b es s)) = sv_overrides s"
  "sv_world (snd (apply_pins cfg b es s)) = sv_world s" "sv_cache (snd (apply_pins cfg b es s)) = sv_cache s"
  by (simp_all add: apply_pins_eq)

lemma service_inv_finish:
  assumes inv: "service_inv s" and es: "listing_ok es" and run: "finish_sync cfg inbox mdef es s = (Inr snap, s')"
  shows "service_inv s'"
proof -
  let ?b = "Box inbox (md_name mdef)"
  have sinv: "store_inv (sv_store s)" using inv by (simp add: service_inv_def)
  have le: "store_le (sv_store s) (synced_store cfg ?b es s)" unfolding synced_store_def by (rule store_le_reconcile [OF sinv])
  have "store_inv (synced_store cfg ?b es s)" unfolding synced_store_def by (rule store_uids.reconcile_ok [OF sinv])
  moreover have "pins_ok (live_pins cfg ?b es s)" using inv by (intro pins_ok_live) (simp add: service_inv_def)
  moreover obtain sn where "finish_sync cfg inbox mdef es s = (Inr sn, (snd (apply_pins cfg ?b es s))\<lparr>sv_store := synced_store cfg ?b es s,
         sv_versions := (sv_versions s)(?b := sv_versions s ?b + 1), sv_latest := (sv_latest s)(?b \<mapsto> sn)\<rparr>)"
    "snapshot_ok (synced_store cfg ?b es s) ?b sn" by (rule finish_sync_ok [OF inv es, of cfg inbox mdef])
  ultimately show ?thesis
    using run inv snapshot_ok_le [OF _ le] by (auto simp: service_inv_def)
qed

lemma service_inv_do_sync:
  assumes "service_inv s" and "digest_ok (cf_lib cfg)"
  shows "service_inv (snd (do_sync cfg api inbox mdef s))"
proof -
  obtain r s' where run: "do_sync cfg api inbox mdef s = (r, s')" by fastforce
  show ?thesis
    by (rule do_sync_cases [OF assms run])
       (metis run snd_conv service_inv_tables [OF assms(1)] service_inv_finish)+
qed

lemma service_inv_sync:
  "service_inv s \<Longrightarrow> digest_ok (cf_lib cfg) \<Longrightarrow> service_inv (snd (sync cfg api inbox nm force s))"
  by (simp add: sync_def service_inv_do_sync split: option.splits)

lemma sync_forced:
  "lookup cfg nm = Some mdef \<Longrightarrow> sync cfg api inbox nm True s = do_sync cfg api inbox mdef s"
  by (simp add: sync_def split: option.splits)

subsection \<open>Own writes stay visible\<close>

lemma pinned_in_snapshot:
  assumes inv: "service_inv s" and lib: "digest_ok (cf_lib cfg)"
    and run: "do_sync cfg api inbox mdef s = (Inr snap, s')"
    and pin: "(k, x, e) \<in> set (sv_pinned s (Box inbox (md_name mdef)))" and time: "sn_synced_at snap \<le> x"
  shows "\<exists>i \<in> set (sn_items snap). it_key i = k"
proof -
  let ?b = "Box inbox (md_name mdef)"
  obtain es s1 where s1: "same_tables s s1" "listing_ok es" "service_inv s1" and fin: "finish_sync cfg inbox mdef es s1 = (Inr snap, s')"
    using do_sync_cases [OF inv lib run] by (metis Inl_Inr_False sum.sel(2))
  obtain sn where sn: "finish_sync cfg inbox mdef es s1 = (Inr sn, (snd (apply_pins cfg ?b es s1))\<lparr>sv_store := synced_store cfg ?b es s1,
         sv_versions := (sv_versions s1)(?b := sv_versions s1 ?b + 1), sv_latest := (sv_latest s1)(?b \<mapsto> sn)\<rparr>)"
    "sn_synced_at sn = now cfg s1"
    "set (sn_items sn) = set (items_for (synced_store cfg ?b es s1) ?b (fst (apply_pins cfg ?b es s1)))"
    by (rule finish_sync_ok [OF s1(3,2), of cfg inbox mdef])
  have eq: "sn = snap" using fin sn(1) by simp
  have pin1: "(k, x, e) \<in> set (sv_pinned s1 ?b)" using pin s1(1) by (simp add: same_tables_def)
  then have ek: "en_key e = k" "entry_ok e" using s1(3) by (auto simp: service_inv_def pins_ok_def)
  have "\<exists>e' \<in> set (fst (apply_pins cfg ?b es s1)). en_key e' = k \<and> entry_ok e'"
  proof (cases "k \<in> en_key ` set es")
    case True
    then show ?thesis using s1(2) by (auto simp: apply_pins_eq listing_ok_def list_all_iff)
  next
    case False
    then have "(k, x, e) \<in> set (live_pins cfg ?b es s1)"
      using pin1 time sn(2) by (simp add: live_pins_def eq)
    then show ?thesis using ek by (force simp: apply_pins_eq)
  qed
  then show ?thesis
    using sn(3) by (force simp: eq items_for_def build_item_def entry_ok_def)
qed

subsection \<open>Mutations keep the invariant\<close>

lemma api_ops_keep:
  assumes "env_keeps P (modest api inbox) (service_http cfg)"
  shows "io_keeps P (update_labels api (service_http cfg) inbox mid add remove)"
    and "io_keeps P (create_draft api (service_http cfg) inbox body)"
    and "io_keeps P (fetch_draft cfg api inbox did)"
    and "io_keeps P (delete_draft api (service_http cfg) inbox did)"
    and "io_keeps P (get_raw_meta api (service_http cfg) inbox mid)"
    and "io_keeps P (download api (service_http cfg) url)"
  by (rule client_calls_keep fetch_draft_keeps, rule assms)+

lemma service_inv_world [simp]: "service_inv (s\<lparr>sv_world := w\<rparr>) = service_inv s"
  by (simp add: service_inv_def)

lemma service_inv_frame [simp]:
  "service_inv (hold_labels cfg inbox mid l s) = service_inv s" "service_inv (bump b s) = service_inv s"
  "service_inv (s\<lparr>sv_cache := c\<rparr>) = service_inv s"
  by (simp_all add: service_inv_def hold_labels_def bump_def)

lemma service_inv_cache [simp]: "io_keeps service_inv (cache_read k)" "io_keeps service_inv (cache_write k v)"
  by (auto simp: io_keeps_def cache_read_def cache_write_def split: prod.splits)

lemma pins_ok_put:
  assumes "pins_ok ps" and "en_key e = k" and "entry_ok e"
  shows "pins_ok (if k \<in> fst ` set ps then map (\<lambda>(k', w). if k' = k then (k', (x, e)) else (k', w)) ps
     else ps @ [(k, (x, e))])"
proof -
  have "map fst (map (\<lambda>(k', w). if k' = k then (k', (x, e)) else (k', w)) ps) = map fst ps"
    by (induction ps) auto
  then have "distinct (map fst (map (\<lambda>(k', w). if k' = k then (k', (x, e)) else (k', w)) ps))"
    using assms(1) by (simp only: pins_ok_def)
  then show ?thesis using assms by (auto simp: pins_ok_def split: if_splits)
qed

lemma service_inv_pinned:
  "service_inv s \<Longrightarrow> pins_ok ps \<Longrightarrow> service_inv (s\<lparr>sv_pinned := (sv_pinned s)(b := ps)\<rparr>)"
  by (simp add: service_inv_def)

lemma service_inv_pin [simp]:
  "service_inv s \<Longrightarrow> en_key e = k \<Longrightarrow> entry_ok e \<Longrightarrow> service_inv (pin cfg b k e s)"
  unfolding pin_def Let_def
  by (rule service_inv_pinned, assumption, rule pins_ok_put) (simp_all add: service_inv_def)

lemma service_inv_unpin [simp]: "service_inv s \<Longrightarrow> service_inv (unpin b k s)"
  unfolding service_inv_def unpin_def pins_ok_def
  by (auto simp: distinct_map intro: inj_on_subset)

lemma pin_mem: "(k, now cfg s + pin_ttl, e) \<in> set (sv_pinned (pin cfg b k e s) b)"
  by (force simp: pin_def Let_def)

definition item_known :: "store \<Rightarrow> box \<Rightarrow> item \<Rightarrow> bool" where
  "item_known st b i \<longleftrightarrow> (\<exists>ident. owner_of st b (it_uid i) = Some (it_key i, ident))"

lemma snapshot_item_known: "snapshot_ok st b sn \<Longrightarrow> i \<in> set (sn_items sn) \<Longrightarrow> item_known st b i"
  unfolding snapshot_ok_def item_known_def by blast

lemma snapshot_ok_replace:
  assumes ok: "snapshot_ok st b sn" and i: "item_known st b i"
  shows "snapshot_ok st b (sn\<lparr>sn_items := map (\<lambda>j. if it_uid j = it_uid i then i else j) (sn_items sn)\<rparr>)"
proof -
  let ?sn = "sn\<lparr>sn_items := map (\<lambda>j. if it_uid j = it_uid i then i else j) (sn_items sn)\<rparr>"
  have uids: "snapshot_uids ?sn = snapshot_uids sn" by (simp add: snapshot_uids_def)
  have items: "it_uid j < sn_uidnext sn \<and> (\<exists>ident. owner_of st b (it_uid j) = Some (it_key j, ident))"
    if "j \<in> set (sn_items ?sn)" for j
    using that ok i unfolding snapshot_ok_def item_known_def by (auto split: if_splits)
  have o: "b = Box (sn_inbox sn) (sn_name sn)" "sorted_wrt (<) (snapshot_uids sn)"
    "sn_uidnext sn \<le> uidnext_of st b" "validity_of st b = Some (sn_uidvalidity sn)"
    using ok unfolding snapshot_ok_def by blast+
  show ?thesis unfolding snapshot_ok_def
    by (intro conjI ballI; (rule items, assumption)?) (simp_all add: o(1) uids o(2) o(3,4) [unfolded o(1)] items [unfolded o(1)])
qed

lemma item_known_relabelled [simp]: "item_known st b (relabelled i (it_uid i) l) = item_known st b i"
  by (simp add: item_known_def relabelled_def)

lemma sv_store_frame [simp]:
  "sv_store (hold_labels cfg inbox mid l s) = sv_store s" "sv_store (replace_item b i s) = sv_store s"
  by (auto simp: hold_labels_def replace_item_def split: option.splits)

lemma service_inv_replace [simp]:
  "service_inv s \<Longrightarrow> item_known (sv_store s) b i \<Longrightarrow> service_inv (replace_item b i s)"
  by (auto simp: replace_item_def service_inv_def snapshot_ok_replace split: option.splits)

text \<open>Allocation in the service.\<close>

lemma allocate_ok:
  assumes "service_inv s"
  obtains m st where "allocate cfg b ks s = (Inr m, s\<lparr>sv_store := st\<rparr>)" "map_of m = live_of st b"
    "st = snd (ensure_uids (store_env_of cfg s) (sv_store s) b ks)" "store_inv st" "store_le (sv_store s) st"
    "service_inv (s\<lparr>sv_store := st\<rparr>)"
proof -
  let ?e = "store_env_of cfg s"
  have sinv: "store_inv (sv_store s)" using assms by (simp add: service_inv_def)
  obtain m where m: "fst (ensure_uids ?e (sv_store s) b ks) = Inr m"
    "map_of m = live_of (snd (ensure_uids ?e (sv_store s) b ks)) b"
    using store_uids.ensure_result [OF sinv] by blast
  have le: "store_le (sv_store s) (snd (ensure_uids ?e (sv_store s) b ks))" by (rule store_le_ensure [OF sinv])
  have inv: "store_inv (snd (ensure_uids ?e (sv_store s) b ks))" by (rule store_uids.ensure_ok [OF sinv])
  show ?thesis
    by (rule that [of m "snd (ensure_uids ?e (sv_store s) b ks)"])
       (use m le inv assms snapshot_ok_le [OF _ le] in \<open>auto simp: allocate_def service_inv_def split: prod.splits\<close>)
qed

lemma service_inv_allocate [simp]: "io_keeps service_inv (allocate cfg b ks)"
  unfolding io_keeps_def by (metis allocate_ok snd_conv)

lemma service_inv_info [simp]: "io_keeps service_inv (service_info cfg inbox nm)"
proof -
  have "service_inv (s\<lparr>sv_store := snd (mailbox_info e (sv_store s) b)\<rparr>)" if "service_inv s" for s :: "'a service" and e b
  proof -
    have sinv: "store_inv (sv_store s)" using that by (simp add: service_inv_def)
    have "store_inv (snd (mailbox_info e (sv_store s) b))" using store_inv_step [OF sinv, of "OpInfo e b"] by simp
    then show ?thesis using that snapshot_ok_le [OF _ store_le_info [OF sinv]] by (auto simp: service_inv_def)
  qed
  then show ?thesis by (auto simp: io_keeps_def service_info_def split: prod.splits) (metis snd_conv)
qed

subsection \<open>What every operation of the service keeps\<close>

text \<open>
  The elementary changes an operation of the service makes, as an interface: a property of the service that
  each of them keeps is kept by every operation. \<open>api\<close> is the client the operations run with; what it sends are
  requests to its API and bare downloads. An item handed to \<open>set_flag\<close> must be one the store knows;
  outside Drafts the key of an item is its id.
\<close>

locale service_law =
  fixes cfg :: "'w service_cfg" and api :: client and inbox :: str and P :: "'w service \<Rightarrow> bool"
  assumes traffic: "env_keeps P (modest api inbox) (service_http cfg)"
    and cache: "P s \<Longrightarrow> P (s\<lparr>sv_cache := c\<rparr>)"
    and holds: "P s \<Longrightarrow> P (s\<lparr>sv_overrides := h\<rparr>)"
    and generations: "P s \<Longrightarrow> P (s\<lparr>sv_generation := g\<rparr>)"
    and marks: "P s \<Longrightarrow> P (s\<lparr>sv_store := set_deleted (sv_store s) (Box inbox nm) us v\<rparr>)"
    and pins: "P s \<Longrightarrow> entry_ok e \<Longrightarrow> box_name b = ''Drafts'' \<or> en_id e = en_key e \<Longrightarrow> P (pin cfg b (en_key e) e s)"
    and unpins: "P s \<Longrightarrow> P (unpin b k s)"
    and allocates: "io_keeps P (allocate cfg (Box inbox nm) ks)"
    and infos: "io_keeps P (service_info cfg inbox nm)"
    and replaces: "P s \<Longrightarrow> item_known (sv_store s) b i \<Longrightarrow> box_name b = ''Drafts'' \<or> it_key i = it_id i \<Longrightarrow> P (replace_item b i s)"
    and resyncs: "P s \<Longrightarrow> lookup cfg nm = Some mdef \<Longrightarrow> P (snd (do_sync cfg api inbox mdef s))"
begin

lemmas api_calls = api_ops_keep [OF traffic]

lemma held: "P s \<Longrightarrow> P (hold_labels cfg inbox mid l s)"
  by (simp add: hold_labels_def holds)

lemma bumped: "P s \<Longrightarrow> P (bump b s)"
  by (simp add: bump_def generations)

lemma cache_kept: "io_keeps P (cache_read k)" "io_keeps P (cache_write k v)"
  by (auto simp: io_keeps_def cache_read_def cache_write_def cache split: prod.splits)

lemma sync_kept: "io_keeps P (sync cfg api inbox nm force)"
  by (auto simp: io_keeps_def sync_def resyncs split: option.splits)

lemma sync_if_new_kept: "io_keeps P (sync_if_new cfg api inbox nm)"
  using sync_kept [of nm True]
  by (auto simp: io_keeps_def sync_if_new_def io_then_def io_bind_def split: prod.splits sum.splits)

lemma deleted_kept: "P s \<Longrightarrow> P (service_set_deleted cfg inbox nm us v s)"
  by (simp add: service_set_deleted_def marks split: option.splits)

lemma record_kept: "io_keeps P (record_created cfg inbox created did rendered)"
proof -
  have "P (bump (Box inbox ''Drafts'') (pin cfg (Box inbox ''Drafts'') key (draft_entry lib inbox did key ts n labels to created) s))"
    if "P s" for lib inbox key ts n labels to s
    using pins [OF that, of "draft_entry lib inbox did key ts n labels to created" "Box inbox ''Drafts''"] by (simp add: bumped)
  then show ?thesis
    unfolding record_created_def Let_def
    by (intro io_keeps_then io_keeps_bind cache_kept allocates infos io_keeps_basic io_keeps_modify)
qed

lemma append_kept: "io_keeps P (append_draft cfg api inbox df cid)"
  unfolding append_draft_def Let_def
  by (auto simp del: io_simps intro!: io_keeps_then io_keeps_bind sync_if_new_kept api_calls record_kept)

lemma trash_one_kept:
  assumes "it_key i = it_id i"
  shows "io_keeps P (trash_one cfg api inbox trash i acc)"
proof -
  have "P (pin cfg b (it_id i) \<lparr>en_ts = it_date i, en_key = it_id i, en_id = it_id i, en_item = relabelled i u labels\<rparr> s)"
    if "P s" for b u labels s
    using pins [OF that, of "\<lparr>en_ts = it_date i, en_key = it_id i, en_id = it_id i, en_item = relabelled i u labels\<rparr>" b]
      assms by (simp add: entry_ok_def relabelled_def)
  then show ?thesis
    unfolding trash_one_def Let_def
    by (intro io_keeps_then io_keeps_bind allocates io_keeps_basic io_keeps_modify api_calls held)
qed

lemma copy_kept:
  assumes "\<And>i. i \<in> set items \<Longrightarrow> it_key i = it_id i"
  shows "io_keeps P (copy_to_trash cfg api inbox nm items)"
  unfolding copy_to_trash_def using assms
  by (auto simp del: io_simps split: option.splits intro!: io_keeps_then io_keeps_bind io_keeps_when io_keeps_modify
        sync_if_new_kept io_keeps_fold trash_one_kept bumped)

lemma remove_one_kept: "io_keeps P (remove_one cfg api inbox mdef i acc)"
proof -
  have "io_keeps P (remove_draft cfg api inbox mdef i)"
    unfolding remove_draft_def
    by (auto simp del: io_simps intro!: io_keeps_then io_keeps_bind io_keeps_modify api_calls unpins)
  moreover have "io_keeps P (trash_message cfg api inbox i)"
    unfolding trash_message_def by (intro io_keeps_bind io_keeps_basic io_keeps_modify api_calls held)
  ultimately show ?thesis
    unfolding remove_one_def
    by (auto simp del: io_simps split: mailbox_kind.splits intro!: io_keeps_bind io_keeps_try)
qed

lemma expunge_kept: "io_keeps P (expunge_items cfg api inbox nm items)"
  unfolding expunge_items_def
  by (auto simp del: io_simps split: option.splits prod.splits
        intro!: io_keeps_then io_keeps_bind io_keeps_when io_keeps_modify io_keeps_fold remove_one_kept bumped)

lemma relabelled_same: "it_key (relabelled i u l) = it_key i" "it_id (relabelled i u l) = it_id i"
  by (simp_all add: relabelled_def)

lemma set_flag_kept:
  assumes "P s" and "\<And>mdef. lookup cfg nm = Some mdef \<Longrightarrow> item_known (sv_store s) (Box inbox (md_name mdef)) i
      \<and> (md_name mdef = ''Drafts'' \<or> it_key i = it_id i)"
  shows "P (snd (set_flag cfg api inbox nm i flag value s))"
proof -
  let ?P = "\<lambda>s'. P s' \<and> sv_store s' = sv_store s"
  have api: "io_keeps ?P (update_labels api (service_http cfg) inbox mid add remove)" for mid add remove
    by (rule api_ops_keep(1), rule env_keeps_both [OF traffic], rule service_http_keeps) simp
  have "io_keeps ?P (set_flag cfg api inbox nm i flag value)"
    unfolding set_flag_def Let_def
    using assms(2)
    by (auto simp: relabelled_same simp del: io_simps split: option.splits
        intro!: io_keeps_then io_keeps_bind io_keeps_modify api replaces held)
  then show ?thesis using assms(1) by (auto simp: io_keeps_def)
qed

lemma checked_meta_kept: "io_keeps P (checked_meta cfg api inbox i)"
  unfolding checked_meta_def
  by (auto simp del: io_simps split: option.splits intro!: io_keeps_bind cache_kept api_calls)

lemma raw_bytes_kept: "io_keeps P (raw_bytes cfg api inbox nm i)"
proof -
  have "io_keeps P (raw_draft cfg api inbox i)"
    unfolding raw_draft_def
    by (auto simp del: io_simps intro!: io_keeps_then io_keeps_bind cache_kept api_calls)
  moreover have "io_keeps P (raw_message cfg api inbox i)"
    unfolding raw_message_def
    by (auto simp del: io_simps intro!: io_keeps_then io_keeps_bind cache_kept api_calls checked_meta_kept)
  ultimately show ?thesis
    unfolding raw_bytes_def
    by (auto simp del: io_simps split: option.splits mailbox_kind.splits intro!: io_keeps_bind cache_kept)
qed

lemma size_of_kept: "io_keeps P (size_of cfg api inbox nm i)"
proof -
  have "io_keeps P (size_message cfg api inbox i)"
    unfolding size_message_def
    by (auto simp del: io_simps split: option.splits intro!: io_keeps_then io_keeps_bind cache_kept api_calls)
  then show ?thesis
    unfolding size_of_def
    by (auto simp del: io_simps split: option.splits mailbox_kind.splits
        intro!: io_keeps_bind cache_kept raw_bytes_kept)
qed

end

text \<open>The invariant of the service, with the assumption on the digest its keys are made of.\<close>

definition service_good :: "'w service_cfg \<Rightarrow> 'w service \<Rightarrow> bool" where
  "service_good cfg s \<longleftrightarrow> digest_ok (cf_lib cfg) \<and> service_inv s"

lemma service_good_keeps: "io_keeps service_inv m \<Longrightarrow> io_keeps (service_good cfg) m"
  by (simp add: io_keeps_def service_good_def)

lemma snapshot_ok_marks [simp]: "snapshot_ok (set_deleted st b us v) b' sn = snapshot_ok st b' sn"
  by (simp add: snapshot_ok_def owner_of_def uidnext_of_def validity_of_def)

lemma service_inv_fields [simp]:
  "service_inv (s\<lparr>sv_overrides := h\<rparr>) = service_inv s" "service_inv (s\<lparr>sv_generation := g\<rparr>) = service_inv s"
  "service_inv (s\<lparr>sv_store := set_deleted (sv_store s) b us v\<rparr>) = service_inv s"
  by (simp_all add: service_inv_def)

interpretation good: service_law cfg api inbox "service_good cfg" for cfg api inbox
proof (unfold_locales, goal_cases)
  case 1
  show ?case by (rule service_http_keeps) (simp add: service_good_def)
qed (simp_all add: service_good_def entry_ok_def service_good_keeps service_inv_do_sync)

lemma good_keeps: "io_keeps (service_good cfg) m \<Longrightarrow> digest_ok (cf_lib cfg) \<Longrightarrow> io_keeps service_inv m"
  by (simp add: io_keeps_def service_good_def)

lemma sync_shows_view:
  assumes "service_inv s" and "digest_ok (cf_lib cfg)" and "lookup cfg nm = Some mdef"
    and "sync cfg api inbox nm True s = (Inr snap, s')"
  shows "let b = Box inbox (md_name mdef) in
      service_inv s' \<and> sorted_wrt (<) (snapshot_uids snap) \<and> shows_live (sv_store s') b snap
    \<and> (\<forall>i \<in> set (sn_items snap). it_uid i < sn_uidnext snap
         \<and> (case live_of (sv_store s) b (it_key i) of
              Some u \<Rightarrow> it_uid i = u | None \<Rightarrow> uidnext_of (sv_store s) b \<le> it_uid i))
    \<and> sv_latest s' b = Some snap \<and> sn_version snap = sv_versions s b + 1
    \<and> (\<forall>b'. b' \<noteq> b \<longrightarrow> live_of (sv_store s') b' = live_of (sv_store s) b')"
proof -
  let ?b = "Box inbox (md_name mdef)"
  have run: "do_sync cfg api inbox mdef s = (Inr snap, s')" using assms(3,4) by (simp add: sync_forced)
  obtain es s1 where s1: "same_tables s s1" "listing_ok es" "service_inv s1"
    and fin: "finish_sync cfg inbox mdef es s1 = (Inr snap, s')"
    using do_sync_cases [OF assms(1,2) run] by (metis Inl_Inr_False sum.sel(2))
  let ?st = "synced_store cfg ?b es s1"
  obtain sn where sn: "finish_sync cfg inbox mdef es s1 = (Inr sn, (snd (apply_pins cfg ?b es s1))\<lparr>sv_store := ?st,
         sv_versions := (sv_versions s1)(?b := sv_versions s1 ?b + 1), sv_latest := (sv_latest s1)(?b \<mapsto> sn)\<rparr>)"
    "snapshot_ok ?st ?b sn" "shows_live ?st ?b sn" "sn_version sn = sv_versions s1 ?b + 1"
    by (rule finish_sync_ok [OF s1(3,2), of cfg inbox mdef])
  have eq: "sn = snap" and s': "sv_store s' = ?st" "sv_latest s' ?b = Some snap" using fin sn(1) by auto
  have store: "sv_store s1 = sv_store s" "sv_versions s1 = sv_versions s" using s1(1) by (simp_all add: same_tables_def)
  have sinv: "store_inv (sv_store s)" using assms(1) by (simp add: service_inv_def)
  note rec = synced_store_def [of cfg ?b es s1, unfolded store]
  have item: "case live_of (sv_store s) ?b (it_key i) of
      Some u \<Rightarrow> it_uid i = u | None \<Rightarrow> uidnext_of (sv_store s) ?b \<le> it_uid i" if "i \<in> set (sn_items snap)" for i
  proof -
    have now: "live_of ?st ?b (it_key i) = Some (it_uid i)" using sn(3) that by (auto simp: shows_live_def eq)
    show ?thesis
    proof (cases "live_of (sv_store s) ?b (it_key i)")
      case None
      then show ?thesis using store_uids.reconcile_fresh [OF sinv None] now unfolding rec by simp
    next
      case (Some u)
      have "it_key i \<in> fst ` set (entry_keys (fst (apply_pins cfg ?b es s1)))"
        using now store_uids.reconcile_dom [OF sinv] unfolding rec by blast
      then show ?thesis using store_uids.reconcile_stable [OF sinv Some] now Some unfolding rec by simp
    qed
  qed
  have "live_of ?st b' = live_of (sv_store s) b'" if "b' \<noteq> ?b" for b'
    unfolding rec by (rule store_uids.reconcile_other [OF sinv that])
  moreover have "sorted_wrt (<) (snapshot_uids snap)" "\<forall>i \<in> set (sn_items snap). it_uid i < sn_uidnext snap"
    using sn(2) unfolding eq snapshot_ok_def by blast+
  ultimately show ?thesis
    using service_inv_finish [OF s1(3,2) fin] sn(3,4) item unfolding Let_def s' store eq by simp
qed

lemma store_le_do_sync:
  assumes "service_inv s" and "digest_ok (cf_lib cfg)" and "do_sync cfg api inbox mdef s = (Inr snap, s')"
  shows "store_le (sv_store s) (sv_store s')"
proof -
  let ?b = "Box inbox (md_name mdef)"
  obtain es s1 where s1: "same_tables s s1" "listing_ok es" "service_inv s1"
    and fin: "finish_sync cfg inbox mdef es s1 = (Inr snap, s')"
    using do_sync_cases [OF assms] by (metis Inl_Inr_False sum.sel(2))
  obtain sn where "finish_sync cfg inbox mdef es s1 = (Inr sn, (snd (apply_pins cfg ?b es s1))\<lparr>sv_store := synced_store cfg ?b es s1,
         sv_versions := (sv_versions s1)(?b := sv_versions s1 ?b + 1), sv_latest := (sv_latest s1)(?b \<mapsto> sn)\<rparr>)"
    by (rule finish_sync_ok [OF s1(3,2), of cfg inbox mdef])
  then have "sv_store s' = synced_store cfg ?b es s1" using fin by auto
  moreover have "sv_store s1 = sv_store s" "store_inv (sv_store s1)" using s1 by (simp_all add: same_tables_def service_inv_def)
  ultimately show ?thesis unfolding synced_store_def using store_le_reconcile by metis
qed

text \<open>C18: A successful sync: the snapshot's UIDs strictly ascend and its items are exactly the live UIDs the
  store holds for the mailbox; an item that was live before keeps its UID, a new one gets a UID at or above
  the former UIDNEXT, all lie below the reported UIDNEXT; the snapshot is the latest one, its version is the
  next one, and the UIDs of the other mailboxes are untouched.\<close>

theorem sync_shows_live_view:
  assumes "service_inv s" and "digest_ok (cf_lib cfg)" and "lookup cfg nm = Some mdef"
    and "sync cfg api inbox nm True s = (Inr snap, s')"
  shows "let b = Box inbox (md_name mdef) in
      service_inv s' \<and> sorted_wrt (<) (snapshot_uids snap) \<and> shows_live (sv_store s') b snap
    \<and> (\<forall>i \<in> set (sn_items snap). it_uid i < sn_uidnext snap
         \<and> (case live_of (sv_store s) b (it_key i) of
              Some u \<Rightarrow> it_uid i = u | None \<Rightarrow> uidnext_of (sv_store s) b \<le> it_uid i))
    \<and> sv_latest s' b = Some snap \<and> sn_version snap = sv_versions s b + 1
    \<and> (\<forall>b'. b' \<noteq> b \<longrightarrow> live_of (sv_store s') b' = live_of (sv_store s) b')"
  using assms by (rule sync_shows_view)

text \<open>C19: A sync that fails (upstream error, malformed page, rendering error, at any point of the listing)
  changes no UID, tombstones nothing, and leaves pins, snapshots and versions as they were.\<close>

theorem failed_sync_changes_nothing:
  assumes "service_inv s" and "digest_ok (cf_lib cfg)" and "sync cfg api inbox nm force s = (Inl e, s')"
  shows "sv_store s' = sv_store s \<and> sv_latest s' = sv_latest s \<and> sv_pinned s' = sv_pinned s
    \<and> sv_versions s' = sv_versions s \<and> sv_generation s' = sv_generation s"
proof (cases "lookup cfg nm")
  case None
  then show ?thesis using assms(3) by (auto simp: sync_def)
next
  case (Some mdef)
  have "do_sync cfg api inbox mdef s = (Inl e, s')"
    using assms(3) Some by (auto simp: sync_def split: option.splits if_splits)
  then have "same_tables s s'"
    using do_sync_cases [OF assms(1,2)] by (metis Inl_Inr_False)
  then show ?thesis by (simp add: same_tables_def)
qed

subsection \<open>Own drafts\<close>

text \<open>What holds once a draft has been recorded under a UID: the UID is live and pinned.\<close>

definition recorded :: "'w service_cfg \<Rightarrow> box \<Rightarrow> int \<times> nat \<Rightarrow> 'w service \<Rightarrow> bool" where
  "recorded cfg b r s \<longleftrightarrow> (\<exists>k e. live_of (sv_store s) b k = Some (snd r) \<and> validity_of (sv_store s) b = Some (fst r)
     \<and> (k, now cfg s + pin_ttl, e) \<in> set (sv_pinned s b))"

lemma record_created_result:
  assumes inv: "service_inv s" and run: "record_created cfg inbox created did rendered s = (Inr r, s')"
  shows "recorded cfg (Box inbox ''Drafts'') r s'"
proof -
  let ?b = "Box inbox ''Drafts''"
  define k where "k = content_key (cf_lib cfg) did rendered"
  obtain c where c: "service_inv (s\<lparr>sv_cache := c\<rparr>)" and
    run1: "io_bind (allocate cfg ?b [(k, did)]) (\<lambda>uid_map.
       io_bind (io_lift (uid_at uid_map k)) (\<lambda>u.
       io_bind (service_info cfg inbox ''Drafts'') (\<lambda>info.
       io_bind (io_lift (labels_of (cf_lib cfg) created)) (\<lambda>labels.
       io_bind (io_lift (to_of (cf_lib cfg) created)) (\<lambda>to.
       io_then (io_modify (\<lambda>s. bump ?b (pin cfg ?b k (draft_entry (cf_lib cfg) inbox did k
           (parse_iso8601 (cf_lib cfg) (JStr (jtext (el_repr (cf_lib cfg)) created ''updated_at'')))
           (length rendered) labels to created) s)))
         (io_return (fst info, u))))))) (s\<lparr>sv_cache := c\<rparr>) = (Inr r, s')"
    using run inv by (auto simp: record_created_def Let_def io_then_def cache_write_def k_def)
  define s1 where "s1 = s\<lparr>sv_cache := c\<rparr>"
  obtain m st where a: "allocate cfg ?b [(k, did)] s1 = (Inr m, s1\<lparr>sv_store := st\<rparr>)" "map_of m = live_of st ?b"
    "st = snd (ensure_uids (store_env_of cfg s1) (sv_store s1) ?b [(k, did)])"
    by (rule allocate_ok [OF c [folded s1_def], of cfg ?b "[(k, did)]"])
  have old: "store_inv (sv_store s1)" using inv by (simp add: service_inv_def s1_def)
  obtain vv nn where mb: "mboxes st ?b = Some (vv, nn)" using a(3) by (simp add: ensure_uids_eq [OF old])
  have info: "service_info cfg inbox ''Drafts'' (s1\<lparr>sv_store := st\<rparr>) = (Inr (vv, nn), s1\<lparr>sv_store := st\<rparr>)"
    using mb by (simp add: service_info_def mailbox_info_def ensure_mailbox_def)
  have pinned: "now cfg (bump ?b (pin cfg ?b k e s2)) = now cfg s2" "sv_store (bump ?b (pin cfg ?b k e s2)) = sv_store s2"
    "sv_pinned (bump ?b (pin cfg ?b k e s2)) = sv_pinned (pin cfg ?b k e s2)" for e s2
    by (simp_all add: bump_def pin_def now_def Let_def)
  obtain e where u: "map_of m k = Some (snd r)" "fst r = vv"
    and s': "s' = bump ?b (pin cfg ?b k e (s1\<lparr>sv_store := st\<rparr>))"
    using run1 [folded s1_def] a(1) info
    by (auto simp: io_bind_eq io_then_eq uid_at_def split: option.splits)
  have "(k, now cfg s' + pin_ttl, e) \<in> set (sv_pinned s' ?b)"
    using pin_mem [where cfg = cfg and b = ?b and k = k and e = e and s = "s1\<lparr>sv_store := st\<rparr>"] by (simp add: s' pinned)
  then show ?thesis
    using u mb a(2) unfolding recorded_def by (intro exI [of _ k] exI [of _ e]) (simp add: s' pinned validity_of_def)
qed

lemma append_draft_recorded:
  assumes inv: "service_inv s" and lib: "digest_ok (cf_lib cfg)"
    and run: "append_draft cfg api inbox df cid s = (Inr r, s')"
  shows "recorded cfg (Box inbox ''Drafts'') r s'" "service_inv s'"
proof -
  show "service_inv s'" using good_keeps [OF good.append_kept lib, of api inbox df cid] inv run by (auto simp: io_keeps_def)
  have "io_post service_inv (append_draft cfg api inbox df cid) (recorded cfg (Box inbox ''Drafts''))"
    unfolding append_draft_def Let_def
  proof (intro io_post_then good_keeps [OF good.sync_if_new_kept lib] io_post_bind [where R = "\<lambda>_. True"])
    show "io_post service_inv (create_draft api (service_http cfg) inbox (api_body df cid)) (\<lambda>_ _. True)"
      by (rule io_post_keeps, rule api_ops_keep, rule service_http_keeps) simp
    fix created
    let ?did = "jtext (el_repr (cf_lib cfg)) created ''draft_id''"
    have "io_post service_inv (record_created cfg inbox created ?did rendered) (recorded cfg (Box inbox ''Drafts''))" for rendered
    proof -
      have "io_keeps service_inv (record_created cfg inbox created ?did rendered)" by (rule good_keeps [OF good.record_kept lib])
      then show ?thesis
        unfolding io_post_def io_keeps_def by (metis record_created_result prod.collapse)
    qed
    then show "io_post service_inv (if ?did = [] then io_raise
         (unavailable ''draft was created but the response carried no draft_id'' False)
       else io_bind (render cfg created inbox) (record_created cfg inbox created ?did)) (recorded cfg (Box inbox ''Drafts''))"
      by (auto simp del: io_simps intro!: io_post_raise io_post_bind [where R = "\<lambda>_. True"] io_post_keeps)
  qed
  then show "recorded cfg (Box inbox ''Drafts'') r s'" using inv run unfolding io_post_def by (metis fst_conv snd_conv)
qed

text \<open>C20: An appended draft stays visible: after APPEND created a draft and reported \<open>(uidvalidity, uid)\<close>, the
  next successful sync of Drafts that ends within the pin time of 120 seconds shows that UID under that
  UIDVALIDITY, whether or not the upstream listing shows the draft yet.\<close>

theorem appended_draft_stays_visible:
  assumes "service_inv s" and "digest_ok (cf_lib cfg)" and "lookup cfg ''Drafts'' = Some mdef" and "md_name mdef = ''Drafts''"
    and "append_draft cfg api inbox df cid s = (Inr (v, u), s1)"
    and "sync cfg api inbox ''Drafts'' True s1 = (Inr snap, s2)" and "sn_synced_at snap \<le> now cfg s1 + pin_ttl"
  shows "u \<in> set (snapshot_uids snap) \<and> sn_uidvalidity snap = v"
proof -
  let ?b = "Box inbox ''Drafts''"
  have inv1: "service_inv s1" and rec: "recorded cfg ?b (v, u) s1"
    using append_draft_recorded [OF assms(1,2,5)] by auto
  obtain k e where k: "live_of (sv_store s1) ?b k = Some u" "validity_of (sv_store s1) ?b = Some v"
    "(k, now cfg s1 + pin_ttl, e) \<in> set (sv_pinned s1 ?b)" using rec by (auto simp: recorded_def)
  have run: "do_sync cfg api inbox mdef s1 = (Inr snap, s2)" using assms(3,6) by (simp add: sync_forced)
  obtain i where i: "i \<in> set (sn_items snap)" "it_key i = k"
    using pinned_in_snapshot [OF inv1 assms(2) run, of k _ e] k(3) assms(4,7) by auto
  have facts: "sv_latest s2 ?b = Some snap" "it_uid i = u" "service_inv s2"
    using sync_shows_view [OF inv1 assms(2,3,6)] i k(1) assms(4) by (auto simp: Let_def)
  have le: "store_le (sv_store s1) (sv_store s2)" by (rule store_le_do_sync [OF inv1 assms(2) run])
  have "validity_of (sv_store s2) ?b = Some v" using le k(2) by (simp add: store_le_def)
  then have "sn_uidvalidity snap = v" using facts by (auto simp: service_inv_def snapshot_ok_def)
  then show ?thesis using i(1) facts(2) by (auto simp: snapshot_uids_def)
qed

subsection \<open>Own label changes\<close>

text \<open>The clock of the event loop never runs backwards.\<close>

definition clock_monotonic :: "'w http_env \<Rightarrow> bool" where
  "clock_monotonic env \<longleftrightarrow> (\<forall>q w. he_time env w \<le> he_time env (snd (he_request env q w)))
     \<and> (\<forall>d w. he_time env w \<le> he_time env (he_sleep env d w)) \<and> (\<forall>w. he_time env w \<le> he_time env (snd (he_rng env w)))"

text \<open>While a hold of \<open>mid\<close> on labels that exclude it has not expired, no entry of \<open>mid\<close> is collected: the
  hold is still there, or the message has already been passed over.\<close>

definition hidden_so_far :: "'w service_cfg \<Rightarrow> str \<Rightarrow> str \<Rightarrow> rat \<Rightarrow> str set \<Rightarrow> collected \<Rightarrow> 'w service \<Rightarrow> bool" where
  "hidden_so_far cfg inbox mid x labels acc s \<longleftrightarrow> x < now cfg s
     \<or> mid \<notin> en_key ` set (fst acc) \<and> (sv_overrides s inbox mid = Some (x, labels) \<or> mid \<in> snd acc)"

lemma hidden_env:
  assumes "clock_monotonic (cf_http cfg)"
  shows "env_keeps (hidden_so_far cfg inbox mid x labels acc) (\<lambda>_. True) (service_http cfg)"
proof -
  have "hidden_so_far cfg inbox mid x labels acc (s\<lparr>sv_world := w\<rparr>)"
    if "hidden_so_far cfg inbox mid x labels acc s" "he_time (cf_http cfg) (sv_world s) \<le> he_time (cf_http cfg) w" for s w
    using that by (auto simp: hidden_so_far_def now_def)
  then show ?thesis using assms
    by (auto simp: env_keeps_def service_http_def Let_def clock_monotonic_def split: prod.splits) (metis snd_conv)+
qed

lemma effective_hidden:
  assumes "hidden_so_far cfg inbox mid x labels acc s" and "mid' \<notin> snd acc"
    and "effective_labels cfg inbox mid' listed s = (l, s')"
  shows "if mid' = mid then x < now cfg s' \<or> l = labels \<and> mid \<notin> en_key ` set (fst acc)
     else hidden_so_far cfg inbox mid x labels acc s'"
  using assms by (auto simp: hidden_so_far_def effective_labels_def now_def split: option.splits prod.splits if_splits)

lemma collect_message_hidden:
  assumes "labels \<inter> md_exclude_labels mdef \<noteq> {}"
  shows "io_valid (hidden_so_far cfg inbox mid x labels acc) (collect_message cfg inbox mdef m acc)
    (hidden_so_far cfg inbox mid x labels)"
proof -
  let ?H = "hidden_so_far cfg inbox mid x labels"
  define mid' where "mid' = jtext (el_repr (cf_lib cfg)) m ''message_id''"
  define R where "R l s = (if mid' = mid then x < now cfg s \<or> l = labels \<and> mid \<notin> en_key ` set (fst acc) else ?H acc s)"
    for l s
  have skip: "R l s \<Longrightarrow> l \<inter> md_exclude_labels mdef \<noteq> {} \<Longrightarrow> ?H (fst acc, insert mid' (snd acc)) s" for l s
    by (auto simp: R_def hidden_so_far_def split: if_splits)
  have take: "R l s \<Longrightarrow> l \<inter> md_exclude_labels mdef = {} \<Longrightarrow> en_key e = mid' \<Longrightarrow>
      ?H (fst acc @ [e], insert mid' (snd acc)) s" for l s e
    using assms by (auto simp: R_def hidden_so_far_def split: if_splits)
  have eff: "io_valid (?H acc) (io_step (effective_labels cfg inbox mid' listed)) R" if "mid' \<notin> snd acc" for listed
    unfolding R_def by (rule io_valid_step) (use effective_hidden [OF _ that] in \<open>metis prod.collapse\<close>)
  have rest: "io_valid (R l) (if l \<inter> md_exclude_labels mdef \<noteq> {} then io_return (fst acc, insert mid' (snd acc))
      else io_bind (io_lift r) (\<lambda>hint. io_bind (io_lift r') (\<lambda>to.
        io_return (fst acc @ [message_entry lib mid' l ts hint to m], insert mid' (snd acc))))) ?H" for l r r' ts lib
  proof (cases "l \<inter> md_exclude_labels mdef = {}")
    case True
    have "io_valid (R l) (io_bind (io_lift r) (\<lambda>hint. io_bind (io_lift r') (\<lambda>to.
        io_return (fst acc @ [message_entry lib mid' l ts hint to m], insert mid' (snd acc))))) ?H"
      by (rule io_valid_bind [where R = "\<lambda>_. R l"], rule io_valid_lift, assumption,
          rule io_valid_bind [where R = "\<lambda>_. R l"], rule io_valid_lift, assumption,
          rule io_valid_return, erule take [OF _ True]) simp
    then show ?thesis using True by simp
  next
    case False
    have "io_valid (R l) (io_return (fst acc, insert mid' (snd acc))) ?H"
      by (rule io_valid_return) (rule skip [OF _ False])
    then show ?thesis using False by simp
  qed
  have body: "io_valid (?H acc) (io_bind (io_lift r0) (\<lambda>listed.
        io_bind (io_step (effective_labels cfg inbox mid' listed)) (\<lambda>l.
          if l \<inter> md_exclude_labels mdef \<noteq> {} then io_return (fst acc, insert mid' (snd acc))
          else io_bind (io_lift r) (\<lambda>hint. io_bind (io_lift r') (\<lambda>to.
            io_return (fst acc @ [message_entry lib mid' l ts hint to m], insert mid' (snd acc))))))) ?H"
    if "mid' \<notin> snd acc" for r0 r r' ts lib
    by (rule io_valid_bind [where R = "\<lambda>_. ?H acc"], rule io_valid_lift, assumption,
        rule io_valid_bind [OF eff [OF that]], rule rest)
  have ret: "io_valid (?H acc) (io_return acc) ?H" by (rule io_valid_return)
  show ?thesis
    unfolding collect_message_def Let_def mid'_def [symmetric]
    by (split if_split, intro conjI impI, rule io_valid_raise, split if_split, intro conjI impI, rule ret, rule body)
qed

lemma collect_messages_hidden:
  assumes "clock_monotonic (cf_http cfg)" and "labels \<inter> md_exclude_labels mdef \<noteq> {}"
  shows "io_valid (\<lambda>s. sv_overrides s inbox mid = Some (x, labels)) (collect_messages cfg api inbox mdef)
    (\<lambda>es s. x < now cfg s \<or> mid \<notin> en_key ` set es)"
  unfolding collect_messages_def list_messages_def
proof (rule io_valid_bind)
  let ?H = "hidden_so_far cfg inbox mid x labels"
  show "io_valid (\<lambda>s. sv_overrides s inbox mid = Some (x, labels))
     (paginate fuel c (service_http cfg) path params key (collect_message cfg inbox mdef) None [] ([], {})) ?H"
    for fuel c path params key
    by (rule io_valid_weaken [OF paginate_valid [where I = ?H, OF hidden_env [OF assms(1)] _ collect_message_hidden [OF assms(2)]]])
       (simp_all add: hidden_so_far_def)
  show "io_valid (?H acc) (io_return (fst acc)) (\<lambda>es s. x < now cfg s \<or> mid \<notin> en_key ` set es)" for acc
    by (rule io_valid_return) (auto simp: hidden_so_far_def)
qed

text \<open>A held message is missing from the next snapshot of a mailbox its labels exclude it from.\<close>

lemma held_is_hidden:
  assumes inv: "service_inv s" and lib: "digest_ok (cf_lib cfg)" and clock: "clock_monotonic (cf_http cfg)"
    and kind: "md_kind mdef = Messages"
    and hold: "sv_overrides s inbox mid = Some (x, labels)" "labels \<inter> md_exclude_labels mdef \<noteq> {}"
    and pins: "mid \<notin> fst ` set (sv_pinned s (Box inbox (md_name mdef)))"
    and run: "do_sync cfg api inbox mdef s = (Inr snap, s')" and time: "sn_synced_at snap \<le> x"
  shows "\<forall>i \<in> set (sn_items snap). it_key i \<noteq> mid"
proof -
  let ?b = "Box inbox (md_name mdef)"
  obtain es s1 where col: "collect cfg api inbox mdef s = (Inr es, s1)" and s1: "same_tables s s1" "listing_ok es" "service_inv s1"
    and fin: "finish_sync cfg inbox mdef es s1 = (Inr snap, s')"
    using do_sync_cases [OF inv lib run] by (metis Inl_Inr_False sum.sel(2))
  have sinv: "store_inv (sv_store s1)" using s1(3) by (simp add: service_inv_def)
  obtain sn where sn: "finish_sync cfg inbox mdef es s1 = (Inr sn, (snd (apply_pins cfg ?b es s1))\<lparr>sv_store := synced_store cfg ?b es s1,
         sv_versions := (sv_versions s1)(?b := sv_versions s1 ?b + 1), sv_latest := (sv_latest s1)(?b \<mapsto> sn)\<rparr>)"
    "sn_synced_at sn = now cfg s1"
    "set (sn_items sn) = set (items_for (synced_store cfg ?b es s1) ?b (fst (apply_pins cfg ?b es s1)))"
    by (rule finish_sync_ok [OF s1(3,2), of cfg inbox mdef])
  have eq: "sn = snap" using fin sn(1) by simp
  have "collect_messages cfg api inbox mdef s = (Inr es, s1)" using col kind by (simp add: collect_def)
  then have "x < now cfg s1 \<or> mid \<notin> en_key ` set es"
    using io_validD [OF collect_messages_hidden [OF clock hold(2)]] hold(1) by blast
  then have es: "mid \<notin> en_key ` set es" using time sn(2) by (simp add: eq)
  have pins1: "pins_ok (sv_pinned s1 ?b)" "mid \<notin> fst ` set (sv_pinned s1 ?b)"
    using s1(1,3) pins by (simp_all add: same_tables_def service_inv_def)
  have "listing_ok (fst (apply_pins cfg ?b es s1))" by (rule listing_ok_pins [where s = s1, OF s1(2) pins1(1)])
  moreover have "mid \<notin> en_key ` set (fst (apply_pins cfg ?b es s1))"
    using es pins1 by (force simp: apply_pins_eq live_pins_def pins_ok_def)
  ultimately show ?thesis
    using sn(3) by (force simp: eq items_for_def build_item_def listing_ok_def list_all_iff entry_ok_def)
qed

text \<open>Items whose \<open>trash\<close> label is held until at least \<open>t0\<close> plus the hold time.\<close>

definition trash_held :: "'w service_cfg \<Rightarrow> str \<Rightarrow> rat \<Rightarrow> (box \<Rightarrow> (str \<times> rat \<times> entry) list) \<Rightarrow> item set \<Rightarrow> 'w service \<Rightarrow> bool" where
  "trash_held cfg inbox t0 pins K s \<longleftrightarrow> t0 \<le> now cfg s \<and> sv_pinned s = pins
     \<and> (\<forall>i \<in> K. \<exists>x l. sv_overrides s inbox (it_id i) = Some (x, l) \<and> ''trash'' \<in> l \<and> t0 + override_ttl \<le> x)"

lemma trash_held_env:
  assumes "clock_monotonic (cf_http cfg)"
  shows "env_keeps (trash_held cfg inbox t0 p K) (\<lambda>_. True) (service_http cfg)"
proof -
  have "trash_held cfg inbox t0 p K (s\<lparr>sv_world := w\<rparr>)"
    if "trash_held cfg inbox t0 p K s" "he_time (cf_http cfg) (sv_world s) \<le> he_time (cf_http cfg) w" for s w
    using that by (auto simp: trash_held_def now_def)
  then show ?thesis using assms
    by (auto simp: env_keeps_def service_http_def Let_def clock_monotonic_def split: prod.splits) (metis snd_conv)+
qed

lemma trash_held_hold:
  "trash_held cfg inbox t0 p K s \<Longrightarrow> ''trash'' \<in> l \<Longrightarrow> trash_held cfg inbox t0 p (insert i K) (hold_labels cfg inbox (it_id i) l s)"
  by (auto simp: trash_held_def hold_labels_def now_def)

lemma trashed_labels_trash: "trashed_labels lib i result = Inr l \<Longrightarrow> ''trash'' \<in> l"
  by (auto simp: trashed_labels_def split: if_splits)

lemma trash_message_held:
  assumes "clock_monotonic (cf_http cfg)"
  shows "io_valid (trash_held cfg inbox t0 p K) (trash_message cfg api inbox i) (\<lambda>_. trash_held cfg inbox t0 p (insert i K))"
    and "trash_held cfg inbox t0 p K s \<Longrightarrow> fst (trash_message cfg api inbox i s) = Inl e \<Longrightarrow>
      trash_held cfg inbox t0 p K (snd (trash_message cfg api inbox i s))"
proof -
  let ?P = "trash_held cfg inbox t0 p"
  have upd: "io_keeps (?P K) (update_labels api (service_http cfg) inbox (it_id i) [''trash''] [])"
    unfolding update_labels_def by (rule api_json_keeps [OF trash_held_env [OF assms]]) simp
  show "io_valid (?P K) (trash_message cfg api inbox i) (\<lambda>_. ?P (insert i K))"
    unfolding trash_message_def
    by (rule io_valid_bind [OF io_valid_keeps [OF upd]], rule io_valid_bind [where R = "\<lambda>l s. ?P K s \<and> ''trash'' \<in> l"],
        rule io_valid_lift, simp add: trashed_labels_trash, rule io_valid_modify, rule trash_held_hold) auto
  show "?P K (snd (trash_message cfg api inbox i s))" if "?P K s" "fst (trash_message cfg api inbox i s) = Inl e"
    using upd that unfolding trash_message_def io_keeps_def
    by (auto simp: io_bind_def split: prod.splits sum.splits)
qed

lemma remove_one_held:
  assumes "clock_monotonic (cf_http cfg)" and "md_kind mdef = Messages"
  shows "io_valid (trash_held cfg inbox t0 p K) (remove_one cfg api inbox mdef i acc)
    (\<lambda>x s. (fst acc \<noteq> [] \<longrightarrow> fst x \<noteq> []) \<and> trash_held cfg inbox t0 p (if fst x = [] then insert i K else K) s)"
proof -
  let ?P = "trash_held cfg inbox t0 p"
  have sub: "?P (insert i K) s \<Longrightarrow> ?P K s" for s by (simp add: trash_held_def)
  show ?thesis
    unfolding io_valid_def
  proof (intro allI impI)
    fix s x s' assume P: "?P K s" and run: "remove_one cfg api inbox mdef i acc s = (Inr x, s')"
    obtain q s1 where q: "trash_message cfg api inbox i s = (q, s1)" by fastforce
    have "s1 = s'" "x = (case q of Inl e \<Rightarrow> (fst acc @ [e], snd acc) | Inr _ \<Rightarrow> (fst acc, True))"
      using run q assms(2) by (auto simp: remove_one_def io_bind_def io_try_def split: sum.splits)
    then show "(fst acc \<noteq> [] \<longrightarrow> fst x \<noteq> []) \<and> ?P (if fst x = [] then insert i K else K) s'"
      using P q trash_message_held [OF assms(1)] sub
      by (cases q) (auto simp: io_valid_def, (metis fst_conv snd_conv)+)
  qed
qed

lemma remove_all_held:
  assumes "clock_monotonic (cf_http cfg)" and "md_kind mdef = Messages"
  shows "io_valid (trash_held cfg inbox t0 p K) (io_fold (remove_one cfg api inbox mdef) items acc)
    (\<lambda>x s. (fst acc \<noteq> [] \<longrightarrow> fst x \<noteq> []) \<and> (fst x = [] \<longrightarrow> trash_held cfg inbox t0 p (K \<union> set items) s))"
proof (induction items arbitrary: K acc)
  case Nil
  show ?case by (auto simp: io_valid_def)
next
  case (Cons i items)
  show ?case
    unfolding io_valid_def
  proof (intro allI impI)
    let ?P = "trash_held cfg inbox t0 p"
    fix s x s' assume P: "?P K s" and run: "io_fold (remove_one cfg api inbox mdef) (i # items) acc s = (Inr x, s')"
    then obtain y s1 where y: "remove_one cfg api inbox mdef i acc s = (Inr y, s1)"
      and rest: "io_fold (remove_one cfg api inbox mdef) items y s1 = (Inr x, s')"
      by (auto simp: io_bind_eq)
    have 1: "fst acc \<noteq> [] \<longrightarrow> fst y \<noteq> []" "?P (if fst y = [] then insert i K else K) s1"
      using io_validD [OF remove_one_held [OF assms] P y] by auto
    have 2: "(fst y \<noteq> [] \<longrightarrow> fst x \<noteq> []) \<and>
        (fst x = [] \<longrightarrow> ?P ((if fst y = [] then insert i K else K) \<union> set items) s')"
      using io_validD [OF Cons.IH 1(2) rest] .
    then show "(fst acc \<noteq> [] \<longrightarrow> fst x \<noteq> []) \<and> (fst x = [] \<longrightarrow> ?P (K \<union> set (i # items)) s')"
      using 1(1) by (auto split: if_splits)
  qed
qed

text \<open>C21: Expunged messages do not come back: after a successful EXPUNGE of messages, every sync that ends
  within the hold time of 60 seconds gives a snapshot without them, even if the upstream listing still
  shows them with their old labels (a mailbox that excludes \<open>trash\<close> and has not pinned them).\<close>

theorem expunged_messages_stay_hidden:
  assumes "service_inv s" and "digest_ok (cf_lib cfg)" and "clock_monotonic (cf_http cfg)"
    and "lookup cfg nm = Some mdef" and "md_kind mdef = Messages" and "''trash'' \<in> md_exclude_labels mdef"
    and "expunge_items cfg api inbox nm items s = (Inr [], s1)" and "i \<in> set items"
    and "it_id i \<notin> fst ` set (sv_pinned s (Box inbox (md_name mdef)))"
    and "sync cfg api inbox nm True s1 = (Inr snap, s2)" and "sn_synced_at snap \<le> now cfg s + override_ttl"
  shows "\<forall>j \<in> set (sn_items snap). it_key j \<noteq> it_id i"
proof -
  let ?P = "trash_held cfg inbox (now cfg s) (sv_pinned s)"
  have inv1: "service_inv s1" using good_keeps [OF good.expunge_kept assms(2)] assms(1,7) by (metis io_keeps_def snd_conv)
  have P0: "?P {} s" by (simp add: trash_held_def)
  obtain r sf where f: "io_fold (remove_one cfg api inbox mdef) items ([], False) s = (Inr ([], r), sf)"
    and s1: "s1 = sf \<or> s1 = bump (Box inbox (md_name mdef)) sf"
    using assms(4,7) by (auto simp: expunge_items_def io_bind_eq io_then_eq io_when_def split: if_splits)
  have "?P (set items) sf"
    using io_validD [OF remove_all_held [OF assms(3,5)] P0 f] by simp
  then have "?P (set items) s1" using s1 by (auto simp: trash_held_def bump_def now_def)
  then obtain x l where hold: "sv_overrides s1 inbox (it_id i) = Some (x, l)" "''trash'' \<in> l" "now cfg s + override_ttl \<le> x"
    and pins: "sv_pinned s1 = sv_pinned s" using assms(8) by (auto simp: trash_held_def)
  show ?thesis
    by (rule held_is_hidden [OF inv1 assms(2,3,5) hold(1) _ _ assms(10) [unfolded sync_forced [OF assms(4)]]])
       (use hold assms(6,9,11) pins in auto)
qed

subsection \<open>Sizes\<close>

text \<open>A cache that fixes the size of an item: it holds the body, or a remembered size that can only be read
  as \<open>n\<close>.\<close>

definition fixes_size :: "byte_cache \<Rightarrow> str \<Rightarrow> str \<Rightarrow> int \<Rightarrow> bool" where
  "fixes_size c bk sk n \<longleftrightarrow> (case cache_content c bk of
     Some d \<Rightarrow> int (length d) = n
   | None \<Rightarrow> \<exists>v. cache_content c sk = Some v \<and> (\<forall>m. size_of_text v = Inr m \<longrightarrow> m = n))"

definition size_forgotten :: "byte_cache \<Rightarrow> str \<Rightarrow> str \<Rightarrow> bool" where
  "size_forgotten c bk sk \<longleftrightarrow> cache_content c bk = None \<and> cache_content c sk = None"

lemma size_text_written: "size_of_text (int_str n) = Inr m \<Longrightarrow> m = n"
  by (auto simp: size_of_text_def dest: int_text_roundtrip split: option.splits)

lemma ckey_kinds [simp]: "ckey inbox ''size'' k \<noteq> ckey inbox ''body'' k'" "ckey inbox ''body'' k \<noteq> ckey inbox ''size'' k'"
  by (simp_all add: ckey_def)

lemma cache_ops:
  "cache_read k s = (Inr (cache_content (sv_cache s) k), s\<lparr>sv_cache := snd (cache_get (sv_cache s) k)\<rparr>)"
  "cache_write k v s = (Inr (), s\<lparr>sv_cache := cache_put (sv_cache s) k v\<rparr>)"
  by (auto simp: cache_read_def cache_write_def cache_get_simps [symmetric] split: prod.splits)

text \<open>What the calls of the API leave alone: the cache.\<close>

lemma api_cache:
  "get_raw_meta api (service_http cfg) inbox mid s = (r, s') \<Longrightarrow> sv_cache s' = sv_cache s"
  "download api (service_http cfg) url s = (r', s') \<Longrightarrow> sv_cache s' = sv_cache s"
proof -
  have "io_keeps (\<lambda>x. sv_cache x = sv_cache s) (get_raw_meta api (service_http cfg) inbox mid)"
    "io_keeps (\<lambda>x. sv_cache x = sv_cache s) (download api (service_http cfg) url)"
    by (rule api_ops_keep, rule service_http_keeps, simp)+
  then show "get_raw_meta api (service_http cfg) inbox mid s = (r, s') \<Longrightarrow> sv_cache s' = sv_cache s"
    "download api (service_http cfg) url s = (r', s') \<Longrightarrow> sv_cache s' = sv_cache s"
    unfolding io_keeps_def by (metis snd_conv)+
qed

lemma put_fixes:
  assumes "cache_inv c" and "sk \<noteq> bk"
  shows "let c' = cache_put (cache_put c bk d) sk (int_str (int (length d)))
     in cache_inv c' \<and> (size_forgotten c' bk sk \<or> fixes_size c' bk sk (int (length d)))"
proof -
  let ?c1 = "cache_put c bk d"
  let ?c2 = "cache_put ?c1 sk (int_str (int (length d)))"
  have inv: "cache_inv ?c1" "cache_inv ?c2" using assms(1) by (simp_all add: cache_inv_put)
  have sk: "cache_content ?c2 sk = Some v \<Longrightarrow> v = int_str (int (length d))" for v
    using inv(1) by (rule cache_put_content_same)
  have bk: "cache_content ?c2 bk = Some d' \<Longrightarrow> d' = d" for d'
    using cache_put_content_other [OF inv(1)] cache_put_content_same [OF assms(1)] assms(2) by metis
  show ?thesis unfolding Let_def fixes_size_def size_forgotten_def
    using inv(2) sk bk by (auto split: option.splits dest: size_text_written)
qed

lemma size_of_fixes:
  fixes i inbox
  defines "bk \<equiv> ckey inbox ''body'' (it_key i)" and "sk \<equiv> ckey inbox ''size'' (it_key i)"
  assumes inv: "cache_inv (sv_cache s)" and mdef: "lookup cfg nm = Some mdef" "md_kind mdef = Messages"
    and run: "size_of cfg api inbox nm i s = (Inr n, s')"
  shows "cache_inv (sv_cache s')"
    and "size_forgotten (sv_cache s') bk sk \<or> fixes_size (sv_cache s') bk sk n"
    and "fixes_size (sv_cache s) bk sk m \<Longrightarrow> n = m"
proof -
  note keys = bk_def [symmetric] sk_def [symmetric]
  let ?c1 = "snd (cache_get (sv_cache s) bk)"
  have inv1: "cache_inv ?c1" "cache_content ?c1 = cache_content (sv_cache s)"
    using inv by (simp_all add: cache_inv_get cache_get_content)
  have inv2: "cache_inv (snd (cache_get ?c1 sk))" "cache_content (snd (cache_get ?c1 sk)) = cache_content (sv_cache s)"
    using inv1 by (simp_all add: cache_inv_get cache_get_content)
  have "cache_inv (sv_cache s') \<and> (size_forgotten (sv_cache s') bk sk \<or> fixes_size (sv_cache s') bk sk n)
    \<and> (fixes_size (sv_cache s) bk sk m \<longrightarrow> n = m)" for m
  proof (cases "cache_content (sv_cache s) bk")
    case (Some d)
    then have "n = int (length d)" "s' = s\<lparr>sv_cache := ?c1\<rparr>"
      using run by (auto simp: size_of_def io_bind_def cache_ops keys)
    then show ?thesis using inv1 Some by (simp add: fixes_size_def)
  next
    case None
    then have run1: "size_message cfg api inbox i (s\<lparr>sv_cache := ?c1\<rparr>) = (Inr n, s')"
      using run mdef by (simp add: size_of_def io_bind_def cache_ops keys)
    show ?thesis
    proof (cases "cache_content (sv_cache s) sk")
      case (Some v)
      then have "size_of_text v = Inr n" "sv_cache s' = snd (cache_get ?c1 sk)"
        using run1 inv1 by (auto simp: size_message_def io_bind_def cache_ops keys)
      then show ?thesis using inv2 None Some by (auto simp: fixes_size_def)
    next
      case forgot: None
      obtain meta s2 where m: "get_raw_meta api (service_http cfg) inbox (it_id i) (s\<lparr>sv_cache := snd (cache_get ?c1 sk)\<rparr>) = (Inr meta, s2)"
        and n: "n = rm_size meta" and s': "s' = s2\<lparr>sv_cache := cache_put (sv_cache s2) sk (int_str n)\<rparr>"
        using run1 inv1 forgot by (auto simp: size_message_def io_bind_eq io_then_eq cache_ops keys)
      have c2: "sv_cache s2 = snd (cache_get ?c1 sk)" using api_cache(1) [OF m] by simp
      let ?c = "cache_put (snd (cache_get ?c1 sk)) sk (int_str n)"
      have "cache_inv ?c" using inv2 by (simp add: cache_inv_put)
      moreover have "cache_content ?c bk = None"
        using cache_put_content_other [OF inv2(1), of bk sk "int_str n"] None inv2(2)
        by (cases "cache_content ?c bk") (auto simp: bk_def sk_def)
      moreover have "cache_content ?c sk = Some v \<Longrightarrow> v = int_str n" for v using inv2(1) by (rule cache_put_content_same)
      ultimately show ?thesis using None forgot
        by (auto simp: s' c2 fixes_size_def size_forgotten_def dest: size_text_written)
    qed
  qed
  then show "cache_inv (sv_cache s')" "size_forgotten (sv_cache s') bk sk \<or> fixes_size (sv_cache s') bk sk n"
    "fixes_size (sv_cache s) bk sk m \<Longrightarrow> n = m" by blast+
qed

lemma raw_bytes_fixes:
  fixes i inbox
  defines "bk \<equiv> ckey inbox ''body'' (it_key i)" and "sk \<equiv> ckey inbox ''size'' (it_key i)"
  assumes inv: "cache_inv (sv_cache s)" and mdef: "lookup cfg nm = Some mdef" "md_kind mdef = Messages"
    and run: "raw_bytes cfg api inbox nm i s = (Inr d, s')"
  shows "cache_inv (sv_cache s')"
    and "size_forgotten (sv_cache s') bk sk \<or> fixes_size (sv_cache s') bk sk (int (length d))"
    and "fixes_size (sv_cache s) bk sk m \<Longrightarrow> int (length d) = m"
proof -
  note keys = bk_def [symmetric] sk_def [symmetric]
  let ?c1 = "snd (cache_get (sv_cache s) bk)"
  have inv1: "cache_inv ?c1" "cache_content ?c1 = cache_content (sv_cache s)"
    using inv by (simp_all add: cache_inv_get cache_get_content)
  have neq: "sk \<noteq> bk" by (simp add: bk_def sk_def)
  have "cache_inv (sv_cache s') \<and> (size_forgotten (sv_cache s') bk sk \<or> fixes_size (sv_cache s') bk sk (int (length d)))
    \<and> (fixes_size (sv_cache s) bk sk m \<longrightarrow> int (length d) = m)" for m
  proof (cases "cache_content (sv_cache s) bk")
    case (Some d')
    then have "d = d'" "s' = s\<lparr>sv_cache := ?c1\<rparr>"
      using run mdef by (auto simp: raw_bytes_def io_bind_def cache_ops keys)
    then show ?thesis using inv1 Some by (simp add: fixes_size_def)
  next
    case None
    then have run1: "raw_message cfg api inbox i (s\<lparr>sv_cache := ?c1\<rparr>) = (Inr d, s')"
      using run mdef by (simp add: raw_bytes_def io_bind_def cache_ops keys)
    then obtain meta s2 s3 where ch: "checked_meta cfg api inbox i (s\<lparr>sv_cache := ?c1\<rparr>) = (Inr meta, s2)"
      and dl: "download api (service_http cfg) (rm_download_url meta) s2 = (Inr d, s3)"
      and len: "int (length d) = rm_size meta"
      and s': "sv_cache s' = cache_put (cache_put (sv_cache s3) bk d) sk (int_str (int (length d)))"
      unfolding raw_message_def by (auto simp: io_bind_eq io_then_eq cache_ops keys split: if_splits)
    obtain meta' s1 where m: "get_raw_meta api (service_http cfg) inbox (it_id i) (s\<lparr>sv_cache := ?c1\<rparr>) = (Inr meta', s1)"
      and rest: "(case cache_content (sv_cache s1) sk of None \<Rightarrow> meta' = meta
        | Some v \<Rightarrow> meta' = meta \<and> size_of_text v = Inr (rm_size meta))"
      and s2: "sv_cache s2 = snd (cache_get (sv_cache s1) sk)"
      using ch unfolding checked_meta_def
      by (auto simp: io_bind_eq cache_ops keys split: option.splits if_splits)
    have c1: "sv_cache s1 = ?c1" using api_cache(1) [OF m] by simp
    have c3: "sv_cache s3 = snd (cache_get ?c1 sk)" using api_cache(2) [OF dl] s2 c1 by simp
    have "cache_inv (sv_cache s3)" using inv1 by (simp add: c3 cache_inv_get)
    then have "cache_inv (sv_cache s')" "size_forgotten (sv_cache s') bk sk \<or> fixes_size (sv_cache s') bk sk (int (length d))"
      using put_fixes [OF _ neq] s' by (auto simp: Let_def)
    moreover have "fixes_size (sv_cache s) bk sk m \<Longrightarrow> int (length d) = m"
      using rest None len inv1 by (auto simp: fixes_size_def c1)
    ultimately show ?thesis by blast
  qed
  then show "cache_inv (sv_cache s')" "size_forgotten (sv_cache s') bk sk \<or> fixes_size (sv_cache s') bk sk (int (length d))"
    "fixes_size (sv_cache s) bk sk m \<Longrightarrow> int (length d) = m" by blast+
qed


end
