(* ===== verification/Mailbox_Views.thy ===== *)
theory Mailbox_Views
  imports Mailbox_Sync
begin

text \<open>
  How the snapshots of a mailbox follow each other while the service runs: an item that arrives in a later
  snapshot has a UID at or above the UIDNEXT of every earlier one. The sessions rely on it: a new message is
  always behind the ones a client knows, so EXISTS describes it (\<open>Session\<close>).
\<close>

text \<open>What the latest snapshot of a mailbox shows: its UIDNEXT and its UIDs.\<close>

definition shown :: "'w service \<Rightarrow> box \<Rightarrow> (nat \<times> nat set) option" where
  "shown s b = map_option (\<lambda>sn. (sn_uidnext sn, set (snapshot_uids sn))) (sv_latest s b)"

text \<open>It shows all live UIDs below its UIDNEXT.\<close>

definition covers :: "'w service \<Rightarrow> bool" where
  "covers s \<longleftrightarrow> (\<forall>b n U k u. shown s b = Some (n, U) \<longrightarrow> live_of (sv_store s) b k = Some u \<longrightarrow> u < n \<longrightarrow> u \<in> U)"

text \<open>A later snapshot has a larger UIDNEXT, and nothing new below the old one.\<close>

definition shown_le :: "nat \<times> nat set \<Rightarrow> nat \<times> nat set \<Rightarrow> bool" where
  "shown_le v v' \<longleftrightarrow> fst v \<le> fst v' \<and> (\<forall>u \<in> snd v'. u < fst v \<longrightarrow> u \<in> snd v)"

definition latest_le :: "'w service \<Rightarrow> 'w service \<Rightarrow> bool" where
  "latest_le s s' \<longleftrightarrow> (\<forall>b v. shown s b = Some v \<longrightarrow> (\<exists>v'. shown s' b = Some v' \<and> shown_le v v'))"

definition grown :: "'w service_cfg \<Rightarrow> 'w service \<Rightarrow> 'w service \<Rightarrow> bool" where
  "grown cfg s0 s \<longleftrightarrow> service_good cfg s \<and> covers s \<and> store_le (sv_store s0) (sv_store s) \<and> latest_le s0 s"

lemma shown_le_refl [simp]: "shown_le v v"
  by (simp add: shown_le_def)

lemma shown_le_trans: "shown_le a b \<Longrightarrow> shown_le b c \<Longrightarrow> shown_le a c"
  unfolding shown_le_def by (meson le_trans less_le_trans)

lemma latest_le_refl [simp]: "latest_le s s"
  by (simp add: latest_le_def)

lemma latest_le_trans: "latest_le a b \<Longrightarrow> latest_le b c \<Longrightarrow> latest_le a c"
  unfolding latest_le_def by (meson shown_le_trans)

lemma grown_refl: "service_good cfg s \<Longrightarrow> covers s \<Longrightarrow> grown cfg s s"
  by (simp add: grown_def)

lemma grown_trans: "grown cfg a b \<Longrightarrow> grown cfg b c \<Longrightarrow> grown cfg a c"
  unfolding grown_def by (meson latest_le_trans store_le_trans)

text \<open>The fields that matter.\<close>

lemma shown_fields [simp]:
  "shown (s\<lparr>sv_world := w\<rparr>) = shown s" "shown (s\<lparr>sv_cache := c\<rparr>) = shown s"
  "shown (s\<lparr>sv_overrides := h\<rparr>) = shown s" "shown (s\<lparr>sv_generation := g\<rparr>) = shown s"
  "shown (s\<lparr>sv_store := st\<rparr>) = shown s" "shown (s\<lparr>sv_pinned := ps\<rparr>) = shown s"
  by (simp_all add: shown_def fun_eq_iff)

lemma shown_pins [simp]: "shown (pin cfg b k e s) = shown s" "shown (unpin b k s) = shown s"
  "sv_store (pin cfg b k e s) = sv_store s" "sv_store (unpin b k s) = sv_store s"
  by (simp_all add: pin_def unpin_def Let_def)

lemma shown_replace [simp]: "shown (replace_item b i s) = shown s"
proof -
  have u: "snapshot_uids (sn\<lparr>sn_items := map (\<lambda>j. if it_uid j = it_uid i then i else j) (sn_items sn)\<rparr>)
      = snapshot_uids sn" for sn
    by (simp add: snapshot_uids_def)
  show ?thesis by (rule ext) (auto simp: shown_def replace_item_def u split: option.splits)
qed

lemma views_frame:
  assumes "shown s' = shown s"
  shows "latest_le s0 s' = latest_le s0 s" and "live_of (sv_store s') = live_of (sv_store s) \<Longrightarrow> covers s' = covers s"
  using assms by (simp_all add: latest_le_def covers_def)

lemma live_of_marks [simp]: "live_of (set_deleted st b us v) b' = live_of st b'"
  by (rule ext) (simp add: live_of_def live_map_def)

lemma store_le_marks [simp]: "store_le st0 (set_deleted st b us v) = store_le st0 st"
  by (simp add: store_le_def owner_of_def uidnext_of_def validity_of_def)

lemma ensured_live:
  assumes "store_inv st" and "live_of (snd (ensure_uids e st b ks)) b' k = Some u" and "u < uidnext_of st b'"
  shows "live_of st b' k = Some u"
proof (cases "b' = b")
  case True
  then show ?thesis
    using assms store_uids.ensure_new [OF assms(1), of b k e ks u] store_uids.ensure_keeps [OF assms(1), of b k _ e ks]
    by (cases "live_of st b k") fastforce+
next
  case False
  then show ?thesis using assms store_uids.ensure_other [OF assms(1) False, of e ks] by simp
qed

lemma shown_bound: "service_inv s \<Longrightarrow> shown s b = Some (n, U) \<Longrightarrow> n \<le> uidnext_of (sv_store s) b"
  by (auto simp: service_inv_def snapshot_ok_def shown_def)

lemma covers_allocate:
  assumes "covers s" and "service_inv s"
  shows "covers (s\<lparr>sv_store := snd (ensure_uids e (sv_store s) b ks)\<rparr>)"
proof -
  have sinv: "store_inv (sv_store s)" using assms(2) by (simp add: service_inv_def)
  show ?thesis
    using assms(1) ensured_live [OF sinv] shown_bound [OF assms(2)] unfolding covers_def
    by simp (meson less_le_trans)
qed

lemma mailbox_info_live [simp]: "live_of (snd (mailbox_info e st b)) b' = live_of st b'"
  using ensure_mailbox_frame [of e st b]
  by (intro ext) (simp add: mailbox_info_def live_of_def live_map_def)

text \<open>A sync: what it shows is live, and below the old UIDNEXT it was live before.\<close>

lemma do_sync_views:
  assumes good: "service_good cfg s" and cov: "covers s" and run: "do_sync cfg api inbox mdef s = (r, s')"
  shows "covers s' \<and> store_le (sv_store s) (sv_store s') \<and> latest_le s s'"
proof -
  let ?b = "Box inbox (md_name mdef)"
  have inv: "service_inv s" and lib: "digest_ok (cf_lib cfg)" using good by (simp_all add: service_good_def)
  have sinv: "store_inv (sv_store s)" using inv by (simp add: service_inv_def)
  show ?thesis
  proof (rule do_sync_cases [OF inv lib run])
    fix e assume "same_tables s s'"
    then show ?thesis using cov views_frame(1) [of s' s s] views_frame(2) [of s' s] by (simp add: same_tables_def shown_def fun_eq_iff)
  next
    fix es s1 snap
    assume s1: "same_tables s s1" "listing_ok es" "service_inv s1"
      and fin: "finish_sync cfg inbox mdef es s1 = (Inr snap, s')"
    let ?st = "synced_store cfg ?b es s1"
    obtain sn where sn: "finish_sync cfg inbox mdef es s1 = (Inr sn, (snd (apply_pins cfg ?b es s1))\<lparr>sv_store := ?st,
           sv_versions := (sv_versions s1)(?b := sv_versions s1 ?b + 1), sv_latest := (sv_latest s1)(?b \<mapsto> sn)\<rparr>)"
      "shows_live ?st ?b sn" "sn_uidnext sn = uidnext_of ?st ?b"
      by (rule finish_sync_ok [OF s1(3,2), of cfg inbox mdef])
    have same: "sv_store s1 = sv_store s" "sv_latest s1 = sv_latest s" using s1(1) by (simp_all add: same_tables_def)
    have s': "sv_store s' = ?st" "sv_latest s' = (sv_latest s)(?b \<mapsto> sn)" using sn(1) fin same by auto
    note rec = synced_store_def [of cfg ?b es s1, unfolded same]
    have le: "store_le (sv_store s) ?st" unfolding rec by (rule store_le_reconcile [OF sinv])
    have other: "live_of ?st b' = live_of (sv_store s) b'" if "b' \<noteq> ?b" for b'
      unfolding rec by (rule store_uids.reconcile_other [OF sinv that])
    have sees: "live_of ?st ?b k = Some u \<longleftrightarrow> (\<exists>i \<in> set (sn_items sn). it_key i = k \<and> it_uid i = u)" for k u
      using sn(2) by (simp add: shows_live_def)
    have old: "live_of (sv_store s) ?b k = Some u" if "live_of ?st ?b k = Some u" "u < uidnext_of (sv_store s) ?b" for k u
    proof (cases "live_of (sv_store s) ?b k")
      case None
      then show ?thesis using that store_uids.reconcile_fresh [OF sinv None] unfolding rec by fastforce
    next
      case (Some v)
      have "k \<in> fst ` set (entry_keys (fst (apply_pins cfg ?b es s1)))"
        using that(1) store_uids.reconcile_dom [OF sinv] unfolding rec by blast
      then show ?thesis using store_uids.reconcile_stable [OF sinv Some] that(1) Some unfolding rec by simp
    qed
    have view: "shown s' = (shown s)(?b \<mapsto> (uidnext_of ?st ?b, set (snapshot_uids sn)))"
      using s' sn(3) by (auto simp: shown_def fun_eq_iff)
    have "covers s'"
      unfolding covers_def
    proof (intro allI impI)
      fix b n U k u
      assume v: "shown s' b = Some (n, U)" and k: "live_of (sv_store s') b k = Some u" and u: "u < n"
      show "u \<in> U"
      proof (cases "b = ?b")
        case True
        then have "U = set (snapshot_uids sn)" using v by (simp add: view)
        moreover have "u \<in> set (snapshot_uids sn)" using sees k True by (auto simp: s'(1) snapshot_uids_def)
        ultimately show ?thesis by simp
      next
        case False
        then show ?thesis using cov v k u other [OF False] unfolding covers_def by (simp add: view s'(1))
      qed
    qed
    moreover have "shown_le v (uidnext_of ?st ?b, set (snapshot_uids sn))" if l: "shown s ?b = Some v" for v
    proof -
      obtain n U where v: "v = (n, U)" by (cases v)
      have n: "n \<le> uidnext_of (sv_store s) ?b" using shown_bound [OF inv] l v by simp
      have "u \<in> U" if below: "u \<in> set (snapshot_uids sn)" "u < n" for u
      proof -
        obtain i where "i \<in> set (sn_items sn)" "it_uid i = u" using below(1) by (auto simp: snapshot_uids_def)
        then have "live_of ?st ?b (it_key i) = Some u" using sees by blast
        then have "live_of (sv_store s) ?b (it_key i) = Some u" using old below(2) n by simp
        then show ?thesis using cov l below(2) v unfolding covers_def by blast
      qed
      moreover have "uidnext_of (sv_store s) ?b \<le> uidnext_of ?st ?b" using le by (simp add: store_le_def)
      ultimately show ?thesis using n by (simp add: shown_le_def v)
    qed
    ultimately show ?thesis using le unfolding s'(1) latest_le_def view by auto
  qed
qed

lemma grown_frame:
  assumes "grown cfg s0 s" and "service_good cfg s \<Longrightarrow> service_good cfg s'" and "shown s' = shown s"
    and "live_of (sv_store s') = live_of (sv_store s)" and "store_le (sv_store s0) (sv_store s') = store_le (sv_store s0) (sv_store s)"
  shows "grown cfg s0 s'"
  using assms views_frame [OF assms(3)] by (simp add: grown_def)

lemma grown_world: "grown cfg s0 s \<Longrightarrow> grown cfg s0 (s\<lparr>sv_world := w\<rparr>)"
  by (erule grown_frame) (simp_all add: service_good_def)

interpretation views: service_law cfg api inbox "grown cfg s0" for cfg api inbox s0
proof (unfold_locales, goal_cases)
  case 1
  show ?case
    by (rule service_http_keeps) (rule grown_world)
next
  case (8 nm ks)
  let ?b = "Box inbox nm"
  have "grown cfg s0 (snd (allocate cfg ?b ks s))" if "grown cfg s0 s" for s :: "'a service"
  proof -
    have inv: "service_inv s" using that by (simp add: grown_def service_good_def)
    obtain m st where a: "allocate cfg ?b ks s = (Inr m, s\<lparr>sv_store := st\<rparr>)"
        "st = snd (ensure_uids (store_env_of cfg s) (sv_store s) ?b ks)" "store_le (sv_store s) st"
        "service_inv (s\<lparr>sv_store := st\<rparr>)" by (rule allocate_ok [OF inv])
    have "covers (s\<lparr>sv_store := st\<rparr>)" unfolding a(2) by (rule covers_allocate [OF _ inv]) (use that in \<open>simp add: grown_def\<close>)
    moreover have "store_le (sv_store s0) st" using that a(3) store_le_trans unfolding grown_def by blast
    ultimately show ?thesis
      using that a(4) views_frame(1) [of "s\<lparr>sv_store := st\<rparr>" s s0] by (simp add: a(1) grown_def service_good_def)
  qed
  then show ?case by (simp add: io_keeps_def)
next
  case (9 nm)
  show ?case unfolding io_keeps_def
  proof (intro allI impI)
    fix s :: "'a service" assume s: "grown cfg s0 s"
    let ?st = "snd (mailbox_info (store_env_of cfg s) (sv_store s) (Box inbox nm))"
    have run: "snd (service_info cfg inbox nm s) = s\<lparr>sv_store := ?st\<rparr>"
      by (simp add: service_info_def split: prod.splits)
    have inv: "service_inv s" using s by (simp add: grown_def service_good_def)
    then have sinv: "store_inv (sv_store s)" by (simp add: service_inv_def)
    have "service_inv (s\<lparr>sv_store := ?st\<rparr>)"
      using service_inv_info [of cfg inbox nm] inv run by (metis io_keeps_def)
    moreover have "covers (s\<lparr>sv_store := ?st\<rparr>)" using s by (simp add: grown_def views_frame(2) [of "s\<lparr>sv_store := ?st\<rparr>" s] fun_eq_iff)
    moreover have "store_le (sv_store s0) ?st" using s store_le_trans [OF _ store_le_info [OF sinv]] unfolding grown_def by blast
    ultimately show "grown cfg s0 (snd (service_info cfg inbox nm s))"
      using s views_frame(1) [of "s\<lparr>sv_store := ?st\<rparr>" s s0] by (simp add: run grown_def service_good_def)
  qed
next
  case (10 s b i)
  then show ?case using good.replaces [of cfg s b i] by (simp add: grown_def views_frame [OF shown_replace])
next
  case (11 s nm mdef)
  obtain r s' where run: "do_sync cfg api inbox mdef s = (r, s')" by fastforce
  show ?case
    using 11 do_sync_views [OF _ _ run] good.resyncs [of cfg s nm mdef api inbox] latest_le_trans store_le_trans
    unfolding grown_def run snd_conv by blast
qed (erule grown_frame; simp add: good.cache good.holds good.generations good.marks good.pins good.unpins
  fun_eq_iff)+

section \<open>Keys of messages\<close>

text \<open>Outside Drafts the key of an item is its id, in the pins and in the snapshots. The table of mailboxes has
  drafts in Drafts only, and a mailbox is found by its own name.\<close>

definition table_ok :: "'w service_cfg \<Rightarrow> bool" where
  "table_ok cfg \<longleftrightarrow> (\<forall>nm mdef. lookup cfg nm = Some mdef \<longrightarrow>
     (md_kind mdef = DraftItems \<longleftrightarrow> md_name mdef = ''Drafts'') \<and> lookup cfg (md_name mdef) = Some mdef)"

definition keyed_box :: "snapshot option \<Rightarrow> (str \<times> rat \<times> entry) list \<Rightarrow> bool" where
  "keyed_box sn ps \<longleftrightarrow> list_all (\<lambda>i. it_key i = it_id i) (case sn of None \<Rightarrow> [] | Some s \<Rightarrow> sn_items s)
     \<and> list_all (\<lambda>(k, x, e). en_id e = en_key e) ps"

definition keyed :: "'w service \<Rightarrow> bool" where
  "keyed s \<longleftrightarrow> (\<forall>b. box_name b \<noteq> ''Drafts'' \<longrightarrow> keyed_box (sv_latest s b) (sv_pinned s b))"

lemma keyed_cong: "sv_latest s' = sv_latest s \<Longrightarrow> sv_pinned s' = sv_pinned s \<Longrightarrow> keyed s' = keyed s"
  by (simp add: keyed_def)

lemma keyed_upd:
  assumes "keyed s" and "box_name b \<noteq> ''Drafts'' \<Longrightarrow> keyed_box sn ps"
    and "sv_latest s' = (sv_latest s)(b := sn)" and "sv_pinned s' = (sv_pinned s)(b := ps)"
  shows "keyed s'"
  using assms by (simp add: keyed_def)

lemma keyed_pin:
  assumes "keyed s" and "box_name b = ''Drafts'' \<or> en_id e = en_key e"
  shows "keyed (pin cfg b (en_key e) e s)"
proof (rule keyed_upd [OF assms(1), of b "sv_latest s b"])
  show "sv_latest (pin cfg b (en_key e) e s) = (sv_latest s)(b := sv_latest s b)" by (simp add: pin_def Let_def)
  show "sv_pinned (pin cfg b (en_key e) e s) = (sv_pinned s)(b := sv_pinned (pin cfg b (en_key e) e s) b)"
    by (simp add: pin_def Let_def)
  show "keyed_box (sv_latest s b) (sv_pinned (pin cfg b (en_key e) e s) b)" if "box_name b \<noteq> ''Drafts''"
  proof -
    have "en_id e' = en_key e'" if "(k, x, e') \<in> set (sv_pinned s b)" for k x e'
      using assms(1) that \<open>box_name b \<noteq> ''Drafts''\<close> by (auto simp: keyed_def keyed_box_def list_all_iff)
    then show ?thesis
      using assms that by (auto simp: keyed_def keyed_box_def pin_def Let_def list_all_iff split: if_splits)
  qed
qed

lemma keyed_unpin: "keyed s \<Longrightarrow> keyed (unpin b k s)"
  by (rule keyed_upd [where b = b and sn = "sv_latest s b"]) (auto simp: unpin_def keyed_def keyed_box_def list_all_iff)

lemma keyed_replace:
  assumes "keyed s" and "box_name b = ''Drafts'' \<or> it_key i = it_id i"
  shows "keyed (replace_item b i s)"
proof (cases "\<exists>sn. sv_latest s b = Some sn \<and> by_uid sn (it_uid i) \<noteq> None")
  case True
  then obtain sn where sn: "sv_latest s b = Some sn" "by_uid sn (it_uid i) \<noteq> None" by blast
  show ?thesis
    by (rule keyed_upd [OF assms(1), where b = b and sn = "Some (sn\<lparr>sn_items := map (\<lambda>j. if it_uid j = it_uid i then i else j) (sn_items sn)\<rparr>)"
          and ps = "sv_pinned s b"])
       (use sn assms in \<open>auto simp: replace_item_def keyed_def keyed_box_def list_all_iff\<close>)
next
  case False
  then show ?thesis using assms(1) by (auto simp: replace_item_def split: option.splits)
qed

lemma keyed_finish:
  assumes inv: "service_inv s" and es: "listing_ok es" and k: "keyed s"
    and ids: "md_name mdef \<noteq> ''Drafts'' \<Longrightarrow> list_all (\<lambda>e. en_id e = en_key e) es"
    and run: "finish_sync cfg inbox mdef es s = (Inr snap, s')"
  shows "keyed s'"
proof -
  let ?b = "Box inbox (md_name mdef)" and ?all = "fst (apply_pins cfg (Box inbox (md_name mdef)) es s)"
  obtain sn where sn: "finish_sync cfg inbox mdef es s = (Inr sn, (snd (apply_pins cfg ?b es s))\<lparr>sv_store := synced_store cfg ?b es s,
         sv_versions := (sv_versions s)(?b := sv_versions s ?b + 1), sv_latest := (sv_latest s)(?b \<mapsto> sn)\<rparr>)"
      "set (sn_items sn) = set (items_for (synced_store cfg ?b es s) ?b ?all)"
    by (rule finish_sync_ok [OF inv es, of cfg inbox mdef]) blast
  have s': "s' = (snd (apply_pins cfg ?b es s))\<lparr>sv_store := synced_store cfg ?b es s,
         sv_versions := (sv_versions s)(?b := sv_versions s ?b + 1), sv_latest := (sv_latest s)(?b \<mapsto> sn)\<rparr>"
    using run sn(1) by (metis Pair_inject)
  show ?thesis
  proof (rule keyed_upd [OF k, of ?b "Some sn" "live_pins cfg ?b es s"])
    assume nd: "box_name ?b \<noteq> ''Drafts''"
    then have pins: "list_all (\<lambda>(k, x, e). en_id e = en_key e) (sv_pinned s ?b)" using k by (simp add: keyed_def keyed_box_def)
    have lp: "list_all (\<lambda>(k, x, e). en_id e = en_key e) (live_pins cfg ?b es s)"
      using pins by (auto simp: live_pins_def list_all_iff)
    have "list_all (\<lambda>e. en_id e = en_key e) ?all" using lp ids nd by (auto simp: apply_pins_eq list_all_iff)
    moreover have "list_all entry_ok ?all"
      using listing_ok_pins [where s = s, OF es] inv by (auto simp: listing_ok_def service_inv_def)
    ultimately have "\<forall>i \<in> set (sn_items sn). it_key i = it_id i"
      unfolding sn(2) by (auto simp: items_for_def build_item_def entry_ok_def list_all_iff)
    then show "keyed_box (Some sn) (live_pins cfg ?b es s)" using lp by (simp add: keyed_box_def list_all_iff)
  qed (simp_all add: s')
qed

lemma keyed_do_sync:
  assumes good: "service_good cfg s" and k: "keyed s" and tab: "table_ok cfg" and look: "lookup cfg nm = Some mdef"
  shows "keyed (snd (do_sync cfg api inbox mdef s))"
proof -
  obtain r s' where run: "do_sync cfg api inbox mdef s = (r, s')" by fastforce
  have inv: "service_inv s" "digest_ok (cf_lib cfg)" using good by (simp_all add: service_good_def)
  show ?thesis unfolding run snd_conv
  proof (rule do_sync_cases [OF inv run])
    show "keyed s'" if "same_tables s s'" for e
      using that k by (simp add: same_tables_def keyed_def)
    fix es s1 snap
    assume c: "collect cfg api inbox mdef s = (Inr es, s1)" and t: "same_tables s s1" and l: "listing_ok es"
      and i: "service_inv s1" and f: "finish_sync cfg inbox mdef es s1 = (Inr snap, s')"
    have ids: "list_all (\<lambda>e. en_id e = en_key e) es" if "md_name mdef \<noteq> ''Drafts''"
    proof -
      have "md_kind mdef = Messages" using tab look that by (cases "md_kind mdef") (auto simp: table_ok_def)
      then have "collect_messages cfg api inbox mdef s = (Inr es, s1)" using c by (simp add: collect_def)
      then obtain seen where "messages_ok (es, seen)"
        using io_postD(2) [OF collect_messages_post same_tables_refl] by blast
      then show ?thesis by (simp add: messages_ok_def list_all_iff)
    qed
    have "keyed s1" using t k by (simp add: same_tables_def keyed_def)
    then show "keyed s'" using keyed_finish [OF i l _ ids f] by blast
  qed
qed

text \<open>What every operation keeps, with the keys.\<close>

definition carried :: "'w service_cfg \<Rightarrow> 'w service \<Rightarrow> 'w service \<Rightarrow> bool" where
  "carried cfg s0 s \<longleftrightarrow> grown cfg s0 s \<and> keyed s \<and> table_ok cfg"

lemma carriedI:
  "carried cfg s0 s \<Longrightarrow> (grown cfg s0 s \<Longrightarrow> grown cfg s0 s') \<Longrightarrow> (keyed s \<Longrightarrow> keyed s') \<Longrightarrow> carried cfg s0 s'"
  by (simp add: carried_def)

lemma carried_store:
  assumes "io_keeps (grown cfg s0) m" and "\<And>s. sv_latest (snd (m s)) = sv_latest s" and "\<And>s. sv_pinned (snd (m s)) = sv_pinned s"
  shows "io_keeps (carried cfg s0) m"
  using assms by (simp add: io_keeps_def carried_def keyed_def)

interpretation keys: service_law cfg api inbox "carried cfg s0" for cfg api inbox s0
proof (unfold_locales, goal_cases)
  case 1
  show ?case by (rule service_http_keeps) (simp add: carried_def grown_world keyed_def)
next
  case (6 s e b)
  then show ?case using views.pins [of cfg s0 s e b] by (simp add: carried_def keyed_pin)
next
  case (7 s b k)
  then show ?case using views.unpins [of cfg s0 s b k] by (simp add: carried_def keyed_unpin)
next
  case (8 nm ks)
  show ?case by (rule carried_store [OF views.allocates]) (auto simp: allocate_def split: prod.splits sum.splits)
next
  case (9 nm)
  show ?case by (rule carried_store [OF views.infos]) (auto simp: service_info_def split: prod.splits)
next
  case (10 s b i)
  then show ?case using views.replaces [of cfg s0 s b i] by (simp add: carried_def keyed_replace)
next
  case (11 s nm mdef)
  then show ?case
    using views.resyncs [of cfg s0 s nm mdef api inbox] keyed_do_sync [of cfg s nm mdef api inbox] by (simp add: carried_def grown_def)
qed (erule carriedI; simp add: views.cache views.holds views.generations views.marks keyed_def)+

end
