(* ===== verification/Config.thy ===== *)
theory Config
  imports Search Api_Client "HOL-Library.Multiset" "HOL-Library.Sublist"
begin

text \<open>
  \<open>imapgw/config.py\<close>: the settings and their environment variables, the \<open>.env\<close> parser, and the filter that
  keeps secrets out of the logs. A path is its text; a float setting is a \<open>py_float\<close>, since \<open>float()\<close> also
  accepts infinities and NaN. Of a log record the filter sees the rendered texts; \<open>configure_logging\<close>, which puts
  the filter in place, is in \<open>Startup\<close>.

  The lemmas show that the reference counts of the filter are a multiset (the interface \<open>counted_secrets\<close>), that
  no registered secret without a star survives scrubbing, and that a \<open>.env\<close> file of quoted settings is read
  back as it was written, with the process environment before it.
\<close>

subsection \<open>Settings\<close>

record settings =
  st_imap_host :: str
  st_imap_port :: int
  st_api_url :: str
  st_allowed_inbox_id :: "str option"
  st_db_path :: str
  st_idle_timeout :: py_float
  st_http_timeout :: py_float
  st_command_timeout :: py_float
  st_assembly_timeout :: py_float
  st_write_timeout :: py_float
  st_post_command_wait :: py_float
  st_max_connections :: int
  st_max_attempts :: int
  st_retry_budget :: py_float
  st_backoff_base :: py_float
  st_refresh_interval :: py_float
  st_cache_bytes :: int
  st_max_line :: int
  st_max_literal :: int
  st_max_command_bytes :: int
  st_max_literals :: int
  st_log_level :: str

definition default_settings :: settings where
  "default_settings = \<lparr>st_imap_host = ''127.0.0.1'', st_imap_port = 1143, st_api_url = ''http://127.0.0.1:3210/v0'',
     st_allowed_inbox_id = None, st_db_path = ''imapgw.sqlite3'', st_idle_timeout = FNum 1800,
     st_http_timeout = FNum 10, st_command_timeout = FNum 30, st_assembly_timeout = FNum 60,
     st_write_timeout = FNum 30, st_post_command_wait = FNum 2, st_max_connections = 100, st_max_attempts = 3,
     st_retry_budget = FNum 10, st_backoff_base = FNum (1 / 2), st_refresh_interval = FNum 5,
     st_cache_bytes = 64 * 1024 * 1024, st_max_line = 64 * 1024, st_max_literal = 1024 * 1024,
     st_max_command_bytes = 1024 * 1024 + 64 * 1024, st_max_literals = 16, st_log_level = ''INFO''\<rparr>"

type_synonym setter = "str \<Rightarrow> settings \<Rightarrow> settings option"

definition set_int :: "(int \<Rightarrow> settings \<Rightarrow> settings) \<Rightarrow> setter" where
  "set_int f v s = map_option (\<lambda>i. f i s) (py_int_text v)"

definition set_float :: "(py_float \<Rightarrow> settings \<Rightarrow> settings) \<Rightarrow> setter" where
  "set_float f v s = map_option (\<lambda>x. f x s) (py_float v)"

definition set_text :: "(str \<Rightarrow> settings \<Rightarrow> settings) \<Rightarrow> setter" where
  "set_text f v s = Some (f v s)"

definition env_map :: "(str \<times> setter) list" where
  "env_map = [
     (''IMAP_HOST'', set_text (\<lambda>v. st_imap_host_update (\<lambda>_. v))),
     (''IMAP_PORT'', set_int (\<lambda>v. st_imap_port_update (\<lambda>_. v))),
     (''AGENTMAIL_API_URL'', set_text (\<lambda>v. st_api_url_update (\<lambda>_. v))),
     (''AGENTMAIL_INBOX_ID'', set_text (\<lambda>v. st_allowed_inbox_id_update (\<lambda>_. Some v))),
     (''IMAPGW_DB_PATH'', set_text (\<lambda>v. st_db_path_update (\<lambda>_. v))),
     (''IMAPGW_IDLE_TIMEOUT'', set_float (\<lambda>v. st_idle_timeout_update (\<lambda>_. v))),
     (''IMAPGW_HTTP_TIMEOUT'', set_float (\<lambda>v. st_http_timeout_update (\<lambda>_. v))),
     (''IMAPGW_COMMAND_TIMEOUT'', set_float (\<lambda>v. st_command_timeout_update (\<lambda>_. v))),
     (''IMAPGW_ASSEMBLY_TIMEOUT'', set_float (\<lambda>v. st_assembly_timeout_update (\<lambda>_. v))),
     (''IMAPGW_WRITE_TIMEOUT'', set_float (\<lambda>v. st_write_timeout_update (\<lambda>_. v))),
     (''IMAPGW_POST_COMMAND_WAIT'', set_float (\<lambda>v. st_post_command_wait_update (\<lambda>_. v))),
     (''IMAPGW_MAX_CONNECTIONS'', set_int (\<lambda>v. st_max_connections_update (\<lambda>_. v))),
     (''IMAPGW_HTTP_RETRIES'', set_int (\<lambda>v. st_max_attempts_update (\<lambda>_. v))),
     (''IMAPGW_REFRESH_INTERVAL'', set_float (\<lambda>v. st_refresh_interval_update (\<lambda>_. v))),
     (''IMAPGW_CACHE_BYTES'', set_int (\<lambda>v. st_cache_bytes_update (\<lambda>_. v))),
     (''IMAPGW_LOG_LEVEL'', set_text (\<lambda>v. st_log_level_update (\<lambda>_. v))),
     (''IMAPGW_MAX_LINE'', set_int (\<lambda>v. st_max_line_update (\<lambda>_. v))),
     (''IMAPGW_MAX_LITERAL'', set_int (\<lambda>v. st_max_literal_update (\<lambda>_. v))),
     (''IMAPGW_MAX_COMMAND_BYTES'', set_int (\<lambda>v. st_max_command_bytes_update (\<lambda>_. v))),
     (''IMAPGW_MAX_LITERALS'', set_int (\<lambda>v. st_max_literals_update (\<lambda>_. v)))]"

subsection \<open>The \<open>.env\<close> file\<close>

text \<open>\<open>str.splitlines\<close> on UTF-8: CR LF is one line break; the others are LF, CR, VT, FF, FS, GS, RS and the
  encodings of U+0085, U+2028 and U+2029.\<close>

definition break_chars :: "char list" where
  "break_chars = [CHR 0x0A, CHR 0x0B, CHR 0x0C, CHR 0x0D, CHR 0x1C, CHR 0x1D, CHR 0x1E]"

definition break_len :: "str \<Rightarrow> nat" where
  "break_len s =
     (if starts_with [CHR 0x0D, CHR 0x0A] s then 2
      else if starts_with [CHR 0xC2, CHR 0x85] s then 2
      else if starts_with [CHR 0xE2, CHR 0x80, CHR 0xA8] s \<or> starts_with [CHR 0xE2, CHR 0x80, CHR 0xA9] s then 3
      else if s \<noteq> [] \<and> hd s \<in> set break_chars then 1 else 0)"

function split_lines_from :: "str \<Rightarrow> str \<Rightarrow> str list" where
  "split_lines_from cur s =
     (case s of
        [] \<Rightarrow> (if cur = [] then [] else [cur])
      | c # t \<Rightarrow> (let n = break_len s in
          if n = 0 then split_lines_from (cur @ [c]) t else cur # split_lines_from [] (drop n s)))"
  by pat_completeness auto
termination
  by (relation "measure (\<lambda>(cur, s). length s)") auto

declare split_lines_from.simps [simp del]

definition splitlines :: "str \<Rightarrow> str list" where
  "splitlines s = split_lines_from [] s"

text \<open>\<open>d[k] = v\<close> on an insertion-ordered dictionary.\<close>

fun dict_set :: "'k \<Rightarrow> 'v \<Rightarrow> ('k \<times> 'v) list \<Rightarrow> ('k \<times> 'v) list" where
  "dict_set k v [] = [(k, v)]"
| "dict_set k v ((k', v') # d) = (if k' = k then (k, v) # d else (k', v') # dict_set k v d)"

definition unquote :: "str \<Rightarrow> str" where
  "unquote v = (if 2 \<le> length v \<and> hd v = last v \<and> hd v \<in> set [dquote, CHR 0x27] then butlast (tl v) else v)"

definition dotenv_line :: "str \<Rightarrow> (str \<times> str) list \<Rightarrow> (str \<times> str) list" where
  "dotenv_line raw out =
     (let line = py_strip raw in
      if line = [] \<or> hd line = CHR ''#'' \<or> CHR ''='' \<notin> set line then out
      else (case partition_at (CHR ''='') line of (k, _, v) \<Rightarrow>
        (let key = py_strip k; val = unquote (py_strip v) in
         if key = [] then out else dict_set key val out)))"

definition parse_dotenv :: "str \<Rightarrow> (str \<times> str) list" where
  "parse_dotenv text = fold dotenv_line (splitlines text) []"

text \<open>\<open>env.update(other)\<close>.\<close>

definition dict_update :: "('k \<times> 'v) list \<Rightarrow> ('k \<times> 'v) list \<Rightarrow> ('k \<times> 'v) list" where
  "dict_update d other = fold (\<lambda>(k, v) d. dict_set k v d) other d"

text \<open>The loop over \<open>_ENV_MAP\<close>; the error names the variable.\<close>

fun apply_env :: "(str \<times> str) list \<Rightarrow> (str \<times> setter) list \<Rightarrow> settings \<Rightarrow> str + settings" where
  "apply_env env [] s = Inr s"
| "apply_env env ((var, conv) # vars) s =
     (case map_of env var of
        None \<Rightarrow> apply_env env vars s
      | Some v \<Rightarrow>
          if v = [] then apply_env env vars s
          else (case conv v s of
                  None \<Rightarrow> Inl (''invalid value for '' @ var)
                | Some s' \<Rightarrow> apply_env env vars s'))"

text \<open>\<open>load_settings\<close>: the text of the \<open>.env\<close> file, if there is one, and the process environment.\<close>

definition load_settings :: "str option \<Rightarrow> (str \<times> str) list \<Rightarrow> str + settings" where
  "load_settings dotenv environ =
     (let env = dict_update (case dotenv of None \<Rightarrow> [] | Some t \<Rightarrow> dict_update [] (parse_dotenv t)) environ in
      ebind (apply_env env env_map default_settings)
        (\<lambda>s. Inr (s\<lparr>st_api_url := rstrip_by (\<lambda>c. c = CHR ''/'') (st_api_url s)\<rparr>)))"

subsection \<open>The redacting filter\<close>

type_synonym redactor = "(str \<times> int) list"

definition reg_count :: "redactor \<Rightarrow> str \<Rightarrow> int" where
  "reg_count r k = (case map_of r k of None \<Rightarrow> 0 | Some n \<Rightarrow> n)"

definition dict_pop :: "'k \<Rightarrow> ('k \<times> 'v) list \<Rightarrow> ('k \<times> 'v) list" where
  "dict_pop k d = filter (\<lambda>(k', _). k' \<noteq> k) d"

definition redactor_register :: "str \<Rightarrow> redactor \<Rightarrow> redactor" where
  "redactor_register secret r = (if secret = [] then r else dict_set secret (reg_count r secret + 1) r)"

definition redactor_unregister :: "str \<Rightarrow> redactor \<Rightarrow> redactor" where
  "redactor_unregister secret r =
     (let n = reg_count r secret - 1 in if n \<le> 0 then dict_pop secret r else dict_set secret n r)"

definition scrub_all :: "str \<Rightarrow> str list \<Rightarrow> str" where
  "scrub_all text secrets = fold (\<lambda>secret t. replace_all secret ''***'' t) secrets text"

text \<open>\<open>len\<close> of a text counts code points: the bytes that do not continue one.\<close>

definition code_points :: "str \<Rightarrow> nat" where
  "code_points t = length (filter (\<lambda>c. \<not> cont_byte c) t)"

text \<open>\<open>sorted(self._secrets, key=len, reverse=True)\<close>: stable, the longest first.\<close>

definition secrets_of :: "redactor \<Rightarrow> str list" where
  "secrets_of r = rev (sort_key code_points (rev (map fst r)))"

record log_record =
  lr_message :: "str option"
  lr_exc_info :: "str option"
  lr_exc_text :: "str option"
  lr_stack_info :: "str option"

text \<open>\<open>filter\<close>: \<open>lr_message\<close> is \<open>None\<close> when formatting the message raises; \<open>lr_exc_info\<close> is the formatted
  exception.\<close>

definition filter_record :: "redactor \<Rightarrow> log_record \<Rightarrow> log_record" where
  "filter_record r rec =
     (let secrets = secrets_of r; clean = map_option (\<lambda>t. if t = [] then t else scrub_all t secrets) in
      if secrets = [] then rec
      else (case lr_message rec of
          None \<Rightarrow> rec
        | Some m \<Rightarrow> rec\<lparr>lr_message := Some (scrub_all m secrets),
            lr_exc_info := None,
            lr_exc_text := (case lr_exc_info rec of Some e \<Rightarrow> Some (scrub_all e secrets) | None \<Rightarrow> clean (lr_exc_text rec)),
            lr_stack_info := clean (lr_stack_info rec)\<rparr>))"

subsection \<open>The registered secrets as a multiset\<close>

text \<open>What users of the filter rely on: each registration counts, and is undone by one release.\<close>

locale counted_secrets =
  fixes register unregister :: "str \<Rightarrow> 'r \<Rightarrow> 'r" and secrets :: "'r \<Rightarrow> str list"
    and bag :: "'r \<Rightarrow> str multiset" and ok :: "'r \<Rightarrow> bool"
  assumes register_ok: "ok r \<Longrightarrow> ok (register k r)"
    and unregister_ok: "ok r \<Longrightarrow> ok (unregister k r)"
    and register_bag: "ok r \<Longrightarrow> bag (register k r) = (if k = [] then bag r else add_mset k (bag r))"
    and unregister_bag: "ok r \<Longrightarrow> bag (unregister k r) = bag r - {#k#}"
    and secrets_bag: "ok r \<Longrightarrow> set (secrets r) = set_mset (bag r)"
begin

lemma released: "ok r \<Longrightarrow> k \<noteq> [] \<Longrightarrow> bag (unregister k (register k r)) = bag r"
  by (simp add: register_ok register_bag unregister_bag)

lemma kept_while_shared:
  assumes "ok r" and "bag r = add_mset k (add_mset k b)"
  shows "k \<in> set (secrets (unregister k r))"
  using assms by (simp add: secrets_bag unregister_ok unregister_bag)

lemma gone_with_last: "ok r \<Longrightarrow> count (bag r) k \<le> 1 \<Longrightarrow> k \<notin> set (secrets (unregister k r))"
  by (simp add: secrets_bag unregister_ok unregister_bag not_in_iff)

end

definition redactor_ok :: "redactor \<Rightarrow> bool" where
  "redactor_ok r \<longleftrightarrow> distinct (map fst r) \<and> list_all (\<lambda>(k, n). 0 < n \<and> k \<noteq> []) r"

definition redactor_bag :: "redactor \<Rightarrow> str multiset" where
  "redactor_bag r = sum_list (map (\<lambda>(k, n). replicate_mset (nat n) k) r)"

lemma map_of_dict_set [simp]: "map_of (dict_set k v d) = (map_of d)(k \<mapsto> v)"
  by (induction k v d rule: dict_set.induct) auto

lemma dict_set_keys: "fst ` set (dict_set k v d) = insert k (fst ` set d)"
  by (induction k v d rule: dict_set.induct) auto

lemma distinct_dict_set: "distinct (map fst d) \<Longrightarrow> distinct (map fst (dict_set k v d))"
  by (induction k v d rule: dict_set.induct) (auto simp: dict_set_keys)

lemma set_dict_set: "set (dict_set k v d) \<subseteq> insert (k, v) (set d)"
  by (induction k v d rule: dict_set.induct) auto

lemma map_of_dict_pop [simp]: "map_of (dict_pop k d) = (map_of d)(k := None)"
  by (induction d) (auto simp: dict_pop_def fun_eq_iff)

lemma count_redactor_bag:
  assumes "redactor_ok r"
  shows "count (redactor_bag r) k = nat (reg_count r k)"
proof -
  have "count (redactor_bag r) k = (case map_of r k of None \<Rightarrow> 0 | Some n \<Rightarrow> nat n)" if "distinct (map fst r)" for r
    using that
  proof (induction r)
    case (Cons p r)
    have "k \<notin> fst ` set r \<Longrightarrow> map_of r k = None" by (simp add: map_of_eq_None_iff)
    with Cons show ?case by (cases p) (auto simp: redactor_bag_def)
  qed (simp add: redactor_bag_def)
  then show ?thesis using assms by (simp add: redactor_ok_def reg_count_def split: option.split)
qed

lemma reg_count_pos: "redactor_ok r \<Longrightarrow> map_of r k = Some n \<Longrightarrow> 0 < n"
  by (auto simp: redactor_ok_def list_all_iff dest!: map_of_SomeD)

lemma reg_count_nonneg: "redactor_ok r \<Longrightarrow> 0 \<le> reg_count r k"
  by (fastforce simp: reg_count_def redactor_ok_def list_all_iff dest: map_of_SomeD split: option.splits)

lemma reg_count_empty: "redactor_ok r \<Longrightarrow> reg_count r [] = 0"
  by (fastforce simp: reg_count_def redactor_ok_def list_all_iff dest: map_of_SomeD split: option.splits)

lemma redactor_register_ok: "redactor_ok r \<Longrightarrow> redactor_ok (redactor_register k r)"
  using set_dict_set [of k "reg_count r k + 1" r] reg_count_nonneg [of r k]
  by (auto simp: redactor_register_def redactor_ok_def distinct_dict_set list_all_iff)

lemma redactor_unregister_ok: "redactor_ok r \<Longrightarrow> redactor_ok (redactor_unregister k r)"
  using set_dict_set [of k "reg_count r k - 1" r] reg_count_empty [of r]
  by (auto simp: redactor_unregister_def Let_def redactor_ok_def distinct_dict_set list_all_iff dict_pop_def distinct_map_filter)

lemma reg_count_upd:
  "reg_count (dict_set k n r) j = (if j = k then n else reg_count r j)" "reg_count (dict_pop k r) j = (if j = k then 0 else reg_count r j)"
  by (simp_all add: reg_count_def)

lemma nat_pred: "nat (n - 1) = nat n - Suc 0"
  by arith

interpretation redactor: counted_secrets redactor_register redactor_unregister secrets_of redactor_bag redactor_ok
proof (unfold_locales, goal_cases)
  case (3 r k)
  then show ?case
    using reg_count_nonneg [of r]
    by (intro multiset_eqI)
       (simp add: count_redactor_bag redactor_register_ok, simp add: redactor_register_def reg_count_upd nat_add_distrib)
next
  case (4 r k)
  then show ?case
    by (intro multiset_eqI)
       (simp add: count_redactor_bag redactor_unregister_ok, simp add: redactor_unregister_def Let_def reg_count_upd nat_pred)
next
  case (5 r)
  have "k \<in> fst ` set r \<longleftrightarrow> k \<in># redactor_bag r" for k
  proof -
    have "k \<in># redactor_bag r \<longleftrightarrow> 0 < reg_count r k" using 5 by (simp add: count_redactor_bag flip: count_greater_zero_iff)
    also have "\<dots> \<longleftrightarrow> map_of r k \<noteq> None"
      using reg_count_pos [OF 5] by (auto simp: reg_count_def split: option.split)
    finally show ?thesis by (simp add: map_of_eq_None_iff)
  qed
  then show ?case by (auto simp: secrets_of_def)
qed (simp_all add: redactor_register_ok redactor_unregister_ok)

subsection \<open>Scrubbed texts\<close>

lemma stars_prefix: "prefix x (''***'' @ r) \<Longrightarrow> CHR ''*'' \<notin> set x \<Longrightarrow> x = []"
  by (cases x) auto

lemma stars_sublist:
  assumes "sublist x (''***'' @ r)" and "CHR ''*'' \<notin> set x" and "x \<noteq> []"
  shows "sublist x r"
  using assms by (auto simp: sublist_Cons_right) (cases x; simp)+

lemma replace_prefix:
  "old \<noteq> [] \<Longrightarrow> CHR ''*'' \<notin> set x \<Longrightarrow> prefix x (replace_all old ''***'' s) \<Longrightarrow> prefix x s"
proof (induction old "''***''" s arbitrary: x rule: replace_all.induct)
  case (1 old s)
  show ?case
  proof (cases s)
    case Nil
    then show ?thesis using "1.prems" by (simp add: replace_all.simps)
  next
    case (Cons c t)
    show ?thesis
    proof (cases "starts_with old s")
      case True
      then have "x = []" using "1.prems" stars_prefix Cons by (simp add: replace_all.simps [of old])
      then show ?thesis by simp
    next
      case False
      then have p: "prefix x (c # replace_all old ''***'' t)" using "1.prems" Cons by (simp add: replace_all.simps [of old])
      then show ?thesis using "1.hyps"(2) [OF "1.prems"(1) Cons] False "1.prems"(1,2) Cons by (cases x) auto
    qed
  qed
qed

lemma replace_sublist:
  "old \<noteq> [] \<Longrightarrow> CHR ''*'' \<notin> set x \<Longrightarrow> x \<noteq> [] \<Longrightarrow> sublist x (replace_all old ''***'' s) \<Longrightarrow> sublist x s"
proof (induction old "''***''" s rule: replace_all.induct)
  case (1 old s)
  show ?case
  proof (cases s)
    case Nil
    then show ?thesis using "1.prems" by (simp add: replace_all.simps)
  next
    case (Cons c t)
    show ?thesis
    proof (cases "starts_with old s")
      case True
      then have "sublist x (replace_all old ''***'' (drop (length old) s))"
        using "1.prems" Cons stars_sublist by (simp add: replace_all.simps [of old])
      then have "sublist x (drop (length old) s)" using "1.hyps"(1) [OF "1.prems"(1) Cons] True "1.prems"(1-3) Cons by simp
      then show ?thesis using sublist_order.order_trans sublist_drop by blast
    next
      case False
      then have r: "replace_all old ''***'' s = c # replace_all old ''***'' t" using "1.prems"(1) Cons by (simp add: replace_all.simps [of old])
      consider "prefix x (replace_all old ''***'' s)" | "sublist x (replace_all old ''***'' t)"
        using "1.prems"(4) unfolding r by (auto simp: sublist_Cons_right)
      then show ?thesis
      proof cases
        case 1
        then show ?thesis using replace_prefix "1.prems"(1,2) by blast
      next
        case 2
        then have "sublist x t" using "1.hyps"(2) [OF "1.prems"(1) Cons] False "1.prems"(1-3) Cons by simp
        then show ?thesis unfolding Cons by (simp add: sublist_Cons_right)
      qed
    qed
  qed
qed

lemma replace_removes:
  "old \<noteq> [] \<Longrightarrow> CHR ''*'' \<notin> set old \<Longrightarrow> \<not> sublist old (replace_all old ''***'' s)"
proof (induction old "''***''" s rule: replace_all.induct)
  case (1 old s)
  show ?case
  proof (cases s)
    case Nil
    then show ?thesis using "1.prems" by (simp add: replace_all.simps)
  next
    case (Cons c t)
    show ?thesis
    proof (cases "starts_with old s")
      case True
      then have "\<not> sublist old (replace_all old ''***'' (drop (length old) s))"
        using "1.hyps"(1) [OF "1.prems"(1) Cons] "1.prems" Cons by simp
      moreover have r: "replace_all old ''***'' s = ''***'' @ replace_all old ''***'' (drop (length old) s)"
        using True "1.prems"(1) Cons by (simp add: replace_all.simps [of old])
      ultimately show ?thesis unfolding r using "1.prems" stars_sublist by blast
    next
      case False
      then have r: "replace_all old ''***'' s = c # replace_all old ''***'' t" using "1.prems"(1) Cons by (simp add: replace_all.simps [of old])
      have "\<not> prefix old (replace_all old ''***'' s)"
        using replace_prefix [OF "1.prems"(1,2), of s] False by (auto simp: starts_with_iff prefix_def)
      moreover have "\<not> sublist old (replace_all old ''***'' t)"
        using "1.hyps"(2) [OF "1.prems"(1) Cons] False "1.prems" Cons by simp
      ultimately show ?thesis unfolding r by (simp add: sublist_Cons_right)
    qed
  qed
qed

definition plain_secrets :: "str list \<Rightarrow> bool" where
  "plain_secrets ks \<longleftrightarrow> list_all (\<lambda>k. k \<noteq> [] \<and> CHR ''*'' \<notin> set k) ks"

lemma scrub_keeps_away:
  assumes "plain_secrets ks" and "x \<noteq> []" and "CHR ''*'' \<notin> set x" and "\<not> sublist x t"
  shows "\<not> sublist x (scrub_all t ks)"
  using assms
proof (induction ks arbitrary: t)
  case (Cons k ks)
  then have "\<not> sublist x (replace_all k ''***'' t)" using replace_sublist [of k x t] by (auto simp: plain_secrets_def)
  then show ?case using Cons by (simp add: scrub_all_def plain_secrets_def)
qed (simp add: scrub_all_def)

lemma scrubbed:
  assumes "plain_secrets ks" and "k \<in> set ks"
  shows "\<not> sublist k (scrub_all t ks)"
  using assms
proof (induction ks arbitrary: t)
  case (Cons j ks)
  show ?case
  proof (cases "k \<in> set ks")
    case True
    then show ?thesis using Cons by (simp add: scrub_all_def plain_secrets_def)
  next
    case False
    then have k: "k = j" "k \<noteq> []" "CHR ''*'' \<notin> set k" using Cons.prems by (auto simp: plain_secrets_def)
    then have "\<not> sublist k (replace_all j ''***'' t)" using replace_removes by blast
    then show ?thesis using scrub_keeps_away [of ks k] k Cons.prems(1) by (simp add: scrub_all_def plain_secrets_def)
  qed
qed simp

text \<open>The texts of a record.\<close>

definition record_texts :: "log_record \<Rightarrow> str list" where
  "record_texts rec = List.map_filter id [lr_message rec, lr_exc_info rec, lr_exc_text rec, lr_stack_info rec]"

text \<open>No registered secret reaches the log: when secrets are plain (no asterisk), a record whose message can
  be rendered leaves the filter with no text in which any registered secret occurs, whatever the order in which
  secrets contain or overlap each other; its exception is replaced by a scrubbed text.\<close>

lemma filter_hides:
  assumes "redactor_ok r" and "plain_secrets (secrets_of r)" and "lr_message rec \<noteq> None" and "k \<in># redactor_bag r"
  shows "list_all (\<lambda>t. \<not> sublist k t) (record_texts (filter_record r rec))"
proof -
  have k: "k \<in> set (secrets_of r)" using redactor.secrets_bag assms(1,4) by blast
  then have "secrets_of r \<noteq> []" "k \<noteq> []" using assms(2) by (auto simp: plain_secrets_def list_all_iff)
  then show ?thesis
    using assms(3) scrubbed [OF assms(2) k]
    by (auto simp: record_texts_def filter_record_def Let_def List.map_filter_def split: option.splits if_splits)
qed

subsection \<open>Writing and reading \<open>.env\<close> files\<close>

text \<open>A text in which no line ends, whatever comes before or after it.\<close>

fun one_line :: "str \<Rightarrow> bool" where
  "one_line [] = True"
| "one_line (c # s) \<longleftrightarrow> break_len (c # s) = 0 \<and> one_line s"

text \<open>A name \<open>parse_dotenv\<close> takes as it is.\<close>

definition plain_name :: "str \<Rightarrow> bool" where
  "plain_name k \<longleftrightarrow> k \<noteq> [] \<and> \<not> str_space (hd k) \<and> \<not> str_space (last k) \<and> hd k \<noteq> CHR ''#'' \<and> CHR ''='' \<notin> set k"

definition dotenv_text :: "(str \<times> str) list \<Rightarrow> str" where
  "dotenv_text kvs = concat (map (\<lambda>(k, v). k @ ''='' @ dquote # v @ [dquote, CHR 0x0A]) kvs)"

lemma break_len_append:
  assumes "break_len s = 0" and "s \<noteq> []"
  shows "break_len (s @ CHR 0x0A # r) = 0"
proof (cases s)
  case (Cons a t)
  show ?thesis
  proof (cases t)
    case Nil
    then show ?thesis using assms Cons by (auto simp: break_len_def starts_with_def break_chars_def split: if_splits)
  next
    case (Cons b u)
    then show ?thesis using assms \<open>s = a # t\<close>
      by (cases u) (auto simp: break_len_def starts_with_def break_chars_def split: if_splits)
  qed
qed (use assms in simp)

lemma split_lines_line: "one_line s \<Longrightarrow> split_lines_from cur (s @ CHR 0x0A # r) = (cur @ s) # split_lines_from [] r"
proof (induction s arbitrary: cur)
  case Nil
  have "break_len (CHR 0x0A # r) = 1" by (simp add: break_len_def starts_with_def break_chars_def)
  then show ?case by (simp add: split_lines_from.simps [of cur])
next
  case (Cons c s)
  then have "break_len (c # s) = 0" "one_line s" by simp_all
  then have "break_len (c # s @ CHR 0x0A # r) = 0" using break_len_append [of "c # s" r] by simp
  then show ?case using Cons.IH [OF \<open>one_line s\<close>, of "cur @ [c]"] by (simp add: split_lines_from.simps [of cur])
qed

lemma splitlines_line: "one_line s \<Longrightarrow> splitlines (s @ CHR 0x0A # r) = s # splitlines r"
  by (simp add: splitlines_def split_lines_line)

lemma py_strip_clean: "s \<noteq> [] \<Longrightarrow> \<not> str_space (hd s) \<Longrightarrow> \<not> str_space (last s) \<Longrightarrow> py_strip s = s"
proof -
  assume s: "s \<noteq> []" "\<not> str_space (hd s)" "\<not> str_space (last s)"
  have drop: "dropWhile p t = t" if "t \<noteq> []" "\<not> p (hd t)" for p and t :: str using that by (cases t) auto
  show "py_strip s = s" using s by (simp add: py_strip_def lstrip_by_def rstrip_by_def drop hd_rev)
qed

lemma dotenv_line_printed:
  assumes "plain_name k"
  shows "dotenv_line (k @ ''='' @ dquote # v @ [dquote]) out = dict_set k v out"
proof -
  let ?q = "dquote # v @ [dquote]"
  have q: "\<not> str_space dquote" by (simp add: str_space_def bytes_space_def dquote_def)
  have k: "k \<noteq> []" "py_strip k = k" using assms by (auto simp: plain_name_def py_strip_clean)
  have "py_strip ?q = ?q" using q by (intro py_strip_clean) auto
  moreover have "unquote ?q = v" by (simp add: unquote_def)
  moreover have "py_strip (k @ ''='' @ ?q) = k @ ''='' @ ?q"
    using assms q by (intro py_strip_clean) (auto simp: plain_name_def)
  ultimately show ?thesis
    using assms k by (simp add: dotenv_line_def Let_def plain_name_def partition_at_append hd_append)
qed

lemma one_line_append_dquote: "one_line s \<Longrightarrow> one_line (s @ [dquote])"
proof (induction s)
  case Nil
  then show ?case by (simp add: break_len_def starts_with_def break_chars_def dquote_def)
next
  case (Cons c s)
  have "break_len (c # s @ [dquote]) = 0" if "break_len (c # s) = 0"
    using that by (cases s; cases "tl s") (auto simp: break_len_def starts_with_def break_chars_def dquote_def split: if_splits)
  then show ?case using Cons by simp
qed

text \<open>A file of quoted settings, each in one line, is read back as it was written: a value keeps its spaces,
  quotes, number signs and equals signs, and where a name occurs twice the last one counts.\<close>

lemma dotenv_read_back:
  assumes "list_all (\<lambda>(k, v). plain_name k \<and> one_line (k @ ''='' @ dquote # v)) kvs"
  shows "parse_dotenv (dotenv_text kvs) = dict_update [] kvs"
proof -
  have "fold dotenv_line (splitlines (dotenv_text kvs)) out = dict_update out kvs" for out
    using assms
  proof (induction kvs arbitrary: out)
    case Nil
    show ?case by (simp add: dotenv_text_def splitlines_def split_lines_from.simps dict_update_def)
  next
    case (Cons kv kvs)
    obtain k v where kv: "kv = (k, v)" by (cases kv)
    let ?line = "k @ ''='' @ dquote # v @ [dquote]"
    have "one_line ?line" "plain_name k" using Cons.prems kv one_line_append_dquote [of "k @ ''='' @ dquote # v"] by auto
    moreover have "dotenv_text (kv # kvs) = ?line @ CHR 0x0A # dotenv_text kvs" by (simp add: kv dotenv_text_def)
    ultimately show ?case
      using Cons by (simp add: kv splitlines_line dotenv_line_printed dict_update_def del: append_Cons append_assoc)
  qed
  then show ?thesis by (simp add: parse_dotenv_def)
qed

lemma map_of_dict_update [simp]: "map_of (dict_update d kvs) x = (case map_of (rev kvs) x of None \<Rightarrow> map_of d x | v \<Rightarrow> v)"
  by (induction kvs arbitrary: d) (auto simp: dict_update_def map_add_def split: option.splits)

text \<open>Where a setting comes from: the process environment before the file.\<close>

lemma environment_before_file:
  "map_of (dict_update (dict_update [] file) environ) x
     = (case map_of (rev environ) x of None \<Rightarrow> map_of (rev file) x | v \<Rightarrow> v)"
  by (simp split: option.splits)

end
