(* ===== verification/Session.thy ===== *)
theory Session
  imports Mailbox_Views Responses Config
begin

text \<open>
  \<open>imapgw/session.py\<close>: one IMAP session. Its fields are the record \<open>session\<close>; the mailbox service and the
  log redactor, which all sessions share, are fields of it as well. What a session writes is a list of
  \<open>response\<close>s, one constructor per encoder of \<open>responses.py\<close>; \<open>render\<close> gives the bytes. A handler is an \<open>io\<close>
  computation over the session whose exceptions are \<open>cmd_error\<close>s.

  A call of the service that ends after the command's deadline raises \<open>TimedOut\<close>; the code cancels the call
  at the \<open>await\<close> where the deadline passes, the model lets it finish.

  The lemmas show that what \<open>flush_pending\<close> announces keeps a client's view equal to the session's, and that
  every command is answered by exactly one tagged response.
\<close>

subsection \<open>Responses\<close>

datatype response =
    Tagged str str str "str option"
  | Untagged str
  | UntaggedOk str "str option"
  | Bye str
  | Continuation str
  | Exists nat
  | Recent nat
  | Expunge nat
  | FetchData nat "bytes list"
  | SearchData "nat list"
  | ListData "str list" "str option" str
  | LsubData "str list" "str option" str
  | CapabilityData "str list"
  | StatusData str str

text \<open>\<open>data.replace(b"* LIST", b"* LSUB", 1)\<close> on a line that starts with it.\<close>

fun render :: "response \<Rightarrow> bytes" where
  "render (Tagged tag status text code) = tagged tag status text code"
| "render (Untagged text) = untagged text"
| "render (UntaggedOk text code) = untagged_ok text code"
| "render (Bye text) = bye text"
| "render (Continuation text) = continuation text"
| "render (Exists n) = exists n"
| "render (Recent n) = recent n"
| "render (Expunge n) = expunge n"
| "render (FetchData n items) = fetch_response n items"
| "render (SearchData ns) = search_response ns"
| "render (ListData attributes delimiter nm) = list_response attributes delimiter nm"
| "render (LsubData attributes delimiter nm) = ''* LSUB'' @ drop 6 (list_response attributes delimiter nm)"
| "render (CapabilityData caps) = capability_line caps"
| "render (StatusData nm body) = ''* STATUS '' @ atom_or_quoted nm @ '' ('' @ body @ '')'' @ crlf"

text \<open>\<open>flag_list\<close> of a set: the sort key tells all flags apart, so the order of enumeration does not matter.\<close>

definition flag_bytes :: "str set \<Rightarrow> bytes" where
  "flag_bytes fs = flag_list (sorted_list_of_set fs)"

subsection \<open>State\<close>

definition capabilities :: "str list" where
  "capabilities = [''IMAP4rev1'', ''UIDPLUS'', ''MOVE'', ''ID'', ''NAMESPACE'']"

datatype state = NotAuthenticated | Authenticated | SelectedState | Logout

record selected =
  sel_name :: str
  sel_read_only :: bool
  sel_uids :: "nat list"
  sel_seq_of :: "nat \<rightharpoonup> nat"
  sel_view_version :: nat
  sel_flags_seen :: "nat \<rightharpoonup> str set"

text \<open>\<open>{uid: i + 1 for i, uid in enumerate(uids)}\<close>.\<close>

definition sequence_map :: "nat list \<Rightarrow> nat \<rightharpoonup> nat" where
  "sequence_map uids = map_of (rev (zip uids [1..<length uids + 1]))"

definition from_snapshot :: "snapshot \<Rightarrow> bool \<Rightarrow> nat set \<Rightarrow> selected" where
  "from_snapshot sn read_only deleted =
     (let uids = snapshot_uids sn in
      \<lparr>sel_name = sn_name sn, sel_read_only = read_only, sel_uids = uids, sel_seq_of = sequence_map uids,
       sel_view_version = sn_version sn,
       sel_flags_seen = map_of (rev (map (\<lambda>i. (it_uid i, flags_of i deleted)) (sn_items sn)))\<rparr>)"

datatype cmd_error =
    CommandFailed str str "str option"
  | ApiFailure api_error
  | TimedOut

definition bad :: "str \<Rightarrow> cmd_error" where "bad text = CommandFailed ''BAD'' text None"

definition no :: "str \<Rightarrow> str option \<Rightarrow> cmd_error" where "no text code = CommandFailed ''NO'' text code"

text \<open>The deferred work of a session: the re-listing of Drafts that APPEND started, with its client and inbox.\<close>

record 'w session =
  ss_service :: "'w service"
  ss_redactor :: redactor
  ss_state :: state
  ss_inbox :: "str option"
  ss_api :: "client option"
  ss_api_key :: "str option"
  ss_selected :: "selected option"
  ss_parser :: cparser
  ss_out :: "response list"
  ss_sent :: "response list"
  ss_closed :: bool
  ss_deferred :: "(client \<times> str) list"
  ss_deadline :: rat
  ss_assembly_deadline :: "rat option"

text \<open>What \<open>writer.write\<close> and \<open>drain\<close> do with the bytes given to them, within the write timeout.\<close>

datatype drain_outcome = Drained | DrainTimeout | DrainError

record 'w session_env =
  se_service :: "'w service_cfg"
  se_make_client :: "str \<Rightarrow> client"
  se_allowed :: "str option"
  se_limits :: limits
  se_search :: search_lib
  se_conn_id :: str
  se_command_timeout :: rat
  se_idle_timeout :: rat
  se_assembly_timeout :: rat
  se_drain :: "bytes \<Rightarrow> 'w service \<Rightarrow> drain_outcome"
  se_late :: "'w service \<Rightarrow> bool"

type_synonym ('w, 'a) session_io = "('w session, cmd_error, 'a) io"

definition new_session :: "'w session_env \<Rightarrow> 'w service \<Rightarrow> redactor \<Rightarrow> 'w session" where
  "new_session env sv red = \<lparr>ss_service = sv, ss_redactor = red, ss_state = NotAuthenticated, ss_inbox = None,
     ss_api = None, ss_api_key = None, ss_selected = None, ss_parser = init_parser (se_limits env),
     ss_out = [], ss_sent = [], ss_closed = False, ss_deferred = [], ss_deadline = 0,
     ss_assembly_deadline = None\<rparr>"

definition defer_work :: "client \<times> str \<Rightarrow> 'w session \<Rightarrow> 'w session" where
  "defer_work task s = s\<lparr>ss_deferred := ss_deferred s @ [task]\<rparr>"

subsection \<open>Output\<close>

definition push :: "response \<Rightarrow> 'w session \<Rightarrow> 'w session" where
  "push r s = s\<lparr>ss_out := ss_out s @ [r]\<rparr>"

definition say :: "response \<Rightarrow> ('w, unit) session_io" where
  "say r = io_modify (push r)"

definition abort :: "'w session \<Rightarrow> 'w session" where
  "abort s = s\<lparr>ss_closed := True, ss_state := Logout\<rparr>"

definition flush_out :: "'w session_env \<Rightarrow> 'w session \<Rightarrow> 'w session" where
  "flush_out env s =
     (if ss_out s = [] \<or> ss_closed s then s\<lparr>ss_out := []\<rparr>
      else (let s1 = s\<lparr>ss_out := [], ss_sent := ss_sent s @ ss_out s\<rparr> in
        (case se_drain env (concat (map render (ss_out s))) (ss_service s) of
           Drained \<Rightarrow> s1
         | DrainTimeout \<Rightarrow> abort s1
         | DrainError \<Rightarrow> s1\<lparr>ss_closed := True, ss_state := Logout\<rparr>)))"

subsection \<open>Credentials\<close>

definition set_credentials :: "'w session_env \<Rightarrow> str \<Rightarrow> str \<Rightarrow> 'w session \<Rightarrow> client \<times> 'w session" where
  "set_credentials env inbox key s =
     (let api = se_make_client env key in
      (api, s\<lparr>ss_redactor := redactor_register key (ss_redactor s), ss_api_key := Some key,
              ss_inbox := Some inbox, ss_api := Some api\<rparr>))"

definition clear_credentials :: "'w session \<Rightarrow> 'w session" where
  "clear_credentials s =
     (let red = (case ss_api_key s of
         Some key \<Rightarrow> if key \<noteq> [] then redactor_unregister key (ss_redactor s) else ss_redactor s
       | None \<Rightarrow> ss_redactor s)
      in s\<lparr>ss_redactor := red, ss_api_key := None, ss_api := None\<rparr>)"

subsection \<open>Helpers of the handlers\<close>

text \<open>An awaited call of the service, and one that cannot suspend.\<close>

definition service_call :: "'w session_env \<Rightarrow> ('w, 'a) service_io \<Rightarrow> ('w, 'a) session_io" where
  "service_call env m s = (case m (ss_service s) of (r, sv) \<Rightarrow>
     (if ss_deadline s < now (se_service env) sv then Inl TimedOut
      else (case r of Inl e \<Rightarrow> Inl (ApiFailure e) | Inr x \<Rightarrow> Inr x),
      s\<lparr>ss_service := sv\<rparr>))"

definition on_service :: "('w service \<Rightarrow> 'w service) \<Rightarrow> ('w, unit) session_io" where
  "on_service f = io_modify (\<lambda>s. s\<lparr>ss_service := f (ss_service s)\<rparr>)"

definition require_state :: "state list \<Rightarrow> ('w, unit) session_io" where
  "require_state states s =
     (if ss_state s \<in> set states then Inr () else Inl (bad ''command not allowed in this state''), s)"

definition require_selected :: "('w, selected) session_io" where
  "require_selected s = (case ss_selected s of
     Some sel \<Rightarrow> if ss_state s = SelectedState then (Inr sel, s) else (Inl (bad ''no mailbox selected''), s)
   | None \<Rightarrow> (Inl (bad ''no mailbox selected''), s))"

text \<open>\<open>assert session.api is not None and session.inbox_id is not None\<close>.\<close>

definition need_api :: "('w, client \<times> str) session_io" where
  "need_api s = (case (ss_api s, ss_inbox s) of
     (Some api, Some inbox) \<Rightarrow> (Inr (api, inbox), s)
   | _ \<Rightarrow> (Inl (ApiFailure assertion_error), s))"

definition apply_snapshot :: "'w session_env \<Rightarrow> str \<Rightarrow> snapshot \<Rightarrow> bool \<Rightarrow> 'w session \<Rightarrow> 'w session" where
  "apply_snapshot env inbox sn read_only s =
     (let deleted = service_deleted (se_service env) inbox (sn_name sn) (ss_service s) in
      s\<lparr>ss_selected := Some (from_snapshot sn read_only deleted), ss_state := SelectedState\<rparr>)"

definition session_deleted :: "'w session_env \<Rightarrow> 'w session \<Rightarrow> nat set" where
  "session_deleted env s = (case (ss_selected s, ss_inbox s) of
     (Some sel, Some inbox) \<Rightarrow> service_deleted (se_service env) inbox (sel_name sel) (ss_service s)
   | _ \<Rightarrow> {})"

definition record_flags :: "nat \<Rightarrow> str set \<Rightarrow> 'w session \<Rightarrow> 'w session" where
  "record_flags u fs s = (case ss_selected s of
     None \<Rightarrow> s
   | Some sel \<Rightarrow> s\<lparr>ss_selected := Some (sel\<lparr>sel_flags_seen := (sel_flags_seen sel)(u \<mapsto> fs)\<rparr>)\<rparr>)"

subsection \<open>Announcing changes\<close>

text \<open>The first loop of \<open>flush_pending\<close>: from the highest sequence number down, the items that are gone.\<close>

fun drop_gone :: "nat set \<Rightarrow> nat \<Rightarrow> nat list \<times> (nat \<rightharpoonup> str set) \<Rightarrow> response list \<times> nat list \<times> (nat \<rightharpoonup> str set)" where
  "drop_gone live 0 st = ([], st)"
| "drop_gone live (Suc k) (uids, seen) =
     (if uids ! k \<in> live then drop_gone live k (uids, seen)
      else (case drop_gone live k (take k uids @ drop (Suc k) uids, seen(uids ! k := None)) of
              (out, st) \<Rightarrow> (Expunge (Suc k) # out, st)))"

text \<open>The last loop: FETCH data for the items whose flags differ from what the client was told.\<close>

definition flags_data :: "nat \<Rightarrow> nat \<Rightarrow> str set \<Rightarrow> response" where
  "flags_data seq u flags = FetchData seq [''UID '' @ nat_str u, ''FLAGS '' @ flag_bytes flags]"

fun announce_flags :: "snapshot \<Rightarrow> nat set \<Rightarrow> (nat \<times> nat) list \<Rightarrow> (nat \<rightharpoonup> str set) \<Rightarrow> response list \<times> (nat \<rightharpoonup> str set)" where
  "announce_flags sn deleted [] seen = ([], seen)"
| "announce_flags sn deleted ((seq, u) # rest) seen =
     (case by_uid sn u of
        None \<Rightarrow> announce_flags sn deleted rest seen
      | Some i \<Rightarrow>
          (let flags = flags_of i deleted;
               out = (case seen u of
                        Some previous \<Rightarrow> if previous \<noteq> flags then [flags_data seq u flags] else []
                      | None \<Rightarrow> [])
           in case announce_flags sn deleted rest (seen(u \<mapsto> flags)) of (more_out, seen') \<Rightarrow> (out @ more_out, seen')))"

definition numbered :: "nat list \<Rightarrow> (nat \<times> nat) list" where
  "numbered uids = zip [1..<length uids + 1] uids"

definition refresh_view :: "snapshot \<Rightarrow> nat set \<Rightarrow> selected \<Rightarrow> response list \<times> selected" where
  "refresh_view sn deleted sel =
     (case drop_gone (set (snapshot_uids sn)) (length (sel_uids sel)) (sel_uids sel, sel_flags_seen sel) of
        (gone, kept, seen) \<Rightarrow>
          (let added = filter (\<lambda>u. u \<notin> set kept) (snapshot_uids sn);
               uids = (if added = [] then kept else sort (kept @ added));
               arrived = (if added = [] then [] else [Exists (length uids)])
           in case announce_flags sn deleted (numbered uids) seen of (changed, seen') \<Rightarrow>
                (gone @ arrived @ changed,
                 sel\<lparr>sel_uids := uids, sel_seq_of := sequence_map uids, sel_view_version := sn_version sn,
                     sel_flags_seen := seen'\<rparr>)))"

definition flush_pending :: "'w session_env \<Rightarrow> 'w session \<Rightarrow> 'w session" where
  "flush_pending env s = (case (ss_selected s, ss_inbox s) of
     (Some sel, Some inbox) \<Rightarrow>
       (case latest (se_service env) inbox (sel_name sel) (ss_service s) of
          None \<Rightarrow> s
        | Some sn \<Rightarrow>
            (case refresh_view sn (service_deleted (se_service env) inbox (sel_name sel) (ss_service s)) sel of
               (out, sel') \<Rightarrow> s\<lparr>ss_selected := Some sel', ss_out := ss_out s @ out\<rparr>))
   | _ \<Rightarrow> s)"

subsection \<open>Dispatch\<close>

type_synonym 'w handler = "'w session_env \<Rightarrow> command \<Rightarrow> ('w, unit) session_io"

text \<open>The \<open>except\<close> clauses of \<open>dispatch\<close>: the response, and whether the session ends. \<open>OutOfFuel\<close>, which the code cannot raise, counts as an internal error.\<close>

definition internal_error :: "'w session_env \<Rightarrow> command \<Rightarrow> response" where
  "internal_error env cmd = Tagged (cmd_tag cmd) ''NO'' (''internal error (ref '' @ se_conn_id env @ '')'') None"

definition failure_reply :: "'w session_env \<Rightarrow> command \<Rightarrow> state \<Rightarrow> cmd_error \<Rightarrow> response \<times> bool" where
  "failure_reply env cmd st e =
     (let tag = cmd_tag cmd; nm = cmd_name cmd in
      case e of
        CommandFailed status text code \<Rightarrow> (Tagged tag status text code, False)
      | TimedOut \<Rightarrow> (Tagged tag ''NO'' (''upstream timeout ('' @ nm @ '')'') (Some ''UNAVAILABLE''), False)
      | ApiFailure (AgentMailError AuthError text status r) \<Rightarrow>
          if st = NotAuthenticated
          then (Tagged tag ''NO'' ''invalid credentials'' (Some ''AUTHENTICATIONFAILED''), False)
          else if status = Some 403
          then (Tagged tag ''NO'' (''this API key may not perform '' @ nm) (Some ''CANNOT''), False)
          else (Bye ''credentials no longer valid'', True)
      | ApiFailure (AgentMailError UnavailableError text status r) \<Rightarrow>
          (Tagged tag ''NO'' (''upstream unavailable, try again ('' @ nm @ '')'') (Some ''UNAVAILABLE''), False)
      | ApiFailure (AgentMailError k text status r) \<Rightarrow>
          (Tagged tag ''NO'' (''upstream error ('' @ nm @ '')'') None, False)
      | ApiFailure _ \<Rightarrow> (internal_error env cmd, False))"

definition conclude :: "'w session_env \<Rightarrow> command \<Rightarrow> cmd_error \<Rightarrow> 'w session \<Rightarrow> 'w session" where
  "conclude env cmd e s = (case failure_reply env cmd (ss_state s) e of
     (r, ends) \<Rightarrow> if ends then (push r s)\<lparr>ss_state := Logout\<rparr> else push r s)"

text \<open>The \<open>finally\<close> clause.\<close>

definition drop_failed_login :: "'w session \<Rightarrow> 'w session" where
  "drop_failed_login s =
     (if ss_state s = NotAuthenticated \<and> ss_api s \<noteq> None then clear_credentials s else s)"

text \<open>\<open>_run_deferred\<close>: each listing that ends within the wait has run; a later one goes on outside the session.
  Its outcome is ignored.\<close>

definition run_followup :: "'w session_env \<Rightarrow> client \<times> str \<Rightarrow> 'w session \<Rightarrow> 'w session" where
  "run_followup env task s =
     (if se_late env (ss_service s) then s
      else s\<lparr>ss_service := snd (sync (se_service env) (fst task) (snd task) ''Drafts'' True (ss_service s))\<rparr>)"

definition run_deferred :: "'w session_env \<Rightarrow> 'w session \<Rightarrow> 'w session" where
  "run_deferred env s =
     (let pending = ss_deferred s; s1 = fold (run_followup env) pending (s\<lparr>ss_deferred := []\<rparr>) in
      if pending \<noteq> [] \<and> ss_state s1 = SelectedState then flush_out env (flush_pending env s1) else s1)"

definition dispatch :: "'w session_env \<Rightarrow> (str \<Rightarrow> 'w handler option) \<Rightarrow> command \<Rightarrow> 'w session \<Rightarrow> 'w session" where
  "dispatch env handlers cmd s =
     (case handlers (cmd_name cmd) of
        None \<Rightarrow> push (Tagged (cmd_tag cmd) ''BAD'' (''unknown command '' @ cmd_name cmd) None) s
      | Some h \<Rightarrow>
          (let s0 = s\<lparr>ss_deadline := now (se_service env) (ss_service s) + se_command_timeout env\<rparr> in
           run_deferred env (drop_failed_login
             (case h env cmd s0 of (Inl e, s1) \<Rightarrow> conclude env cmd e s1 | (Inr _, s1) \<Rightarrow> s1))))"

definition handle_event :: "'w session_env \<Rightarrow> (str \<Rightarrow> 'w handler option) \<Rightarrow> event \<Rightarrow> 'w session \<Rightarrow> 'w session" where
  "handle_event env handlers ev s = (case ev of
     ContinuationRequest n \<Rightarrow> push (Continuation (''Ready for '' @ nat_str n @ '' octets'')) s
   | ParseError tag message fatal \<Rightarrow>
       (let s1 = push (case tag of
                         Some (c # cs) \<Rightarrow> Tagged (c # cs) ''BAD'' message None
                       | _ \<Rightarrow> Untagged (''BAD '' @ message)) s
        in if fatal then (push (Bye ''closing connection'') s1)\<lparr>ss_state := Logout\<rparr> else s1)
   | Command cmd \<Rightarrow> dispatch env handlers cmd s
   | Raised \<Rightarrow>
       (push (Bye ''closing connection'') (push (Untagged ''BAD internal parser error'') s))\<lparr>ss_state := Logout\<rparr>)"

subsection \<open>The main loop\<close>

text \<open>
  The events of one read. The code draws them from the parser one at a time while it handles them; the parser
  does not depend on the handlers, so the model draws them all first. The rest is dropped once the session has
  logged out.
\<close>

fun handle_events :: "'w session_env \<Rightarrow> (str \<Rightarrow> 'w handler option) \<Rightarrow> event list \<Rightarrow> 'w session \<Rightarrow> 'w session" where
  "handle_events env handlers [] s = s"
| "handle_events env handlers (ev # evs) s =
     (let s1 = flush_out env (handle_event env handlers ev s) in
      if ss_state s1 = Logout \<or> ss_closed s1 then s1 else handle_events env handlers evs s1)"

definition on_data :: "'w session_env \<Rightarrow> (str \<Rightarrow> 'w handler option) \<Rightarrow> bytes \<Rightarrow> 'w session \<Rightarrow> 'w session" where
  "on_data env handlers data s =
     (case events (feed (ss_parser s) data) of
        (evs, p) \<Rightarrow> handle_events env handlers evs (s\<lparr>ss_parser := p\<rparr>))"

text \<open>The time the next read may take; a command under assembly has one deadline for all its reads.\<close>

definition read_timeout :: "'w session_env \<Rightarrow> 'w session \<Rightarrow> rat \<times> 'w session" where
  "read_timeout env s =
     (let t = now (se_service env) (ss_service s) in
      if in_progress (ss_parser s) then
        (let deadline = (case ss_assembly_deadline s of Some d \<Rightarrow> d | None \<Rightarrow> t + se_assembly_timeout env)
         in (min (se_idle_timeout env) (max 0 (deadline - t)), s\<lparr>ss_assembly_deadline := Some deadline\<rparr>))
      else (se_idle_timeout env, s\<lparr>ss_assembly_deadline := None\<rparr>))"

datatype read_outcome = ReadData bytes | ReadTimeout | ReadError

definition close_session :: "'w session_env \<Rightarrow> 'w session \<Rightarrow> 'w session" where
  "close_session env s =
     (if ss_closed s then clear_credentials s
      else clear_credentials ((flush_out env s)\<lparr>ss_closed := True, ss_state := Logout\<rparr>))"

definition say_bye_and_close :: "'w session_env \<Rightarrow> str \<Rightarrow> 'w session \<Rightarrow> 'w session" where
  "say_bye_and_close env text s = close_session env (push (Bye text) s)"

text \<open>The loop, over the outcomes of the reads; the end of the list is a read that has not ended yet.\<close>

fun run_loop :: "'w session_env \<Rightarrow> (str \<Rightarrow> 'w handler option) \<Rightarrow> read_outcome list \<Rightarrow> 'w session \<Rightarrow> 'w session" where
  "run_loop env handlers [] s = s"
| "run_loop env handlers (r # rs) s =
     (if ss_state s = Logout \<or> ss_closed s then close_session env s
      else (let s0 = snd (read_timeout env s) in
        case r of
          ReadTimeout \<Rightarrow> close_session env (push (Bye (if in_progress (ss_parser s0)
              then ''command not completed in time'' else ''idle timeout'')) s0)
        | ReadError \<Rightarrow> close_session env s0
        | ReadData data \<Rightarrow>
            if data = [] then close_session env s0 else run_loop env handlers rs (on_data env handlers data s0)))"

definition greeting :: response where
  "greeting = UntaggedOk ''imapgw ready'' (Some (''CAPABILITY '' @ join_with '' '' capabilities))"

definition session_run :: "'w session_env \<Rightarrow> (str \<Rightarrow> 'w handler option) \<Rightarrow> read_outcome list \<Rightarrow> 'w session \<Rightarrow> 'w session" where
  "session_run env handlers reads s = run_loop env handlers reads (flush_out env (push greeting s))"

subsection \<open>The client's view\<close>

text \<open>
  What a client knows after the responses it has read: one entry per message, in sequence order, with the UID
  if it has learnt it. EXPUNGE removes one entry, EXISTS appends unknown ones.
\<close>

type_synonym view = "nat option list"

fun client_sees :: "response \<Rightarrow> view \<Rightarrow> view" where
  "client_sees (Expunge n) v = take (n - 1) v @ drop n v"
| "client_sees (Exists n) v = v @ replicate (n - length v) None"
| "client_sees _ v = v"

text \<open>The responses make sense to a client with that view: numbers in range, and EXISTS never lowers the count.\<close>

fun sensible :: "response list \<Rightarrow> view \<Rightarrow> bool" where
  "sensible [] v = True"
| "sensible (r # rs) v =
     ((case r of Expunge n \<Rightarrow> 0 < n \<and> n \<le> length v | Exists n \<Rightarrow> length v \<le> n
       | FetchData n _ \<Rightarrow> 0 < n \<and> n \<le> length v | _ \<Rightarrow> True)
      \<and> sensible rs (client_sees r v))"

definition agrees :: "view \<Rightarrow> nat list \<Rightarrow> bool" where
  "agrees v uids \<longleftrightarrow> list_all2 (\<lambda>k u. k = None \<or> k = Some u) v uids"

lemma sensible_append [simp]: "sensible (a @ b) v = (sensible a v \<and> sensible b (fold client_sees a v))"
  by (induction a arbitrary: v) auto

lemma agrees_length: "agrees v uids \<Longrightarrow> length v = length uids"
  by (simp add: agrees_def list_all2_lengthD)

lemma agrees_delete: "agrees v uids \<Longrightarrow> agrees (take k v @ drop (Suc k) v) (take k uids @ drop (Suc k) uids)"
  unfolding agrees_def by (intro list_all2_appendI list_all2_takeI list_all2_dropI)

lemma agrees_extend: "agrees v uids \<Longrightarrow> agrees (v @ replicate (length added) None) (uids @ added)"
  by (auto simp: agrees_def list_all2_conv_all_nth nth_append)

lemma drop_gone_view:
  assumes "drop_gone live k (uids, seen) = (out, uids', seen')" and "k \<le> length uids" and "agrees v uids"
  shows "uids' = filter (\<lambda>u. u \<in> live) (take k uids) @ drop k uids \<and> agrees (fold client_sees out v) uids'
    \<and> sensible out v \<and> (\<forall>r \<in> set out. \<exists>n. r = Expunge n)"
  using assms
proof (induction k arbitrary: uids seen out v)
  case (Suc k)
  have nth: "take (Suc k) uids = take k uids @ [uids ! k]" "drop k uids = uids ! k # drop (Suc k) uids"
    using Suc.prems(2) by (simp_all add: take_Suc_conv_app_nth Cons_nth_drop_Suc)
  show ?case
  proof (cases "uids ! k \<in> live")
    case True
    then have r: "drop_gone live k (uids, seen) = (out, uids', seen')" using Suc.prems(1) by simp
    have k: "k \<le> length uids" using Suc.prems(2) by simp
    note IH = Suc.IH [OF r k Suc.prems(3)]
    have "uids' = filter (\<lambda>u. u \<in> live) (take (Suc k) uids) @ drop (Suc k) uids"
      using IH [THEN conjunct1] True by (simp add: nth)
    then show ?thesis using IH [THEN conjunct2] by simp
  next
    case False
    let ?uids = "take k uids @ drop (Suc k) uids"
    obtain o' where o: "drop_gone live k (?uids, seen(uids ! k := None)) = (o', uids', seen')" "out = Expunge (Suc k) # o'"
      using Suc.prems(1) False by (auto split: prod.splits)
    have "agrees (client_sees (Expunge (Suc k)) v) ?uids" using agrees_delete [OF Suc.prems(3)] by simp
    have k: "k \<le> length ?uids" using Suc.prems(2) by simp
    note IH = Suc.IH [OF o(1) k \<open>agrees (client_sees (Expunge (Suc k)) v) ?uids\<close>]
    have "uids' = filter (\<lambda>u. u \<in> live) (take (Suc k) uids) @ drop (Suc k) uids"
      using IH [THEN conjunct1] False Suc.prems(2) by (simp add: nth)
    then show ?thesis
      using IH [THEN conjunct2] Suc.prems(2) agrees_length [OF Suc.prems(3)] by (auto simp: o(2))
  qed
qed simp

lemma announce_flags_data:
  assumes "announce_flags sn deleted ps seen = (out, seen')"
  shows "\<forall>r \<in> set out. \<exists>seq u i. (seq, u) \<in> set ps \<and> by_uid sn u = Some i \<and> r = flags_data seq u (flags_of i deleted)"
  using assms
proof (induction sn deleted ps seen arbitrary: out seen' rule: announce_flags.induct)
  case (2 sn deleted seq u rest seen)
  show ?case
  proof (cases "by_uid sn u")
    case None
    then show ?thesis using 2 by fastforce
  next
    case (Some i)
    obtain o2 where o: "announce_flags sn deleted rest (seen(u \<mapsto> flags_of i deleted)) = (o2, seen')"
        "set out \<subseteq> {flags_data seq u (flags_of i deleted)} \<union> set o2"
      using 2 Some by (auto simp: Let_def split: prod.splits option.splits if_splits)
    note IH = "2.IH"(2) [OF Some refl refl o(1)]
    show ?thesis
    proof
      fix r assume "r \<in> set out"
      then consider "r = flags_data seq u (flags_of i deleted)" | "r \<in> set o2" using o(2) by blast
      then show "\<exists>s u' j. (s, u') \<in> set ((seq, u) # rest) \<and> by_uid sn u' = Some j \<and> r = flags_data s u' (flags_of j deleted)"
        using IH Some by cases (auto 4 4)
    qed
  qed
qed simp

lemma fold_flags_data: "\<forall>r \<in> set out. \<exists>seq u fs. r = flags_data seq u fs \<Longrightarrow> fold client_sees out v = v"
  by (induction out arbitrary: v) (auto simp: flags_data_def)

lemma sensible_flags_data:
  "\<forall>r \<in> set out. \<exists>seq u fs. r = flags_data seq u fs \<and> 0 < seq \<and> seq \<le> length v \<Longrightarrow> sensible out v"
  by (induction out arbitrary: v) (auto simp: flags_data_def)

lemma numbered_mem: "(seq, u) \<in> set (numbered uids) \<longleftrightarrow> 0 < seq \<and> seq \<le> length uids \<and> uids ! (seq - 1) = u"
proof -
  have "numbered uids = map (\<lambda>i. (Suc i, uids ! i)) [0..<length uids]"
    by (rule nth_equalityI) (simp_all add: numbered_def nth_upt del: upt_Suc)
  then show ?thesis by (cases seq) auto
qed

text \<open>Refreshing a view whose new items lie behind the known ones.\<close>

lemma refresh_view_agrees:
  assumes run: "refresh_view sn deleted sel = (out, sel')" and v: "agrees v (sel_uids sel)"
    and sn: "sorted_wrt (<) (snapshot_uids sn)" and sel: "sorted_wrt (<) (sel_uids sel)"
    and new: "\<And>u w. u \<in> set (snapshot_uids sn) \<Longrightarrow> u \<notin> set (sel_uids sel) \<Longrightarrow> w \<in> set (sel_uids sel) \<Longrightarrow> w < u"
  shows "sel_uids sel' = snapshot_uids sn" and "agrees (fold client_sees out v) (sel_uids sel')" and "sensible out v"
    and "\<forall>r \<in> set out. (\<exists>n. r = Expunge n \<or> r = Exists n) \<or>
           (\<exists>seq i. r = flags_data seq (it_uid i) (flags_of i deleted) \<and> 0 < seq \<and> seq \<le> length (sel_uids sel')
              \<and> sel_uids sel' ! (seq - 1) = it_uid i \<and> i \<in> set (sn_items sn))"
    and "sel_name sel' = sel_name sel"
proof -
  let ?uids = "sel_uids sel" and ?live = "set (snapshot_uids sn)"
  obtain gone kept seen where g: "drop_gone ?live (length ?uids) (?uids, sel_flags_seen sel) = (gone, kept, seen)"
    by (metis prod.exhaust)
  note dg = drop_gone_view [OF g le_refl v]
  have kept: "kept = filter (\<lambda>u. u \<in> ?live) ?uids" using dg by simp
  let ?added = "filter (\<lambda>u. u \<notin> set kept) (snapshot_uids sn)"
  have "sorted_wrt (<) (kept @ ?added)"
    using sn sel new unfolding sorted_wrt_append kept by (auto intro: sorted_wrt_filter)
  then have "sort (kept @ ?added) = kept @ ?added" by (simp add: strict_sorted_iff sorted_sort_id)
  moreover have "kept @ ?added = snapshot_uids sn"
  proof (rule sorted_distinct_set_unique)
    show "set (kept @ ?added) = set (snapshot_uids sn)" by (auto simp: kept)
  qed (use \<open>sorted_wrt (<) (kept @ ?added)\<close> sn in \<open>simp_all add: strict_sorted_iff\<close>)
  ultimately have uids: "(if ?added = [] then kept else sort (kept @ ?added)) = snapshot_uids sn" by auto
  let ?arrived = "if ?added = [] then [] else [Exists (length (snapshot_uids sn))]"
  obtain changed seen' where c: "announce_flags sn deleted (numbered (snapshot_uids sn)) seen = (changed, seen')"
    by (metis prod.exhaust)
  have out: "out = gone @ ?arrived @ changed" "sel_uids sel' = snapshot_uids sn" "sel_name sel' = sel_name sel"
    using run g c uids unfolding refresh_view_def by (auto simp: Let_def)
  then show "sel_uids sel' = snapshot_uids sn" "sel_name sel' = sel_name sel" by auto
  define v1 where "v1 = fold client_sees gone v"
  define v2 where "v2 = fold client_sees ?arrived v1"
  have v1: "agrees v1 kept" "sensible gone v" using dg by (auto simp: v1_def)
  have len: "length (snapshot_uids sn) - length v1 = length ?added"
    using agrees_length [OF v1(1)] \<open>kept @ ?added = snapshot_uids sn\<close> by (metis add_diff_cancel_left' length_append)
  have v2: "agrees v2 (snapshot_uids sn)"
    using agrees_extend [OF v1(1), of ?added] v1(1) len \<open>kept @ ?added = snapshot_uids sn\<close>
    by (cases "?added = []") (simp_all add: v2_def)
  have data: "\<forall>r \<in> set changed. \<exists>seq i. r = flags_data seq (it_uid i) (flags_of i deleted) \<and> 0 < seq
      \<and> seq \<le> length (snapshot_uids sn) \<and> snapshot_uids sn ! (seq - 1) = it_uid i \<and> i \<in> set (sn_items sn)"
  proof
    fix r assume "r \<in> set changed"
    then obtain seq u i where r: "(seq, u) \<in> set (numbered (snapshot_uids sn))" "by_uid sn u = Some i"
        "r = flags_data seq u (flags_of i deleted)" using announce_flags_data [OF c] by blast
    moreover have "it_uid i = u" "i \<in> set (sn_items sn)" using by_uid_Some [OF r(2)] by auto
    ultimately show "\<exists>seq i. r = flags_data seq (it_uid i) (flags_of i deleted) \<and> 0 < seq
      \<and> seq \<le> length (snapshot_uids sn) \<and> snapshot_uids sn ! (seq - 1) = it_uid i \<and> i \<in> set (sn_items sn)"
      using numbered_mem by metis
  qed
  have same: "fold client_sees changed v2 = v2" using data by (intro fold_flags_data) blast
  have all: "fold client_sees out v = v2" by (simp add: out(1) v1_def [symmetric] v2_def [symmetric] same)
  show "agrees (fold client_sees out v) (sel_uids sel')" using v2 by (simp add: all out(2))
  have "sensible changed v2" using data agrees_length [OF v2] by (intro sensible_flags_data) fastforce
  moreover have "length v1 \<le> length (snapshot_uids sn)"
    using agrees_length [OF v1(1)] \<open>kept @ ?added = snapshot_uids sn\<close> by (metis le_add1 length_append)
  then have "sensible ?arrived v1" by simp
  ultimately show "sensible out v" using v1(2) by (simp add: out(1) v1_def v2_def)
  show "\<forall>r \<in> set out. (\<exists>n. r = Expunge n \<or> r = Exists n) \<or>
           (\<exists>seq i. r = flags_data seq (it_uid i) (flags_of i deleted) \<and> 0 < seq \<and> seq \<le> length (sel_uids sel')
              \<and> sel_uids sel' ! (seq - 1) = it_uid i \<and> i \<in> set (sn_items sn))"
    unfolding out(1,2) using dg data by (auto split: if_splits)
qed

text \<open>
  A session's view is behind the service by arrivals only: with \<open>n0\<close> the UIDNEXT of the snapshot it was last
  told about, everything the mailbox shows below \<open>n0\<close> is in the view.
\<close>

definition view_of :: "'w service_cfg \<Rightarrow> 'w service \<Rightarrow> str \<Rightarrow> selected \<Rightarrow> bool" where
  "view_of cfg sv inbox sel \<longleftrightarrow> sorted_wrt (<) (sel_uids sel) \<and>
     (\<exists>mdef n0 n U. lookup cfg (sel_name sel) = Some mdef \<and> shown sv (Box inbox (md_name mdef)) = Some (n, U)
        \<and> n0 \<le> n \<and> (\<forall>u \<in> set (sel_uids sel). u < n0) \<and> (\<forall>u \<in> U. u < n0 \<longrightarrow> u \<in> set (sel_uids sel)))"

definition view_current :: "'w service_cfg \<Rightarrow> 'w session \<Rightarrow> bool" where
  "view_current cfg s \<longleftrightarrow> (\<forall>sel inbox. ss_selected s = Some sel \<longrightarrow> ss_inbox s = Some inbox \<longrightarrow>
     view_of cfg (ss_service s) inbox sel)"

lemma view_of_grown:
  assumes "view_of cfg sv inbox sel" and "grown cfg sv sv'"
  shows "view_of cfg sv' inbox sel"
proof -
  obtain mdef n0 n U where v: "lookup cfg (sel_name sel) = Some mdef" "shown sv (Box inbox (md_name mdef)) = Some (n, U)"
      "n0 \<le> n" "\<forall>u \<in> set (sel_uids sel). u < n0" "\<forall>u \<in> U. u < n0 \<longrightarrow> u \<in> set (sel_uids sel)"
    and s: "sorted_wrt (<) (sel_uids sel)"
    using assms(1) unfolding view_of_def by blast
  obtain n' U' where "shown sv' (Box inbox (md_name mdef)) = Some (n', U')" "n \<le> n'" "\<forall>u \<in> U'. u < n \<longrightarrow> u \<in> U"
    using assms(2) v(2) unfolding grown_def latest_le_def shown_le_def by fastforce
  then show ?thesis unfolding view_of_def using v s
    by (intro conjI exI [of _ mdef] exI [of _ n0] exI [of _ n'] exI [of _ U']) auto
qed

lemma view_of_snapshot:
  assumes "service_inv sv" and "lookup cfg (sel_name sel) = Some mdef"
    and "sv_latest sv (Box inbox (md_name mdef)) = Some sn" and "sel_uids sel = snapshot_uids sn"
  shows "view_of cfg sv inbox sel"
proof -
  have ok: "snapshot_ok (sv_store sv) (Box inbox (md_name mdef)) sn" using assms(1,3) by (simp add: service_inv_def)
  show ?thesis unfolding view_of_def
    using ok assms by (auto simp: shown_def snapshot_ok_def snapshot_uids_def)
qed

lemma flush_pending_view:
  assumes cur: "view_of (se_service env) (ss_service s) inbox sel" and sel: "ss_selected s = Some sel" "ss_inbox s = Some inbox"
    and inv: "service_inv (ss_service s)" and v: "agrees v (sel_uids sel)"
  obtains sn out sel' where "latest (se_service env) inbox (sel_name sel) (ss_service s) = Some sn"
    "flush_pending env s = s\<lparr>ss_selected := Some sel', ss_out := ss_out s @ out\<rparr>"
    "sel_uids sel' = snapshot_uids sn" "sel_name sel' = sel_name sel" "agrees (fold client_sees out v) (sel_uids sel')"
    "sensible out v" "view_of (se_service env) (ss_service s) inbox sel'"
    "\<forall>r \<in> set out. (\<exists>n. r = Expunge n \<or> r = Exists n) \<or> (\<exists>seq i. r = flags_data seq (it_uid i)
       (flags_of i (service_deleted (se_service env) inbox (sel_name sel) (ss_service s)))
       \<and> 0 < seq \<and> seq \<le> length (sel_uids sel') \<and> sel_uids sel' ! (seq - 1) = it_uid i \<and> i \<in> set (sn_items sn))"
proof -
  let ?cfg = "se_service env" and ?sv = "ss_service s"
  let ?deleted = "service_deleted ?cfg inbox (sel_name sel) ?sv"
  obtain mdef n0 n U where m: "lookup ?cfg (sel_name sel) = Some mdef" "shown ?sv (Box inbox (md_name mdef)) = Some (n, U)"
      "n0 \<le> n" "\<forall>u \<in> set (sel_uids sel). u < n0" "\<forall>u \<in> U. u < n0 \<longrightarrow> u \<in> set (sel_uids sel)"
    and srt: "sorted_wrt (<) (sel_uids sel)"
    using cur unfolding view_of_def by blast
  obtain sn where sn: "sv_latest ?sv (Box inbox (md_name mdef)) = Some sn" "U = set (snapshot_uids sn)"
    using m(2) by (auto simp: shown_def)
  have l: "latest ?cfg inbox (sel_name sel) ?sv = Some sn" using m(1) sn(1) by (simp add: latest_def)
  have ok: "sorted_wrt (<) (snapshot_uids sn)" using inv sn(1) by (auto simp: service_inv_def snapshot_ok_def)
  have new: "w < u" if "u \<in> set (snapshot_uids sn)" "u \<notin> set (sel_uids sel)" "w \<in> set (sel_uids sel)" for u w
    using m(4,5) that sn(2) by (meson less_le_trans not_le_imp_less)
  obtain out sel' where r: "refresh_view sn ?deleted sel = (out, sel')" by fastforce
  note ra = refresh_view_agrees [OF r v ok srt new]
  have "flush_pending env s = s\<lparr>ss_selected := Some sel', ss_out := ss_out s @ out\<rparr>"
    by (simp add: flush_pending_def sel l r)
  moreover have "view_of ?cfg ?sv inbox sel'" using view_of_snapshot [OF inv _ sn(1)] m(1) ra(1,5) by simp
  ultimately show thesis using that l ra by blast
qed

text \<open>A client that reads what a session announces never loses track: whatever the service did since the
  last announcement, on behalf of this or other sessions, \<open>flush_pending\<close> sends EXPUNGE, EXISTS and FETCH
  responses that are sensible for the client's view, and the client that follows them has exactly the
  messages of the latest snapshot, in its order. New messages are always behind the known ones, and every
  FETCH names the message at its place with its flags of now.\<close>

theorem announced_view_is_true:
  assumes "view_current (se_service env) s" and "ss_selected s = Some sel" and "ss_inbox s = Some inbox"
    and "grown (se_service env) (ss_service s) sv" and "agrees v (sel_uids sel)"
  shows "\<exists>sn out sel'. latest (se_service env) inbox (sel_name sel) sv = Some sn
    \<and> flush_pending env (s\<lparr>ss_service := sv\<rparr>) = s\<lparr>ss_service := sv, ss_selected := Some sel', ss_out := ss_out s @ out\<rparr>
    \<and> sensible out v \<and> agrees (fold client_sees out v) (sel_uids sel') \<and> sel_uids sel' = snapshot_uids sn
    \<and> (\<forall>r \<in> set out. (\<exists>n. r = Expunge n \<or> r = Exists n) \<or> (\<exists>seq. \<exists>i \<in> set (sn_items sn). 0 < seq
         \<and> seq \<le> length (sn_items sn) \<and> snapshot_uids sn ! (seq - 1) = it_uid i
         \<and> r = flags_data seq (it_uid i) (flags_of i (service_deleted (se_service env) inbox (sel_name sel) sv))))
    \<and> view_current (se_service env) (flush_pending env (s\<lparr>ss_service := sv\<rparr>))"
proof -
  let ?s = "s\<lparr>ss_service := sv\<rparr>"
  have cur: "view_of (se_service env) (ss_service ?s) inbox sel"
    using assms(1,2,3) view_of_grown [OF _ assms(4)] by (simp add: view_current_def)
  have inv: "service_inv (ss_service ?s)" using assms(4) by (simp add: grown_def service_good_def)
  have s: "ss_selected ?s = Some sel" "ss_inbox ?s = Some inbox" using assms(2,3) by simp_all
  obtain sn out sel' where f: "latest (se_service env) inbox (sel_name sel) (ss_service ?s) = Some sn"
    "flush_pending env ?s = ?s\<lparr>ss_selected := Some sel', ss_out := ss_out ?s @ out\<rparr>"
    "sel_uids sel' = snapshot_uids sn" "agrees (fold client_sees out v) (sel_uids sel')"
    "sensible out v" "view_of (se_service env) (ss_service ?s) inbox sel'"
    "\<forall>r \<in> set out. (\<exists>n. r = Expunge n \<or> r = Exists n) \<or> (\<exists>seq i. r = flags_data seq (it_uid i)
       (flags_of i (service_deleted (se_service env) inbox (sel_name sel) (ss_service ?s)))
       \<and> 0 < seq \<and> seq \<le> length (sel_uids sel') \<and> sel_uids sel' ! (seq - 1) = it_uid i \<and> i \<in> set (sn_items sn))"
    by (rule flush_pending_view [OF cur s inv assms(5)])
  have len: "length (snapshot_uids sn) = length (sn_items sn)" by (simp add: snapshot_uids_def)
  show ?thesis
  proof (rule exI [of _ sn], rule exI [of _ out], rule exI [of _ sel'], intro conjI)
    show "latest (se_service env) inbox (sel_name sel) sv = Some sn" using f(1) by simp
    show "flush_pending env ?s = s\<lparr>ss_service := sv, ss_selected := Some sel', ss_out := ss_out s @ out\<rparr>" using f(2) by simp
    show "view_current (se_service env) (flush_pending env ?s)" using f(6) assms(3) by (simp add: f(2) view_current_def)
    show "\<forall>r \<in> set out. (\<exists>n. r = Expunge n \<or> r = Exists n) \<or> (\<exists>seq. \<exists>i \<in> set (sn_items sn). 0 < seq
         \<and> seq \<le> length (sn_items sn) \<and> snapshot_uids sn ! (seq - 1) = it_uid i
         \<and> r = flags_data seq (it_uid i) (flags_of i (service_deleted (se_service env) inbox (sel_name sel) sv)))"
      using f(7) by (simp add: f(3) len) blast
  qed (use f(3-5) in simp_all)
qed

subsection \<open>One tagged response per command\<close>

fun is_reply :: "response \<Rightarrow> bool" where
  "is_reply (Tagged _ _ _ _) = True"
| "is_reply _ = False"

text \<open>The tagged responses a session has given so far, sent or waiting to be sent.\<close>

definition replies :: "'w session \<Rightarrow> response list" where
  "replies s = filter is_reply (ss_sent s @ ss_out s)"

text \<open>Either the connection is gone, or the replies are \<open>R\<close>.\<close>

definition replied :: "response list \<Rightarrow> 'w session \<Rightarrow> bool" where
  "replied R s \<longleftrightarrow> ss_closed s \<or> replies s = R"

definition quiet :: "('w, 'a) session_io \<Rightarrow> bool" where
  "quiet m \<longleftrightarrow> (\<forall>R. io_keeps (replied R) m)"

text \<open>A computation that answers the command with tag \<open>tag\<close> once when it returns, and not at all when it raises.\<close>

definition outcome :: "str \<Rightarrow> response list \<Rightarrow> (cmd_error + unit) \<times> 'w session \<Rightarrow> bool" where
  "outcome tag R res \<longleftrightarrow> (case res of
     (Inl e, s') \<Rightarrow> replied R s'
   | (Inr _, s') \<Rightarrow> \<exists>text code. replied (R @ [Tagged tag ''OK'' text code]) s')"

definition answers :: "str \<Rightarrow> ('w, unit) session_io \<Rightarrow> bool" where
  "answers tag m \<longleftrightarrow> (\<forall>R s. replied R s \<longrightarrow> outcome tag R (m s))"

lemma outcome_simps [simp]:
  "outcome tag R (Inl e, s') = replied R s'"
  "outcome tag R (Inr x, s') = (\<exists>text code. replied (R @ [Tagged tag ''OK'' text code]) s')"
  by (simp_all add: outcome_def)

lemma quietI: "(\<And>R s. replied R s \<Longrightarrow> replied R (snd (m s))) \<Longrightarrow> quiet m"
  by (simp add: quiet_def io_keeps_def)

lemma quiet_basic [intro, simp]: "quiet (io_return x)" "quiet (io_raise e)" "quiet (io_get f)" "quiet (io_lift r)"
  by (auto simp: quiet_def)

lemma quiet_bind [intro]: "quiet m \<Longrightarrow> (\<And>x. quiet (f x)) \<Longrightarrow> quiet (io_bind m f)"
  unfolding quiet_def by (intro allI io_keeps_bind) auto

lemma quiet_then [intro]: "quiet m \<Longrightarrow> quiet n \<Longrightarrow> quiet (io_then m n)"
  unfolding io_then_def by blast

lemma quiet_when [intro]: "(b \<Longrightarrow> quiet m) \<Longrightarrow> quiet (io_when b m)"
  by (cases b) (auto simp: io_when_def)

lemma quiet_catch [intro]: "quiet m \<Longrightarrow> (\<And>e. quiet (h e)) \<Longrightarrow> quiet (io_catch m h)"
  unfolding quiet_def by (intro allI io_keeps_catch) auto

lemma quiet_fold [intro]: "(\<And>x acc. x \<in> set xs \<Longrightarrow> quiet (step x acc)) \<Longrightarrow> quiet (io_fold step xs acc)"
  unfolding quiet_def by (intro allI io_keeps_fold) auto

lemma replied_cong: "ss_closed s' = ss_closed s \<Longrightarrow> replies s' = replies s \<Longrightarrow> replied R s' = replied R s"
  by (simp add: replied_def)

lemma replies_fields [simp]:
  "replies (s\<lparr>ss_service := sv\<rparr>) = replies s" "replies (s\<lparr>ss_selected := sel\<rparr>) = replies s"
  "replies (s\<lparr>ss_state := st\<rparr>) = replies s" "replies (s\<lparr>ss_deferred := d\<rparr>) = replies s"
  "replies (s\<lparr>ss_redactor := rd\<rparr>) = replies s" "replies (s\<lparr>ss_api := a\<rparr>) = replies s"
  "replies (s\<lparr>ss_api_key := k\<rparr>) = replies s" "replies (s\<lparr>ss_inbox := i\<rparr>) = replies s"
  "replies (s\<lparr>ss_deadline := t\<rparr>) = replies s" "replies (s\<lparr>ss_parser := p\<rparr>) = replies s"
  "replies (s\<lparr>ss_closed := c\<rparr>) = replies s" "replies (s\<lparr>ss_out := ss_out s @ rs\<rparr>) = replies s @ filter is_reply rs"
  by (simp_all add: replies_def)

lemma replied_fields [simp]:
  "replied R (s\<lparr>ss_service := sv\<rparr>) = replied R s" "replied R (s\<lparr>ss_selected := sel\<rparr>) = replied R s"
  "replied R (s\<lparr>ss_state := st\<rparr>) = replied R s" "replied R (s\<lparr>ss_deferred := d\<rparr>) = replied R s"
  "replied R (s\<lparr>ss_redactor := rd\<rparr>) = replied R s" "replied R (s\<lparr>ss_api := a\<rparr>) = replied R s"
  "replied R (s\<lparr>ss_api_key := k\<rparr>) = replied R s" "replied R (s\<lparr>ss_inbox := i\<rparr>) = replied R s"
  "replied R (s\<lparr>ss_deadline := t\<rparr>) = replied R s"
  by (simp_all add: replied_def)

lemma replied_push: "replied R s \<Longrightarrow> \<not> is_reply r \<Longrightarrow> replied R (push r s)"
  by (simp add: push_def replied_def)

lemma replied_push_reply: "replied R s \<Longrightarrow> is_reply r \<Longrightarrow> replied (R @ [r]) (push r s)"
  by (simp add: push_def replied_def)

lemma replied_flush_out [simp]: "replied R s \<Longrightarrow> replied R (flush_out env s)"
  by (auto simp: replied_def flush_out_def replies_def Let_def abort_def split: drain_outcome.splits)

lemma drop_gone_no_reply:
  "drop_gone live k st = (out, st') \<Longrightarrow> filter is_reply out = []"
  by (induction live k st arbitrary: out st' rule: drop_gone.induct) (auto split: if_splits prod.splits)

lemma announce_no_reply:
  "announce_flags sn deleted ps seen = (out, seen') \<Longrightarrow> filter is_reply out = []"
  using announce_flags_data by (fastforce simp: filter_empty_conv flags_data_def)

lemma refresh_no_reply: "refresh_view sn deleted sel = (out, sel') \<Longrightarrow> filter is_reply out = []"
  by (auto simp: refresh_view_def Let_def drop_gone_no_reply announce_no_reply split: prod.splits)

lemma replied_flush_pending [simp]: "replied R s \<Longrightarrow> replied R (flush_pending env s)"
  by (auto simp: flush_pending_def replied_def replies_def refresh_no_reply split: option.splits prod.splits)

lemma quiet_modify: "(\<And>R s. replied R s \<Longrightarrow> replied R (g s)) \<Longrightarrow> quiet (io_modify g)"
  by (simp add: quiet_def io_keeps_def)

lemma quiet_say [intro]: "\<not> is_reply r \<Longrightarrow> quiet (say r)"
  unfolding say_def by (rule quiet_modify) (rule replied_push)

lemma quiet_helpers [intro, simp]:
  "quiet (service_call env m)" "quiet (on_service f)" "quiet (require_state states)" "quiet require_selected"
  "quiet need_api"
  by (auto simp: quiet_def io_keeps_def service_call_def on_service_def require_state_def require_selected_def
      need_api_def Let_def split: prod.splits option.splits)

lemma quiet_changes [intro, simp]:
  "quiet (io_modify (record_flags u fs))" "quiet (io_modify (flush_pending env))" "quiet (io_modify (flush_out env))"
  "quiet (io_modify (apply_snapshot env inbox sn ro))" "quiet (io_modify (defer_work task))"
  by (auto intro!: quiet_modify simp: record_flags_def apply_snapshot_def defer_work_def Let_def split: option.splits)

lemma answers_say: "answers tag (say (Tagged tag ''OK'' text code))"
  using replied_push_reply [of _ _ "Tagged tag ''OK'' text code"] by (auto simp: answers_def say_def)

lemma answers_raise [simp]: "answers tag (io_raise e)"
  by (simp add: answers_def)

lemma answers_bind:
  assumes "quiet m" and f: "\<And>x. answers tag (f x)"
  shows "answers tag (io_bind m f)"
  unfolding answers_def
proof (intro allI impI)
  fix R and s :: "'a session"
  assume R: "replied R s"
  obtain r s' where m: "m s = (r, s')" by fastforce
  have R': "replied R s'" using assms(1) R m unfolding quiet_def io_keeps_def by (metis snd_conv)
  show "outcome tag R (io_bind m f s)"
  proof (cases r)
    case (Inl e)
    then show ?thesis using m R' by simp
  next
    case (Inr x)
    then have "io_bind m f s = f x s'" using m by simp
    then show ?thesis using f [of x] R' by (simp add: answers_def)
  qed
qed

lemma answers_then: "quiet m \<Longrightarrow> answers tag n \<Longrightarrow> answers tag (io_then m n)"
  unfolding io_then_def by (rule answers_bind)

text \<open>Changes after the answer that write nothing.\<close>

lemma answers_before:
  assumes "answers tag m" and "\<And>R s. replied R s \<Longrightarrow> replied R (g s)"
  shows "answers tag (io_then m (io_modify g))"
  unfolding answers_def
proof (intro allI impI)
  fix R and s :: "'a session"
  assume R: "replied R s"
  obtain r s' where m: "m s = (r, s')" by fastforce
  have "outcome tag R (r, s')" using assms(1) R m unfolding answers_def by metis
  then show "outcome tag R (io_then m (io_modify g) s)"
    using assms(2) m by (cases r) (auto simp: io_then_def)
qed

lemma failure_reply_cases:
  "(\<exists>status text code. failure_reply env cmd st e = (Tagged (cmd_tag cmd) status text code, False))
    \<or> failure_reply env cmd st e = (Bye ''credentials no longer valid'', True)"
  by (cases e) (auto simp: failure_reply_def internal_error_def Let_def split: api_error.split error_kind.split)

text \<open>The command got its one answer, or the session said why it ends instead.\<close>

definition answered :: "str \<Rightarrow> 'w session \<Rightarrow> 'w session \<Rightarrow> bool" where
  "answered tag s s' \<longleftrightarrow> ss_closed s' \<or>
     (\<exists>status text code. replies s' = replies s @ [Tagged tag status text code]) \<or>
     (replies s' = replies s \<and> ss_state s' = Logout \<and> Bye ''credentials no longer valid'' \<in> set (ss_sent s' @ ss_out s'))"

lemma answered_cases:
  assumes "(\<exists>status text code. replied (replies s @ [Tagged tag status text code]) s') \<or>
     (replied (replies s) s' \<and> ss_state s' = Logout \<and> Bye ''credentials no longer valid'' \<in> set (ss_sent s' @ ss_out s'))"
  shows "answered tag s s'"
  using assms unfolding answered_def replied_def by blast

lemma replied_drop_failed_login [simp]: "replied R (drop_failed_login s) = replied R s"
  by (simp add: drop_failed_login_def clear_credentials_def Let_def)

lemma followups_frame [simp]:
  "ss_state (fold (run_followup env) ts s) = ss_state s" "ss_sent (fold (run_followup env) ts s) = ss_sent s"
  "ss_out (fold (run_followup env) ts s) = ss_out s" "ss_closed (fold (run_followup env) ts s) = ss_closed s"
  by (induction ts arbitrary: s) (simp_all add: run_followup_def)

lemma replied_followups [simp]: "replied R (fold (run_followup env) ts s) = replied R s"
  by (simp add: replied_def replies_def)

lemma replied_run_deferred: "replied R s \<Longrightarrow> replied R (run_deferred env s)"
  by (simp add: run_deferred_def Let_def)

lemma replied_self [simp]: "replied (replies s) s" "replied (replies s) (s\<lparr>ss_deadline := t\<rparr>)"
  by (simp_all add: replied_def)

text \<open>A command from its handler on: the session the handler starts from, and the one it leaves with its error
  answered.\<close>

abbreviation timed :: "'w session_env \<Rightarrow> 'w session \<Rightarrow> 'w session" where
  "timed env s \<equiv> s\<lparr>ss_deadline := now (se_service env) (ss_service s) + se_command_timeout env\<rparr>"

definition concluded :: "'w session_env \<Rightarrow> command \<Rightarrow> (cmd_error + unit) \<times> 'w session \<Rightarrow> 'w session" where
  "concluded env cmd res = (case res of (Inl e, s) \<Rightarrow> conclude env cmd e s | (Inr _, s) \<Rightarrow> s)"

lemma concluded_simps [simp]: "concluded env cmd (Inl e, s) = conclude env cmd e s" "concluded env cmd (Inr x, s) = s"
  by (simp_all add: concluded_def)

lemma dispatch_cases:
  obtains (unknown) "handlers (cmd_name cmd) = None"
      "dispatch env handlers cmd s = push (Tagged (cmd_tag cmd) ''BAD'' (''unknown command '' @ cmd_name cmd) None) s"
  | (known) h r s1 where "handlers (cmd_name cmd) = Some h" "h env cmd (timed env s) = (r, s1)"
      "dispatch env handlers cmd s = run_deferred env (drop_failed_login (concluded env cmd (r, s1)))"
proof (cases "handlers (cmd_name cmd)")
  case None
  then show ?thesis using that(1) by (simp add: dispatch_def)
next
  case (Some h)
  obtain r s1 where h: "h env cmd (timed env s) = (r, s1)" by fastforce
  show ?thesis by (rule that(2) [OF Some h]) (simp add: dispatch_def Some h concluded_def split: sum.split)
qed

text \<open>What a table of handlers must guarantee, and what \<open>dispatch\<close> makes of it.\<close>

locale handler_table =
  fixes env :: "'w session_env" and handlers :: "str \<Rightarrow> 'w handler option"
  assumes answering: "handlers nm = Some h \<Longrightarrow> answers (cmd_tag cmd) (h env cmd)"
begin

lemma dispatch_answered: "answered (cmd_tag cmd) s (dispatch env handlers cmd s)"
proof (cases rule: dispatch_cases [of handlers cmd env s])
  case unknown
  then show ?thesis by (simp add: answered_def push_def)
next
  case (known h r s1)
  let ?tag = "cmd_tag cmd"
  have out: "outcome ?tag (replies s) (r, s1)"
    using answering [OF known(1), of cmd] known(2) by (metis answers_def replied_self(2))
  show ?thesis
  proof (cases r)
    case (Inr x)
    then obtain t c where "replied (replies s @ [Tagged ?tag ''OK'' t c]) s1" using out by auto
    then have "replied (replies s @ [Tagged ?tag ''OK'' t c]) (dispatch env handlers cmd s)"
      using Inr by (simp add: known(3) replied_run_deferred)
    then show ?thesis by (intro answered_cases) blast
  next
    case (Inl e)
    then have q: "replied (replies s) s1" using out by simp
    have d: "dispatch env handlers cmd s = run_deferred env (drop_failed_login (conclude env cmd e s1))"
      using Inl by (simp add: known(3))
    consider st t c where "failure_reply env cmd (ss_state s1) e = (Tagged ?tag st t c, False)"
      | "failure_reply env cmd (ss_state s1) e = (Bye ''credentials no longer valid'', True)"
      using failure_reply_cases by blast
    then show ?thesis
    proof cases
      case 1
      then have "replied (replies s @ [Tagged ?tag st t c]) (conclude env cmd e s1)"
        using replied_push_reply [OF q] by (simp add: conclude_def)
      then have "replied (replies s @ [Tagged ?tag st t c]) (dispatch env handlers cmd s)"
        by (simp add: d replied_run_deferred)
      then show ?thesis by (intro answered_cases) blast
    next
      case 2
      let ?c = "drop_failed_login (conclude env cmd e s1)"
      have "replied (replies s) ?c" "ss_state ?c = Logout" "Bye ''credentials no longer valid'' \<in> set (ss_sent ?c @ ss_out ?c)"
        using 2 replied_push [OF q] by (simp_all add: conclude_def drop_failed_login_def push_def)
      then show ?thesis by (intro answered_cases) (simp add: d run_deferred_def Let_def)
    qed
  qed
qed

end

end
