(* ===== verification/Commands.thy ===== *)
theory Commands
  imports Session
begin

text \<open>
  The command handlers, \<open>imapgw/commands.py\<close>, one definition per handler, and the tables \<open>HANDLERS\<close> and
  \<open>UID_HANDLERS\<close> as they are after the module is loaded. A handler that ends with its tagged OK returns; any
  other end is an exception that \<open>dispatch\<close> turns into the answer. The texts of log messages are left out.

  The lemmas show that the two-pointer wildcard matcher decides the matching relation, that a UID set of
  COPYUID is read back as the UIDs it was made of, and that the table of handlers meets the contract of
  \<open>Session\<close>: one answer per command.
\<close>

subsection \<open>Arguments\<close>

definition arg_text :: "command \<Rightarrow> nat \<Rightarrow> str \<Rightarrow> cmd_error + str" where
  "arg_text cmd index what =
     (if length (cmd_args cmd) \<le> index then Inl (bad (cmd_name cmd @ '' requires '' @ what))
      else (case cmd_args cmd ! index of
          ListTok _ \<Rightarrow> Inl (bad (what @ '' must be a string''))
        | tok \<Rightarrow> (case astring_bytes tok of
              Inl _ \<Rightarrow> Inl (bad (''invalid '' @ what))
            | Inr b \<Rightarrow> if utf8_ok b then Inr b else Inl (bad (''invalid '' @ what)))))"

definition printable :: "str \<Rightarrow> bool" where
  "printable t \<longleftrightarrow> t \<noteq> [] \<and> list_all printable_char t"

definition ensure :: "bool \<Rightarrow> cmd_error \<Rightarrow> ('w, unit) session_io" where
  "ensure ok e = (if ok then io_return () else io_raise e)"

definition ok_reply :: "command \<Rightarrow> str \<Rightarrow> ('w, unit) session_io" where
  "ok_reply cmd label = say (Tagged (cmd_tag cmd) ''OK'' (label @ '' completed'') None)"

subsection \<open>Any state\<close>

definition capability_cmd :: "'w handler" where
  "capability_cmd env cmd =
     io_then (ensure (cmd_args cmd = []) (bad ''CAPABILITY takes no arguments''))
      (io_then (say (CapabilityData capabilities)) (ok_reply cmd ''CAPABILITY''))"

text \<open>The API client and the inbox id are tested for truth: an empty inbox id counts as none.\<close>

definition refresh_selected :: "'w session_env \<Rightarrow> ('w, unit) session_io" where
  "refresh_selected env s = (case (ss_state s, ss_api s, ss_inbox s, ss_selected s) of
     (SelectedState, Some api, Some inbox, Some sel) \<Rightarrow>
       if inbox = [] then (Inr (), s)
       else io_then (service_call env (sync (se_service env) api inbox (sel_name sel) True))
              (io_modify (flush_pending env)) s
   | _ \<Rightarrow> (Inr (), s))"

definition noop_cmd :: "'w handler" where
  "noop_cmd env cmd =
     io_then (ensure (cmd_args cmd = []) (bad ''NOOP takes no arguments''))
      (io_then (refresh_selected env) (ok_reply cmd ''NOOP''))"

definition logout_cmd :: "'w handler" where
  "logout_cmd env cmd =
     io_then (say (Bye ''logging out''))
      (io_then (ok_reply cmd ''LOGOUT'') (io_modify (\<lambda>s. s\<lparr>ss_state := Logout\<rparr>)))"

subsection \<open>Not authenticated\<close>

definition invalid_credentials :: cmd_error where
  "invalid_credentials = no ''invalid credentials'' (Some ''AUTHENTICATIONFAILED'')"

text \<open>\<open>str(identity.get("scope_type", ""))\<close>: only a missing key reads as the empty text.\<close>

definition scope_type_of :: "'w session_env \<Rightarrow> (str \<times> json) list \<Rightarrow> str" where
  "scope_type_of env identity = (case map_of identity ''scope_type'' of
     None \<Rightarrow> [] | Some v \<Rightarrow> py_str (el_repr (cf_lib (se_service env))) v)"

text \<open>\<open>except (NotFoundError, BadRequestError)\<close> around the lookup of the inbox.\<close>

definition refuse_invisible :: "cmd_error \<Rightarrow> ('w, 'a) session_io" where
  "refuse_invisible e = (case e of
     ApiFailure (AgentMailError k _ _ _) \<Rightarrow>
       if k = NotFoundError \<or> k = BadRequestError then io_raise invalid_credentials else io_raise e
   | _ \<Rightarrow> io_raise e)"

definition http_of :: "'w session_env \<Rightarrow> 'w service http_env" where
  "http_of env = service_http (se_service env)"

definition check_scope :: "'w session_env \<Rightarrow> client \<Rightarrow> str \<Rightarrow> (str \<times> json) list \<Rightarrow> ('w, unit) session_io" where
  "check_scope env api userid identity =
     (let scope = scope_type_of env identity; scoped = jget identity ''inbox_id'' in
      io_then (ensure (\<not> (scope = ''inbox'' \<and> truthy scoped \<and> scoped \<noteq> JStr userid)) invalid_credentials)
       (if scope \<noteq> ''inbox'' \<or> \<not> truthy scoped
        then io_catch (io_then (service_call env (get_inbox api (http_of env) userid)) (io_return ())) refuse_invisible
        else io_return ()))"

definition login_cmd :: "'w handler" where
  "login_cmd env cmd =
     io_bind (io_get ss_state) (\<lambda>st.
     io_then (ensure (st = NotAuthenticated) (bad ''already authenticated''))
     (io_then (ensure (length (cmd_args cmd) = 2) (bad ''LOGIN requires a user id and a password''))
     (io_bind (io_lift (arg_text cmd 0 ''user id'')) (\<lambda>userid.
      io_bind (io_lift (arg_text cmd 1 ''password'')) (\<lambda>password.
      io_then (ensure (printable userid \<and> printable password) invalid_credentials)
      (io_then (ensure (case se_allowed env of None \<Rightarrow> True | Some a \<Rightarrow> a = [] \<or> userid = a) invalid_credentials)
      (io_bind (io_step (set_credentials env userid password)) (\<lambda>api.
       io_bind (service_call env (auth_me api (http_of env))) (\<lambda>identity.
       io_then (check_scope env api userid identity)
       (io_then (io_modify (\<lambda>s. s\<lparr>ss_state := Authenticated\<rparr>))
         (say (Tagged (cmd_tag cmd) ''OK'' ''LOGIN completed''
            (Some (''CAPABILITY '' @ join_with '' '' capabilities))))))))))))))"

definition unsupported_cmd :: "str \<Rightarrow> 'w handler" where
  "unsupported_cmd msg env cmd = io_raise (no msg (Some ''CANNOT''))"

subsection \<open>LIST and LSUB\<close>

definition max_list_pattern :: nat where "max_list_pattern = 512"

text \<open>The collapsing loop: a run of wildcards becomes one star.\<close>

definition collapse_step :: "char \<Rightarrow> str \<Rightarrow> str" where
  "collapse_step ch collapsed =
     (if ch = CHR ''*'' \<or> ch = CHR ''%''
      then (if collapsed \<noteq> [] \<and> last collapsed = CHR ''*'' then collapsed else collapsed @ ''*'')
      else collapsed @ [ch])"

definition collapse :: "str \<Rightarrow> str" where
  "collapse pattern = fold collapse_step pattern []"

text \<open>
  The matcher: \<open>pt\<close> and \<open>nt\<close> are the places in pattern and name (\<open>pi\<close> and \<open>ni\<close>), \<open>star\<close> is the last star with
  the place in the name it was tried at (\<open>star = -1\<close> is \<open>None\<close>).
\<close>

function match_loop :: "str \<Rightarrow> str \<Rightarrow> nat \<Rightarrow> nat \<Rightarrow> (nat \<times> nat) option \<Rightarrow> bool" where
  "match_loop p nm pt nt star =
     (if nt < length nm then
        (if pt < length p \<and> p ! pt = CHR ''*'' then match_loop p nm (pt + 1) nt (Some (pt, nt))
         else if pt < length p \<and> p ! pt = nm ! nt then match_loop p nm (pt + 1) (nt + 1) star
         else (case star of
             Some (sp, sn) \<Rightarrow> match_loop p nm (sp + 1) (sn + 1) (Some (sp, sn + 1))
           | None \<Rightarrow> False))
      else dropWhile (\<lambda>c. c = CHR ''*'') (drop pt p) = [])"
  by pat_completeness auto
termination
  by (relation "measures [\<lambda>(p, nm, pt, nt, star). (case star of
          Some (sp, sn) \<Rightarrow> if sn \<le> nt then length nm - sn else length nm + 2 | None \<Rightarrow> length nm + 1),
        \<lambda>(p, nm, pt, nt, star). length nm - nt, \<lambda>(p, nm, pt, nt, star). length p - pt]")
     (auto split: option.splits if_splits)

declare match_loop.simps [simp del]

definition wildcard_match :: "str \<Rightarrow> str \<Rightarrow> bool \<Rightarrow> bool" where
  "wildcard_match pattern nm ignore_case =
     (let pattern = (if ignore_case then py_lower pattern else pattern);
          nm = (if ignore_case then py_lower nm else nm)
      in match_loop (collapse pattern) nm 0 0 None)"

text \<open>The arguments of LIST and LSUB: reference, pattern, and the two joined.\<close>

definition list_args :: "str \<Rightarrow> command \<Rightarrow> ('w, str \<times> str) session_io" where
  "list_args label cmd =
     io_then (require_state [Authenticated, SelectedState])
     (io_then (ensure (length (cmd_args cmd) = 2) (bad (label @ '' requires a reference and a mailbox pattern'')))
     (io_bind (io_lift (arg_text cmd 0 ''reference'')) (\<lambda>reference.
      io_bind (io_lift (arg_text cmd 1 ''mailbox pattern'')) (\<lambda>pattern. io_return (reference, pattern)))))"

definition say_all :: "response list \<Rightarrow> ('w, unit) session_io" where
  "say_all rs = io_fold (\<lambda>r _. say r) rs ()"

definition has_no_children :: str where "has_no_children = [backslash] @ ''HasNoChildren''"

definition matching_names :: "'w session_env \<Rightarrow> str \<Rightarrow> str list" where
  "matching_names env full = filter (\<lambda>nm. wildcard_match full nm (nm = ''INBOX'')) (names (se_service env))"

definition list_cmd :: "'w handler" where
  "list_cmd env cmd = io_bind (list_args ''LIST'' cmd) (\<lambda>(reference, pattern).
     if pattern = [] then
       io_then (say (ListData [[backslash] @ ''Noselect''] None [])) (ok_reply cmd ''LIST'')
     else (let full = reference @ pattern in
       io_then (ensure (code_points full \<le> max_list_pattern) (bad ''mailbox pattern too long''))
        (io_then (say_all (map (ListData [has_no_children] None) (matching_names env full)))
          (ok_reply cmd ''LIST''))))"

definition lsub_cmd :: "'w handler" where
  "lsub_cmd env cmd = io_bind (list_args ''LSUB'' cmd) (\<lambda>(reference, pattern).
     let full = reference @ pattern in
       io_then (ensure (code_points full \<le> max_list_pattern) (bad ''mailbox pattern too long''))
        (io_then (say_all (if pattern = [] then [] else map (LsubData [has_no_children] None) (matching_names env full)))
          (ok_reply cmd ''LSUB'')))"

subsection \<open>SELECT, EXAMINE, CLOSE\<close>

definition deselect :: "'w session \<Rightarrow> 'w session" where
  "deselect s = s\<lparr>ss_selected := None, ss_state := Authenticated\<rparr>"

definition first_unseen :: "snapshot \<Rightarrow> nat list \<Rightarrow> nat option" where
  "first_unseen sn uids =
     map_option fst (find (\<lambda>(seq, u). case by_uid sn u of Some i \<Rightarrow> flag_seen \<notin> it_flags i | None \<Rightarrow> False) (numbered uids))"

definition select_responses :: "snapshot \<Rightarrow> nat list \<Rightarrow> bool \<Rightarrow> mailbox_def \<Rightarrow> response list" where
  "select_responses sn uids read_only mdef =
     [Untagged (''FLAGS '' @ flag_list all_flags), Exists (length uids), Recent 0]
     @ (case first_unseen sn uids of
          Some n \<Rightarrow> [UntaggedOk (''Message '' @ nat_str n @ '' is first unseen'') (Some (''UNSEEN '' @ nat_str n))]
        | None \<Rightarrow> [])
     @ [UntaggedOk ''Limited'' (Some (''PERMANENTFLAGS '' @ flag_list (if read_only then [] else md_permanent_flags mdef))),
        UntaggedOk ''UIDs valid'' (Some (''UIDVALIDITY '' @ int_str (sn_uidvalidity sn))),
        UntaggedOk ''Predicted next UID'' (Some (''UIDNEXT '' @ nat_str (sn_uidnext sn)))]"

definition select_mailbox :: "bool \<Rightarrow> 'w handler" where
  "select_mailbox read_only env cmd =
     io_then (require_state [Authenticated, SelectedState])
     (io_then (ensure (length (cmd_args cmd) = 1) (bad (cmd_name cmd @ '' requires a mailbox name'')))
     (io_bind (io_lift (arg_text cmd 0 ''mailbox name'')) (\<lambda>nm.
      io_then (io_modify deselect)
      (case lookup (se_service env) nm of
         None \<Rightarrow> io_raise (no ''mailbox does not exist'' None)
       | Some mdef \<Rightarrow>
           io_bind need_api (\<lambda>(api, inbox).
           io_bind (service_call env (sync (se_service env) api inbox (md_name mdef) True)) (\<lambda>sn.
           io_then (io_modify (apply_snapshot env inbox sn read_only))
           (io_then (say_all (select_responses sn (snapshot_uids sn) read_only mdef))
             (say (Tagged (cmd_tag cmd) ''OK'' (cmd_name cmd @ '' completed'')
                (Some (if read_only then ''READ-ONLY'' else ''READ-WRITE''))))))))))) "

definition select_cmd :: "'w handler" where "select_cmd = select_mailbox False"

definition examine_cmd :: "'w handler" where "examine_cmd = select_mailbox True"

text \<open>The first CLOSE handler, replaced in the table by \<open>close_with_expunge\<close>.\<close>

definition close_cmd :: "'w handler" where
  "close_cmd env cmd =
     io_bind require_selected (\<lambda>_. io_then (io_modify deselect) (ok_reply cmd ''CLOSE''))"

subsection \<open>The items a command names\<close>

text \<open>The snapshot a command works on: the latest one, or a first listing.\<close>

definition current_snapshot :: "'w session_env \<Rightarrow> client \<Rightarrow> str \<Rightarrow> str \<Rightarrow> ('w, snapshot) session_io" where
  "current_snapshot env api inbox nm =
     io_bind (io_get (\<lambda>s. latest (se_service env) inbox nm (ss_service s))) (\<lambda>sn. case sn of
       Some sn \<Rightarrow> io_return sn
     | None \<Rightarrow> service_call env (sync (se_service env) api inbox nm True))"

definition key_error :: cmd_error where "key_error = ApiFailure (PyException ''KeyError'')"

text \<open>The sequence numbers and UIDs a set names in the session's view.\<close>

definition targets_of :: "bool \<Rightarrow> sequence_set \<Rightarrow> selected \<Rightarrow> cmd_error + (nat \<times> nat) list" where
  "targets_of uid_mode q sel =
     (if uid_mode
      then emap (\<lambda>u. case sel_seq_of sel u of None \<Rightarrow> Inl key_error | Some n \<Rightarrow> Inr (n, u))
             (select_numbers q (sel_uids sel))
      else Inr (map (\<lambda>n. (n, sel_uids sel ! (n - 1))) (select_numbers q [1..<length (sel_uids sel) + 1])))"

text \<open>An error of the grammar of sets and attributes, as the handlers report it.\<close>

definition fetch_failure :: "fetch_error \<Rightarrow> cmd_error" where
  "fetch_failure e = (case e of
     FetchSyntaxError m \<Rightarrow> bad m
   | UnsupportedFetch m \<Rightarrow> bad m
   | PyValueError \<Rightarrow> ApiFailure (PyException ''ValueError''))"

definition map_error :: "('e \<Rightarrow> 'f) \<Rightarrow> 'e + 'a \<Rightarrow> 'f + 'a" where
  "map_error f r = (case r of Inl e \<Rightarrow> Inl (f e) | Inr x \<Rightarrow> Inr x)"

definition atom_arg :: "token list \<Rightarrow> nat \<Rightarrow> str option" where
  "atom_arg args k = (if k < length args then (case args ! k of Atom v \<Rightarrow> Some v | _ \<Rightarrow> None) else None)"

definition is_not_found :: "cmd_error \<Rightarrow> bool" where
  "is_not_found e = (case e of ApiFailure (AgentMailError k _ _ _) \<Rightarrow> k = NotFoundError | _ \<Rightarrow> False)"

text \<open>\<open>except NotFoundError: continue\<close>: the item is skipped.\<close>

definition skip_vanished :: "('w, 'a) session_io \<Rightarrow> ('w, 'a option) session_io" where
  "skip_vanished m =
     io_catch (io_bind m (\<lambda>x. io_return (Some x)))
       (\<lambda>e. if is_not_found e then io_return None else io_raise e)"

subsection \<open>FETCH\<close>

definition uid_part :: "nat \<Rightarrow> bytes" where "uid_part u = ''UID '' @ nat_str u"

definition flags_part :: "str set \<Rightarrow> bytes" where "flags_part fs = ''FLAGS '' @ flag_bytes fs"

definition tell_flags :: "nat \<Rightarrow> str set \<Rightarrow> ('w, bytes) session_io" where
  "tell_flags u fs = io_then (io_modify (record_flags u fs)) (io_return (flags_part fs))"

definition fetch_part :: "'w session_env \<Rightarrow> client \<Rightarrow> str \<Rightarrow> str \<Rightarrow> nat set \<Rightarrow> nat \<Rightarrow> item \<Rightarrow> bytes option \<Rightarrow> fetch_attr \<Rightarrow>
    ('w, bytes list) session_io" where
  "fetch_part env api inbox nm deleted u i raw a =
     (if fa_kind a = ''UID'' then io_return [uid_part u]
      else if fa_kind a = ''FLAGS'' then io_bind (tell_flags u (flags_of i deleted)) (\<lambda>b. io_return [b])
      else if fa_kind a = ''INTERNALDATE'' then io_return [''INTERNALDATE '' @ internaldate (it_date i)]
      else if fa_kind a = ''RFC822.SIZE'' then
        io_bind (case raw of
            Some d \<Rightarrow> io_return (int (length d))
          | None \<Rightarrow> service_call env (size_of (se_service env) api inbox nm i))
          (\<lambda>n. io_return [''RFC822.SIZE '' @ int_str n])
      else if fa_kind a = ''BODY'' then
        (case raw of
           None \<Rightarrow> io_raise (ApiFailure assertion_error)
         | Some d \<Rightarrow> io_bind (io_lift (map_error (\<lambda>_. ApiFailure (PyException ''UnsupportedFetch'')) (section_bytes d a)))
             (\<lambda>b. io_return [fa_label a @ '' '' @ literal b]))
      else io_return [])"

text \<open>The parts of one item: the body if an attribute needs it, then \<open>\\Seen\<close>, then the attributes in order.\<close>

definition mark_seen :: "'w session_env \<Rightarrow> client \<Rightarrow> str \<Rightarrow> str \<Rightarrow> bool \<Rightarrow> item \<Rightarrow> ('w, item \<times> bool) session_io" where
  "mark_seen env api inbox nm sets i =
     (if sets \<and> flag_seen \<notin> it_flags i
      then io_bind (service_call env (set_flag (se_service env) api inbox nm i flag_seen True)) (\<lambda>j. io_return (j, True))
      else io_return (i, False))"

definition fetch_item :: "'w session_env \<Rightarrow> client \<Rightarrow> str \<Rightarrow> str \<Rightarrow> fetch_attr list \<Rightarrow> bool \<Rightarrow> nat set \<Rightarrow> nat \<Rightarrow> item \<Rightarrow>
    ('w, bytes list) session_io" where
  "fetch_item env api inbox nm attrs sets deleted u i =
     io_bind (if list_ex needs_body attrs
              then io_bind (service_call env (raw_bytes (se_service env) api inbox nm i)) (\<lambda>d. io_return (Some d))
              else io_return None) (\<lambda>raw.
     io_bind (mark_seen env api inbox nm sets i) (\<lambda>(j, changed).
     io_bind (io_map (fetch_part env api inbox nm deleted u j raw) attrs) (\<lambda>parts.
       if changed \<and> \<not> list_ex (\<lambda>a. fa_kind a = ''FLAGS'') attrs
       then io_bind (tell_flags u (flags_of j deleted)) (\<lambda>b. io_return (concat parts @ [b]))
       else io_return (concat parts))))"

definition fetch_one :: "'w session_env \<Rightarrow> client \<Rightarrow> str \<Rightarrow> str \<Rightarrow> fetch_attr list \<Rightarrow> bool \<Rightarrow> nat set \<Rightarrow> snapshot \<Rightarrow>
    nat \<times> nat \<Rightarrow> ('w, unit) session_io" where
  "fetch_one env api inbox nm attrs sets deleted sn target = (case target of (seq, u) \<Rightarrow>
     (case by_uid sn u of
        None \<Rightarrow> io_return ()
      | Some i \<Rightarrow>
          io_bind (skip_vanished (fetch_item env api inbox nm attrs sets deleted u i)) (\<lambda>parts. case parts of
            None \<Rightarrow> io_return ()
          | Some ps \<Rightarrow> io_then (say (FetchData seq ps)) (io_modify (flush_out env)))))"

definition fetch_args :: "str \<Rightarrow> token list \<Rightarrow> cmd_error + sequence_set \<times> fetch_attr list" where
  "fetch_args label args =
     (if length args \<noteq> 2 then Inl (bad (label @ '' requires a sequence set and attributes''))
      else (case atom_arg args 0 of
          None \<Rightarrow> Inl (bad ''invalid sequence set'')
        | Some v \<Rightarrow> map_error fetch_failure (ebind (parse_sequence_set v) (\<lambda>q.
            ebind (parse_fetch_attributes (args ! 1)) (\<lambda>attrs. Inr (q, attrs))))))"

definition with_uid :: "bool \<Rightarrow> fetch_attr list \<Rightarrow> fetch_attr list" where
  "with_uid uid_mode attrs =
     (if uid_mode \<and> \<not> list_ex (\<lambda>a. fa_kind a = ''UID'') attrs then simple_attr ''UID'' # attrs else attrs)"

definition can_set_seen :: "'w session_env \<Rightarrow> str \<Rightarrow> bool" where
  "can_set_seen env nm = (case lookup (se_service env) nm of
     None \<Rightarrow> False | Some mdef \<Rightarrow> flag_seen \<in> set (md_permanent_flags mdef))"

definition run_fetch :: "bool \<Rightarrow> token list \<Rightarrow> 'w handler" where
  "run_fetch uid_mode args env cmd =
     (let label = (if uid_mode then ''UID FETCH'' else ''FETCH'') in
      io_bind require_selected (\<lambda>sel.
      io_bind need_api (\<lambda>(api, inbox).
      io_bind (io_lift (fetch_args label args)) (\<lambda>(q, attrs0).
      let attrs = with_uid uid_mode attrs0; nm = sel_name sel in
      io_bind (current_snapshot env api inbox nm) (\<lambda>sn.
      io_bind (io_lift (targets_of uid_mode q sel)) (\<lambda>targets.
      io_bind (io_get (session_deleted env)) (\<lambda>deleted.
      let sets = list_ex (\<lambda>a. needs_body a \<and> \<not> fa_peek a) attrs \<and> \<not> sel_read_only sel \<and> can_set_seen env nm in
      io_then (io_fold (\<lambda>t _. fetch_one env api inbox nm attrs sets deleted sn t) targets ())
        (ok_reply cmd label))))))))"

definition fetch_cmd :: "'w handler" where
  "fetch_cmd env cmd = run_fetch False (cmd_args cmd) env cmd"

subsection \<open>APPEND\<close>

fun message_bytes :: "token \<Rightarrow> bytes option" where
  "message_bytes (LiteralStr v) = Some v"
| "message_bytes (QuotedStr v) = Some v"
| "message_bytes _ = None"

fun optional_ok :: "token \<Rightarrow> bool" where
  "optional_ok (ListTok _) = True"
| "optional_ok (QuotedStr _) = True"
| "optional_ok _ = False"

definition append_args :: "command \<Rightarrow> cmd_error + str \<times> bytes" where
  "append_args cmd = (let args = cmd_args cmd in
     if length args < 2 then Inl (bad ''APPEND requires a mailbox name and a message literal'')
     else ebind (arg_text cmd 0 ''mailbox name'') (\<lambda>nm.
       case message_bytes (last args) of
         None \<Rightarrow> Inl (bad ''APPEND message must be a literal'')
       | Some raw \<Rightarrow>
           (let optional = butlast (tl args) in
            if 2 < length optional
            then Inl (bad ''APPEND accepts at most a flag list and a date-time before the message'')
            else if \<not> list_all optional_ok optional
            then Inl (bad ''APPEND optional arguments must be a flag list or a quoted date-time'')
            else Inr (nm, raw))))"

definition draft_failure :: "draft_error \<Rightarrow> cmd_error" where
  "draft_failure e = (case e of DraftParseError m \<Rightarrow> no m (Some ''CANNOT''))"

definition append_cmd :: "'w handler" where
  "append_cmd env cmd =
     (let lib = cf_lib (se_service env) in
      io_then (require_state [Authenticated, SelectedState])
      (io_bind (io_lift (append_args cmd)) (\<lambda>(nm, raw).
       case lookup (se_service env) nm of
         None \<Rightarrow> io_raise (no ''mailbox does not exist'' (Some ''TRYCREATE''))
       | Some mdef \<Rightarrow>
           io_then (ensure (md_appendable mdef) (no ''APPEND is only supported on Drafts'' (Some ''CANNOT'')))
           (io_bind (io_lift (map_error draft_failure (parse_append lib raw))) (\<lambda>df.
            io_bind need_api (\<lambda>(api, inbox).
            io_bind (service_call env (append_draft (se_service env) api inbox df (Some (client_id_for lib raw))))
             (\<lambda>(uidvalidity, u).
              io_then (say (Tagged (cmd_tag cmd) ''OK'' ''APPEND completed''
                  (Some (''APPENDUID '' @ int_str uidvalidity @ '' '' @ nat_str u))))
                (io_modify (defer_work (api, inbox))))))))))"

subsection \<open>SEARCH\<close>

definition search_failure :: "search_error \<Rightarrow> cmd_error" where
  "search_failure e = (case e of
     BadCharset _ \<Rightarrow> no ''charset is not supported'' (Some ''BADCHARSET (UTF-8)'')
   | SearchSyntaxError m \<Rightarrow> bad m
   | PyError \<Rightarrow> ApiFailure (PyException ''ValueError''))"

definition search_context :: "'w session_env \<Rightarrow> client \<Rightarrow> str \<Rightarrow> selected \<Rightarrow> nat set \<Rightarrow> ('w session, cmd_error) search_ctx" where
  "search_context env api inbox sel deleted =
     \<lparr>sc_seqs = [1..<length (sel_uids sel) + 1], sc_uids = sel_uids sel, sc_deleted = deleted,
      sc_raw = (\<lambda>i. service_call env (raw_bytes (se_service env) api inbox (sel_name sel) i)),
      sc_size = (\<lambda>i. service_call env (size_of (se_service env) api inbox (sel_name sel) i))\<rparr>"

definition search_one :: "'w session_env \<Rightarrow> ('w session, cmd_error) search_ctx \<Rightarrow> crit \<Rightarrow> bool \<Rightarrow> snapshot \<Rightarrow> nat \<times> nat \<Rightarrow>
    nat list \<Rightarrow> ('w, nat list) session_io" where
  "search_one env ctx crit uid_mode sn target hits = (case target of (seq, u) \<Rightarrow>
     (case by_uid sn u of
        None \<Rightarrow> io_return hits
      | Some i \<Rightarrow>
          io_bind (skip_vanished (evaluate (se_search env) ctx crit i seq)) (\<lambda>hit.
            io_return (if hit = Some True then hits @ [if uid_mode then u else seq] else hits))))"

definition run_search :: "bool \<Rightarrow> token list \<Rightarrow> 'w handler" where
  "run_search uid_mode args env cmd =
     (let label = (if uid_mode then ''UID SEARCH'' else ''SEARCH'') in
      io_bind require_selected (\<lambda>sel.
      io_bind need_api (\<lambda>(api, inbox).
      io_bind (io_lift (map_error search_failure (parse_search (se_search env) args))) (\<lambda>crit.
      io_bind (current_snapshot env api inbox (sel_name sel)) (\<lambda>sn.
      io_bind (io_get (session_deleted env)) (\<lambda>deleted.
      io_bind (io_fold (search_one env (search_context env api inbox sel deleted) crit uid_mode sn)
          (numbered (sel_uids sel)) []) (\<lambda>hits.
      io_then (say (SearchData hits)) (ok_reply cmd label))))))))"

definition search_cmd :: "'w handler" where
  "search_cmd env cmd = run_search False (cmd_args cmd) env cmd"

subsection \<open>STORE\<close>

text \<open>\<open>_STORE_RE\<close>: the sign, and whether \<open>.SILENT\<close> was given.\<close>

definition match_store :: "str \<Rightarrow> (str \<times> bool) option" where
  "match_store t0 =
     (let t = (if t0 \<noteq> [] \<and> last t0 = lf then butlast t0 else t0);
          sign = (if t \<noteq> [] \<and> (hd t = CHR ''+'' \<or> hd t = CHR ''-'') then [hd t] else []);
          r = py_upper (drop (length sign) t)
      in if r = ''FLAGS'' then Some (sign, False) else if r = ''FLAGS.SILENT'' then Some (sign, True) else None)"

definition canonical_flag :: "str \<Rightarrow> cmd_error + str" where
  "canonical_flag t = (case find (\<lambda>f. py_lower f = py_lower t) all_flags of
     Some f \<Rightarrow> Inr f
   | None \<Rightarrow> Inl (no (if t \<noteq> [] \<and> hd t = backslash then ''unknown system flag'' else ''keywords are not supported'')
               (Some ''CANNOT'')))"

fun flag_arg :: "token \<Rightarrow> cmd_error + str" where
  "flag_arg (Atom v) = canonical_flag v"
| "flag_arg _ = Inl (bad ''flags must be atoms'')"

fun flag_tokens :: "token \<Rightarrow> token list" where
  "flag_tokens (ListTok items) = items"
| "flag_tokens t = [t]"

definition store_args :: "str \<Rightarrow> token list \<Rightarrow> cmd_error + str \<times> bool \<times> str list \<times> sequence_set" where
  "store_args label args =
     (case (if length args = 3 then (atom_arg args 0, atom_arg args 1) else (None, None)) of
        (Some set_arg, Some action) \<Rightarrow>
          (case match_store action of
             None \<Rightarrow> Inl (bad ''STORE action must be FLAGS, +FLAGS or -FLAGS, optionally .SILENT'')
           | Some (mode, silent) \<Rightarrow>
               ebind (emap flag_arg (flag_tokens (args ! 2))) (\<lambda>flags.
               ebind (map_error fetch_failure (parse_sequence_set set_arg)) (\<lambda>q.
                 Inr (mode, silent, flags, q))))
      | _ \<Rightarrow> Inl (bad (label @ '' requires a sequence set, an action, and a flag list'')))"

definition wanted_flags :: "str \<Rightarrow> str list \<Rightarrow> str list \<Rightarrow> str set \<Rightarrow> str set" where
  "wanted_flags mode flags permanent current =
     (if mode = ''+'' then current \<union> set flags
      else if mode = ''-'' then current - set flags
      else (current - set permanent) \<union> set flags)"

text \<open>One permanent flag of one item: \<open>\\Deleted\<close> is a mark in the store, the others are labels.\<close>

definition store_flag :: "'w session_env \<Rightarrow> client \<Rightarrow> str \<Rightarrow> str \<Rightarrow> nat \<Rightarrow> str set \<Rightarrow> str set \<Rightarrow> str \<Rightarrow> item \<times> nat set \<Rightarrow>
    ('w, item \<times> nat set) session_io" where
  "store_flag env api inbox nm u current wanted flag acc = (case acc of (i, deleted) \<Rightarrow>
     (let after = flag \<in> wanted in
      if (flag \<in> current) = after then io_return (i, deleted)
      else if flag = flag_deleted then
        io_then (on_service (service_set_deleted (se_service env) inbox nm [u] after))
          (io_return (i, if after then insert u deleted else deleted - {u}))
      else if flag_labels flag \<noteq> None then
        io_bind (service_call env (set_flag (se_service env) api inbox nm i flag after)) (\<lambda>j. io_return (j, deleted))
      else io_return (i, deleted)))"

definition store_one :: "'w session_env \<Rightarrow> client \<Rightarrow> str \<Rightarrow> str \<Rightarrow> bool \<Rightarrow> bool \<Rightarrow> str \<Rightarrow> str list \<Rightarrow> str list \<Rightarrow> snapshot \<Rightarrow>
    nat \<times> nat \<Rightarrow> nat set \<Rightarrow> ('w, nat set) session_io" where
  "store_one env api inbox nm uid_mode silent mode flags permanent sn target deleted = (case target of (seq, u) \<Rightarrow>
     (case by_uid sn u of
        None \<Rightarrow> io_return deleted
      | Some i \<Rightarrow>
          (let current = flags_of i deleted; wanted = wanted_flags mode flags permanent current in
           io_bind (io_fold (store_flag env api inbox nm u current wanted) permanent (i, deleted)) (\<lambda>(j, deleted').
           let final = flags_of j deleted' in
           io_then (io_modify (record_flags u final))
           (io_then (io_when (\<not> silent)
               (say (FetchData seq ((if uid_mode then [uid_part u] else []) @ [flags_part final]))))
             (io_return deleted'))))))"

definition run_store :: "bool \<Rightarrow> token list \<Rightarrow> 'w handler" where
  "run_store uid_mode args env cmd =
     (let label = (if uid_mode then ''UID STORE'' else ''STORE'') in
      io_bind require_selected (\<lambda>sel.
      io_bind need_api (\<lambda>(api, inbox).
      io_bind (io_lift (store_args label args)) (\<lambda>(mode, silent, flags, q).
      let nm = sel_name sel in
      io_then (ensure (\<not> sel_read_only sel) (no ''mailbox is read-only'' (Some ''READ-ONLY'')))
      (case lookup (se_service env) nm of
         None \<Rightarrow> io_raise (ApiFailure assertion_error)
       | Some mdef \<Rightarrow>
           io_then (case find (\<lambda>f. f \<notin> set (md_permanent_flags mdef)) flags of
               Some f \<Rightarrow> io_raise (no (''flag '' @ f @ '' cannot be changed in '' @ nm) (Some ''CANNOT''))
             | None \<Rightarrow> io_return ())
           (io_bind (current_snapshot env api inbox nm) (\<lambda>sn.
            io_bind (io_lift (targets_of uid_mode q sel)) (\<lambda>targets.
            io_bind (io_get (session_deleted env)) (\<lambda>deleted.
            io_bind (io_fold (store_one env api inbox nm uid_mode silent mode flags (md_permanent_flags mdef) sn)
                targets deleted) (\<lambda>_.
              ok_reply cmd label))))))))))"

definition store_cmd :: "'w handler" where
  "store_cmd env cmd = run_store False (cmd_args cmd) env cmd"

subsection \<open>EXPUNGE\<close>

text \<open>CLOSE drops the vanished UIDs from the view without announcing them.\<close>

definition prune_view :: "'w session_env \<Rightarrow> str \<Rightarrow> str \<Rightarrow> 'w session \<Rightarrow> 'w session" where
  "prune_view env inbox nm s = (case (ss_selected s, latest (se_service env) inbox nm (ss_service s)) of
     (Some sel, Some sn) \<Rightarrow>
       (let uids = filter (\<lambda>u. by_uid sn u \<noteq> None) (sel_uids sel) in
        s\<lparr>ss_selected := Some (sel\<lparr>sel_uids := uids, sel_seq_of := sequence_map uids,
            sel_view_version := sn_version sn\<rparr>)\<rparr>)
   | _ \<Rightarrow> s)"

definition expunge_marked :: "'w session_env \<Rightarrow> client \<Rightarrow> str \<Rightarrow> str \<Rightarrow> nat list \<Rightarrow> bool \<Rightarrow> ('w, unit) session_io" where
  "expunge_marked env api inbox nm doomed silent =
     io_bind (io_get (\<lambda>s. latest (se_service env) inbox nm (ss_service s))) (\<lambda>sn.
     io_bind (service_call env (expunge_items (se_service env) api inbox nm
         (case sn of None \<Rightarrow> [] | Some sn \<Rightarrow> sequence_items sn doomed))) (\<lambda>errors.
     io_then (service_call env (sync (se_service env) api inbox nm True))
     (io_then (io_modify (if silent then prune_view env inbox nm else flush_pending env))
       (ensure (errors = []) (no (nat_str (length errors) @ '' item(s) could not be removed; try again'')
          (Some ''UNAVAILABLE''))))))"

definition expunge_deleted :: "'w session_env \<Rightarrow> nat set option \<Rightarrow> bool \<Rightarrow> ('w, unit) session_io" where
  "expunge_deleted env only silent =
     io_bind require_selected (\<lambda>sel.
     io_bind need_api (\<lambda>(api, inbox).
     case lookup (se_service env) (sel_name sel) of
       None \<Rightarrow> io_raise (ApiFailure assertion_error)
     | Some mdef \<Rightarrow>
         io_then (ensure (\<not> sel_read_only sel) (no ''mailbox is read-only'' (Some ''READ-ONLY'')))
         (io_bind (io_get (session_deleted env)) (\<lambda>marked.
          if flag_deleted \<notin> set (md_permanent_flags mdef) then
            ensure (marked = {}) (no ''permanent deletion is not supported; items in this view cannot be expunged''
              (Some ''CANNOT''))
          else (let doomed = sorted_list_of_set (case only of None \<Rightarrow> marked | Some us \<Rightarrow> marked \<inter> us) in
            if doomed = [] then io_return ()
            else expunge_marked env api inbox (sel_name sel) doomed silent)))))"

definition expunge_cmd :: "'w handler" where
  "expunge_cmd env cmd =
     io_then (ensure (cmd_args cmd = []) (bad ''EXPUNGE takes no arguments''))
      (io_then (expunge_deleted env None False) (ok_reply cmd ''EXPUNGE''))"

definition run_uid_expunge :: "token list \<Rightarrow> 'w handler" where
  "run_uid_expunge args env cmd =
     (case (if length args = 1 then atom_arg args 0 else None) of
        None \<Rightarrow> io_raise (bad ''UID EXPUNGE requires a sequence set'')
      | Some v \<Rightarrow>
          io_bind require_selected (\<lambda>sel.
          io_bind (io_lift (map_error fetch_failure (parse_sequence_set v))) (\<lambda>q.
          io_then (expunge_deleted env (Some (set (select_numbers q (sel_uids sel)))) False)
            (ok_reply cmd ''UID EXPUNGE''))))"

subsection \<open>COPY and MOVE\<close>

text \<open>The runs of \<open>_uid_set\<close>: the current run \<open>start .. prev\<close> and the numbers still to come, in order.\<close>

fun uid_runs :: "nat \<Rightarrow> nat \<Rightarrow> nat list \<Rightarrow> (nat \<times> nat) list" where
  "uid_runs start prev [] = [(start, prev)]"
| "uid_runs start prev (u # us) =
     (if u = prev + 1 then uid_runs start u us else (start, prev) # uid_runs u u us)"

definition run_text :: "nat \<times> nat \<Rightarrow> str" where
  "run_text r = (case r of (start, prev) \<Rightarrow>
     if start \<noteq> prev then nat_str start @ '':'' @ nat_str prev else nat_str start)"

definition uid_set :: "nat list \<Rightarrow> str" where
  "uid_set uids = join_with '','' (map run_text
     (case sort uids of [] \<Rightarrow> [] | u # us \<Rightarrow> uid_runs u u us))"

definition copyuid_code :: "int \<Rightarrow> (nat \<times> nat) list \<Rightarrow> str" where
  "copyuid_code uidvalidity pairs =
     ''COPYUID '' @ int_str uidvalidity @ '' '' @ uid_set (map fst pairs) @ '' '' @ uid_set (map snd pairs)"

definition copy_args :: "str \<Rightarrow> command \<Rightarrow> token list \<Rightarrow> cmd_error + str \<times> sequence_set" where
  "copy_args label cmd args =
     (case (if length args = 2 then atom_arg args 0 else None) of
        None \<Rightarrow> Inl (bad (label @ '' requires a sequence set and a mailbox name''))
      | Some v \<Rightarrow>
          ebind (arg_text (cmd\<lparr>cmd_args := args\<rparr>) 1 ''mailbox name'') (\<lambda>nm.
          ebind (map_error fetch_failure (parse_sequence_set v)) (\<lambda>q. Inr (nm, q))))"

text \<open>The checks on destination and source.\<close>

definition copy_allowed :: "'w session_env \<Rightarrow> bool \<Rightarrow> selected \<Rightarrow> str \<Rightarrow> cmd_error + unit" where
  "copy_allowed env moving sel nm =
     (case lookup (se_service env) nm of
        None \<Rightarrow> Inl (no ''mailbox does not exist'' (Some ''TRYCREATE''))
      | Some dest \<Rightarrow>
          if md_name dest \<noteq> ''Trash'' then
            Inl (no ((if moving then ''MOVE'' else ''COPY'') @ '' is only supported into Trash'') (Some ''CANNOT''))
          else (case lookup (se_service env) (sel_name sel) of
              None \<Rightarrow> Inl (ApiFailure assertion_error)
            | Some source \<Rightarrow>
                if md_kind source \<noteq> Messages then
                  Inl (no ''drafts cannot be copied to Trash; delete them instead'' (Some ''CANNOT''))
                else if moving \<and> sel_read_only sel then Inl (no ''mailbox is read-only'' (Some ''READ-ONLY''))
                else Inr ()))"

definition copied_uids :: "bool \<Rightarrow> sequence_set \<Rightarrow> selected \<Rightarrow> nat list" where
  "copied_uids uid_mode q sel =
     (if uid_mode then select_numbers q (sel_uids sel)
      else map (\<lambda>n. sel_uids sel ! (n - 1)) (select_numbers q [1..<length (sel_uids sel) + 1]))"

definition on_service_step :: "('w, 'a) service_io \<Rightarrow> ('w, 'a) session_io" where
  "on_service_step m s = (case m (ss_service s) of (r, sv) \<Rightarrow>
     (case r of Inl e \<Rightarrow> Inl (ApiFailure e) | Inr x \<Rightarrow> Inr x, s\<lparr>ss_service := sv\<rparr>))"

definition run_copy :: "bool \<Rightarrow> bool \<Rightarrow> token list \<Rightarrow> 'w handler" where
  "run_copy uid_mode moving args env cmd =
     (let verb = (if moving then ''MOVE'' else ''COPY'');
          label = (if uid_mode then ''UID '' @ verb else verb) in
      io_bind require_selected (\<lambda>sel.
      io_bind need_api (\<lambda>(api, inbox).
      io_bind (io_lift (copy_args label cmd args)) (\<lambda>(nm, q).
      io_then (io_lift (copy_allowed env moving sel nm))
      (io_bind (current_snapshot env api inbox (sel_name sel)) (\<lambda>sn.
       let items = sequence_items sn (copied_uids uid_mode q sel) in
       if items = [] then ok_reply cmd label
       else
         io_bind (service_call env (copy_to_trash (se_service env) api inbox (sel_name sel) items)) (\<lambda>pairs.
         io_bind (on_service_step (service_info (se_service env) inbox ''Trash'')) (\<lambda>info.
         let code = copyuid_code (fst info) pairs in
         if \<not> moving then say (Tagged (cmd_tag cmd) ''OK'' (label @ '' completed'') (Some code))
         else
           io_then (say (UntaggedOk ''Moved'' (Some code)))
           (io_then (service_call env (sync (se_service env) api inbox (sel_name sel) True))
           (io_then (io_modify (flush_pending env)) (ok_reply cmd label)))))))))))"

definition copy_cmd :: "'w handler" where "copy_cmd env cmd = run_copy False False (cmd_args cmd) env cmd"

definition move_cmd :: "'w handler" where "move_cmd env cmd = run_copy False True (cmd_args cmd) env cmd"

subsection \<open>CLOSE, STATUS and the small commands\<close>

definition close_with_expunge_cmd :: "'w handler" where
  "close_with_expunge_cmd env cmd =
     io_bind require_selected (\<lambda>sel.
     io_bind (io_get (session_deleted env)) (\<lambda>marked.
     io_then (io_when (\<not> sel_read_only sel \<and> marked \<noteq> {}) (expunge_deleted env None True))
     (io_then (io_modify deselect) (ok_reply cmd ''CLOSE''))))"

definition status_items :: "str list" where
  "status_items = [''MESSAGES'', ''RECENT'', ''UIDNEXT'', ''UIDVALIDITY'', ''UNSEEN'']"

fun status_item :: "token \<Rightarrow> cmd_error + str" where
  "status_item (Atom v) = (if py_upper v \<in> set status_items then Inr (py_upper v) else Inl (bad ''invalid STATUS item''))"
| "status_item _ = Inl (bad ''invalid STATUS item'')"

definition status_value :: "snapshot \<Rightarrow> str \<Rightarrow> str" where
  "status_value sn k =
     (if k = ''MESSAGES'' then nat_str (length (sn_items sn))
      else if k = ''RECENT'' then ''0''
      else if k = ''UIDNEXT'' then nat_str (sn_uidnext sn)
      else if k = ''UIDVALIDITY'' then int_str (sn_uidvalidity sn)
      else nat_str (length (filter (\<lambda>i. flag_seen \<notin> it_flags i) (sn_items sn))))"

definition status_body :: "snapshot \<Rightarrow> str list \<Rightarrow> str" where
  "status_body sn wanted = join_with '' '' (map (\<lambda>k. k @ '' '' @ status_value sn k) wanted)"

definition status_tokens :: "command \<Rightarrow> token list option" where
  "status_tokens cmd =
     (if length (cmd_args cmd) = 2 then (case cmd_args cmd ! 1 of ListTok items \<Rightarrow> Some items | _ \<Rightarrow> None) else None)"

definition status_cmd :: "'w handler" where
  "status_cmd env cmd =
     io_then (require_state [Authenticated, SelectedState])
     (case status_tokens cmd of
        None \<Rightarrow> io_raise (bad ''STATUS requires a mailbox name and a parenthesised item list'')
      | Some items \<Rightarrow>
          io_bind (io_lift (arg_text cmd 0 ''mailbox name'')) (\<lambda>nm.
          case lookup (se_service env) nm of
            None \<Rightarrow> io_raise (no ''mailbox does not exist'' None)
          | Some mdef \<Rightarrow>
              io_bind (io_lift (emap status_item items)) (\<lambda>wanted.
              io_bind need_api (\<lambda>(api, inbox).
              io_bind (service_call env (sync (se_service env) api inbox (md_name mdef) False)) (\<lambda>sn.
              io_then (say (StatusData (md_name mdef) (status_body sn wanted))) (ok_reply cmd ''STATUS''))))))"

definition id_cmd :: "'w handler" where
  "id_cmd env cmd =
     io_then (say (Untagged (''ID ('' @ [dquote] @ ''name'' @ [dquote] @ '' '' @ [dquote] @ ''imapgw'' @ [dquote] @ '' ''
        @ [dquote] @ ''version'' @ [dquote] @ '' '' @ [dquote] @ ''0.1.0'' @ [dquote] @ '')'')))
      (ok_reply cmd ''ID'')"

definition namespace_cmd :: "'w handler" where
  "namespace_cmd env cmd =
     io_then (require_state [Authenticated, SelectedState])
     (io_then (say (Untagged (''NAMESPACE (('' @ [dquote, dquote] @ '' NIL)) NIL NIL'')))
       (ok_reply cmd ''NAMESPACE''))"

definition subscribe_cmd :: "'w handler" where
  "subscribe_cmd env cmd =
     io_then (require_state [Authenticated, SelectedState])
     (io_then (ensure (length (cmd_args cmd) = 1) (bad (cmd_name cmd @ '' requires a mailbox name'')))
     (io_bind (io_lift (arg_text cmd 0 ''mailbox name'')) (\<lambda>nm.
      io_then (ensure (lookup (se_service env) nm \<noteq> None) (no ''mailbox does not exist'' None))
        (ok_reply cmd (cmd_name cmd)))))"

definition check_cmd :: "'w handler" where
  "check_cmd env cmd = io_bind require_selected (\<lambda>_. ok_reply cmd ''CHECK'')"

subsection \<open>The tables\<close>

definition uid_handlers :: "(str \<times> (token list \<Rightarrow> 'w handler)) list" where
  "uid_handlers = [(''FETCH'', run_fetch True), (''SEARCH'', run_search True), (''STORE'', run_store True),
     (''EXPUNGE'', run_uid_expunge), (''COPY'', run_copy True False), (''MOVE'', run_copy True True)]"

definition uid_cmd :: "'w handler" where
  "uid_cmd env cmd =
     io_bind require_selected (\<lambda>_.
     case atom_arg (cmd_args cmd) 0 of
       None \<Rightarrow> io_raise (bad ''UID requires a sub-command'')
     | Some v \<Rightarrow> (case map_of uid_handlers (py_upper v) of
           None \<Rightarrow> io_raise (bad ''unsupported UID command'')
         | Some h \<Rightarrow> h (tl (cmd_args cmd)) env cmd))"

definition handler_list :: "(str \<times> 'w handler) list" where
  "handler_list = [
     (''CAPABILITY'', capability_cmd), (''NOOP'', noop_cmd), (''LOGOUT'', logout_cmd), (''LOGIN'', login_cmd),
     (''STARTTLS'', unsupported_cmd ''TLS is not available on this server''),
     (''AUTHENTICATE'', unsupported_cmd ''only LOGIN is supported''),
     (''LIST'', list_cmd), (''LSUB'', lsub_cmd), (''SELECT'', select_cmd), (''EXAMINE'', examine_cmd),
     (''CLOSE'', close_with_expunge_cmd), (''FETCH'', fetch_cmd), (''UID'', uid_cmd), (''APPEND'', append_cmd),
     (''SEARCH'', search_cmd), (''STORE'', store_cmd), (''EXPUNGE'', expunge_cmd), (''STATUS'', status_cmd),
     (''ID'', id_cmd), (''NAMESPACE'', namespace_cmd), (''SUBSCRIBE'', subscribe_cmd),
     (''UNSUBSCRIBE'', subscribe_cmd), (''CHECK'', check_cmd), (''COPY'', copy_cmd), (''MOVE'', move_cmd),
     (''CREATE'', unsupported_cmd ''mailboxes are fixed views and cannot be created''),
     (''DELETE'', unsupported_cmd ''mailboxes are fixed views and cannot be deleted''),
     (''RENAME'', unsupported_cmd ''mailboxes are fixed views and cannot be renamed''),
     (''IDLE'', unsupported_cmd ''IDLE is not supported; poll with NOOP'')]"

definition handlers :: "str \<Rightarrow> 'w handler option" where
  "handlers nm = map_of handler_list nm"

subsection \<open>One answer per command\<close>

lemma quiet_ensure [intro, simp]: "quiet (ensure b e)"
  by (simp add: ensure_def)

lemma quiet_step: "(\<And>R s. replied R s \<Longrightarrow> replied R (snd (h s))) \<Longrightarrow> quiet (io_step h)"
  by (simp add: quiet_def io_keeps_def)

lemma quiet_set_credentials [simp]: "quiet (io_step (set_credentials env userid key))"
  by (rule quiet_step) (simp add: set_credentials_def Let_def)

lemma quiet_say_all [intro]: "\<forall>r \<in> set rs. \<not> is_reply r \<Longrightarrow> quiet (say_all rs)"
  unfolding say_all_def by auto

lemma quiet_on_service_step [intro, simp]: "quiet (on_service_step m)"
  by (auto simp: quiet_def io_keeps_def on_service_step_def split: prod.splits)

lemma quiet_skip [intro]: "quiet m \<Longrightarrow> quiet (skip_vanished m)"
  unfolding skip_vanished_def by (intro quiet_catch quiet_bind) auto

lemma quiet_map [intro]: "(\<And>x. x \<in> set xs \<Longrightarrow> quiet (f x)) \<Longrightarrow> quiet (io_map f xs)"
  unfolding io_map_def by (intro quiet_fold quiet_bind) auto

lemma answers_ok_reply [simp]: "answers (cmd_tag cmd) (ok_reply cmd label)"
  unfolding ok_reply_def by (rule answers_say)

lemma quiet_state_change [simp]: "quiet (io_modify (\<lambda>s. s\<lparr>ss_state := st\<rparr>))" "quiet (io_modify deselect)"
  "quiet (io_modify (prune_view env inbox nm))"
  by (auto intro!: quiet_modify simp: deselect_def prune_view_def Let_def split: option.splits)

lemma quiet_when_step: "quiet (if b then m else n) = (if b then quiet m else quiet n)"
  by simp

named_theorems quiet_parts \<open>parts of handlers that write no tagged response\<close>

lemma quiet_refresh [quiet_parts]: "quiet (refresh_selected env)"
  unfolding quiet_def io_keeps_def
proof (intro allI impI)
  fix R and s :: "'a session" assume R: "replied R s"
  have "quiet (io_then (service_call env m) (io_modify (flush_pending env)))" for m :: "('a, snapshot) service_io"
    by auto
  then show "replied R (snd (refresh_selected env s))"
    using R by (auto simp: refresh_selected_def quiet_def io_keeps_def split: state.splits option.splits)
qed

lemma quiet_check_scope [quiet_parts]: "quiet (check_scope env api userid identity)"
  unfolding check_scope_def Let_def refuse_invisible_def
  by (auto simp del: io_simps intro!: quiet_then quiet_catch split: cmd_error.split api_error.split)

lemma quiet_list_args [quiet_parts]: "quiet (list_args label cmd)"
  unfolding list_args_def by (auto simp del: io_simps intro!: quiet_bind quiet_then)

lemma quiet_current_snapshot [quiet_parts]: "quiet (current_snapshot env api inbox nm)"
  unfolding current_snapshot_def by (auto simp del: io_simps intro!: quiet_bind split: option.split)

lemma quiet_fetch_part [quiet_parts]: "quiet (fetch_part env api inbox nm deleted u i raw a)"
  unfolding fetch_part_def tell_flags_def by (auto simp del: io_simps intro!: quiet_bind quiet_then split: option.split)

lemma quiet_fetch_one [quiet_parts]: "quiet (fetch_one env api inbox nm attrs sets deleted sn target)"
proof -
  have "quiet (mark_seen env api inbox nm sets i)" for i
    unfolding mark_seen_def by (auto simp del: io_simps intro!: quiet_bind)
  then have "quiet (fetch_item env api inbox nm attrs sets deleted u i)" for u i
    unfolding fetch_item_def tell_flags_def
    by (auto simp del: io_simps intro!: quiet_bind quiet_then quiet_map quiet_fetch_part split: prod.split)
  then show ?thesis unfolding fetch_one_def
    by (auto simp del: io_simps intro!: quiet_bind quiet_skip quiet_then quiet_say split: prod.split option.split)
qed

lemma quiet_evaluate:
  assumes "\<And>i. quiet (sc_raw ctx i)" and "\<And>i. quiet (sc_size ctx i)"
  shows "quiet (evaluate lib ctx c i seq)" and "quiet (eval_and lib ctx cs i seq)"
proof -
  have "quiet (eval_date lib ctx nm d i)" "quiet (eval_text lib ctx nm n i)" "quiet (eval_header lib ctx nm n i)" for nm d n i
    unfolding eval_date_def eval_text_def eval_header_def Let_def
    using assms by (auto simp del: io_simps intro!: quiet_bind split: option.split)
  then show "quiet (evaluate lib ctx c i seq)" and "quiet (eval_and lib ctx cs i seq)"
    using assms
    by (induction lib ctx c i seq and lib ctx cs i seq rule: evaluate_eval_and.induct)
       (auto simp del: io_simps intro!: quiet_bind)
qed

lemma quiet_search_one [quiet_parts]:
  "quiet (search_one env (search_context env api inbox sel deleted) crit uid_mode sn target hits)"
  unfolding search_one_def
  by (auto simp del: io_simps intro!: quiet_bind quiet_skip quiet_evaluate simp: search_context_def
      split: prod.split option.split)

lemma quiet_store_one [quiet_parts]:
  "quiet (store_one env api inbox nm uid_mode silent mode flags permanent sn target deleted)"
proof -
  have "quiet (store_flag env api inbox nm u current wanted flag acc)" for u current wanted flag acc
    unfolding store_flag_def Let_def by (auto simp del: io_simps intro!: quiet_bind quiet_then split: prod.split)
  then show ?thesis unfolding store_one_def Let_def
    by (auto simp del: io_simps intro!: quiet_bind quiet_fold quiet_then quiet_when quiet_say
        split: prod.split option.split)
qed

lemma quiet_expunge_deleted [quiet_parts]: "quiet (expunge_deleted env only silent)"
proof -
  have "quiet (expunge_marked env api inbox nm doomed silent)" for api inbox nm doomed
    unfolding expunge_marked_def by (auto simp del: io_simps intro!: quiet_bind quiet_then)
  then show ?thesis unfolding expunge_deleted_def Let_def
    by (auto simp del: io_simps intro!: quiet_bind quiet_then split: prod.split option.split)
qed

lemmas answer_intros = answers_bind answers_then answers_say answers_raise answers_ok_reply

lemma answers_simple:
  "answers (cmd_tag cmd) (capability_cmd env cmd)" "answers (cmd_tag cmd) (noop_cmd env cmd)"
  "answers (cmd_tag cmd) (login_cmd env cmd)" "answers (cmd_tag cmd) (unsupported_cmd msg env cmd)"
  "answers (cmd_tag cmd) (list_cmd env cmd)" "answers (cmd_tag cmd) (lsub_cmd env cmd)"
  "answers (cmd_tag cmd) (id_cmd env cmd)" "answers (cmd_tag cmd) (namespace_cmd env cmd)"
  "answers (cmd_tag cmd) (subscribe_cmd env cmd)" "answers (cmd_tag cmd) (check_cmd env cmd)"
  unfolding capability_cmd_def noop_cmd_def login_cmd_def unsupported_cmd_def list_cmd_def lsub_cmd_def id_cmd_def
    namespace_cmd_def subscribe_cmd_def check_cmd_def Let_def
  by (auto simp del: io_simps intro!: answer_intros quiet_parts quiet_say quiet_say_all split: prod.split if_splits)

lemma answers_logout: "answers (cmd_tag cmd) (logout_cmd env cmd)"
  unfolding logout_cmd_def
  by (rule answers_then [OF quiet_say], simp, rule answers_before [OF answers_ok_reply]) simp

lemma answers_select: "answers (cmd_tag cmd) (select_mailbox read_only env cmd)"
  unfolding select_mailbox_def
  by (auto simp del: io_simps intro!: answer_intros quiet_say_all
      simp: select_responses_def split: prod.split option.splits)

lemma answers_append: "answers (cmd_tag cmd) (append_cmd env cmd)"
proof -
  have last: "answers tag (io_then (say (Tagged tag ''OK'' t code)) (io_modify (defer_work task)))" for tag t code and task
    by (rule answers_before [OF answers_say]) (simp add: defer_work_def)
  show ?thesis unfolding append_cmd_def Let_def
    by (auto simp del: io_simps intro!: last answers_bind answers_then split: prod.split option.split)
qed

lemma answers_run:
  "answers (cmd_tag cmd) (run_fetch uid_mode args env cmd)" "answers (cmd_tag cmd) (run_search uid_mode args env cmd)"
  "answers (cmd_tag cmd) (run_store uid_mode args env cmd)" "answers (cmd_tag cmd) (run_uid_expunge args env cmd)"
  "answers (cmd_tag cmd) (run_copy uid_mode moving args env cmd)"
  unfolding run_fetch_def run_search_def run_store_def run_uid_expunge_def run_copy_def Let_def
  by (auto simp del: io_simps intro!: answer_intros quiet_parts quiet_fold quiet_say split: prod.split option.split)

lemma answers_selected:
  "answers (cmd_tag cmd) (expunge_cmd env cmd)" "answers (cmd_tag cmd) (close_with_expunge_cmd env cmd)"
  "answers (cmd_tag cmd) (status_cmd env cmd)" "answers (cmd_tag cmd) (uid_cmd env cmd)"
  unfolding expunge_cmd_def close_with_expunge_cmd_def status_cmd_def uid_cmd_def uid_handlers_def
  by (auto simp del: io_simps intro!: answer_intros quiet_parts quiet_when quiet_say answers_run
      split: prod.split option.split)

interpretation table: handler_table env handlers for env
proof (unfold_locales, goal_cases)
  case (1 nm h cmd)
  then have "h \<in> snd ` set handler_list" by (force simp: handlers_def dest: map_of_SomeD)
  then show ?case
    using answers_simple answers_logout answers_select answers_append answers_run answers_selected
    by (auto simp: handler_list_def select_cmd_def examine_cmd_def fetch_cmd_def search_cmd_def store_cmd_def
        copy_cmd_def move_cmd_def)
qed


subsection \<open>LIST patterns\<close>

text \<open>The relation the matcher decides: a wildcard stands for any run of characters.\<close>

definition wildcard :: "char \<Rightarrow> bool" where
  "wildcard c \<longleftrightarrow> c = CHR ''*'' \<or> c = CHR ''%''"

fun matches :: "str \<Rightarrow> str \<Rightarrow> bool" where
  "matches [] s = (s = [])"
| "matches (c # p) s =
     (if wildcard c then list_ex (\<lambda>k. matches p (drop k s)) [0..<length s + 1]
      else s \<noteq> [] \<and> c = hd s \<and> matches p (tl s))"

lemma matches_star: "wildcard c \<Longrightarrow> matches (c # p) s \<longleftrightarrow> (\<exists>k \<le> length s. matches p (drop k s))"
  by (auto simp: list_ex_iff less_Suc_eq_le Bex_def simp del: upt_Suc)

lemma matches_drop_star:
  assumes "wildcard c" and "nt \<le> length nm"
  shows "matches (c # p) (drop nt nm) \<longleftrightarrow> (\<exists>k. nt \<le> k \<and> k \<le> length nm \<and> matches p (drop k nm))"
proof
  assume "matches (c # p) (drop nt nm)"
  then obtain k where "k \<le> length nm - nt" "matches p (drop (k + nt) nm)"
    unfolding matches_star [OF assms(1)] by auto
  then show "\<exists>k. nt \<le> k \<and> k \<le> length nm \<and> matches p (drop k nm)" using assms(2) by (intro exI [of _ "k + nt"]) auto
next
  assume "\<exists>k. nt \<le> k \<and> k \<le> length nm \<and> matches p (drop k nm)"
  then obtain k where "nt \<le> k" "k \<le> length nm" "matches p (drop k nm)" by blast
  then show "matches (c # p) (drop nt nm)"
    unfolding matches_star [OF assms(1)] by (intro exI [of _ "k - nt"]) auto
qed

text \<open>A literal segment of the pattern.\<close>

lemma matches_literal:
  assumes "\<forall>j < n. j < length p \<and> \<not> wildcard (p ! j)" and "matches p (drop k nm)" and "k \<le> length nm"
  shows "k + n \<le> length nm \<and> (\<forall>j < n. p ! j = nm ! (k + j)) \<and> matches (drop n p) (drop (k + n) nm)"
  using assms
proof (induction n arbitrary: p k)
  case (Suc n)
  then obtain c q where p: "p = c # q" by (cases p) auto
  have c: "\<not> wildcard c" using Suc.prems(1) p by (metis nth_Cons_0 zero_less_Suc)
  then have m: "k < length nm" "c = nm ! k" "matches q (drop (Suc k) nm)"
    using Suc.prems(2) p by (auto simp: hd_drop_conv_nth drop_Suc tl_drop)
  have "\<forall>j < n. j < length q \<and> \<not> wildcard (q ! j)" using Suc.prems(1) p by fastforce
  from Suc.IH [OF this m(3)] m(1,2) show ?case by (auto simp: p less_Suc_eq_0_disj)
qed simp

text \<open>
  The invariant of the loop: the last star was tried at \<open>sn\<close>, and from there the pattern up to \<open>pt\<close> is a
  literal segment that agrees with the name.
\<close>

fun star_ok :: "str \<Rightarrow> str \<Rightarrow> nat \<Rightarrow> nat \<Rightarrow> (nat \<times> nat) option \<Rightarrow> bool" where
  "star_ok p nm pt nt None = True"
| "star_ok p nm pt nt (Some (sp, sn)) \<longleftrightarrow> sp < pt \<and> p ! sp = CHR ''*'' \<and> sn \<le> nt \<and> nt - sn = pt - Suc sp
     \<and> (\<forall>j < pt - Suc sp. \<not> wildcard (p ! (Suc sp + j)))"

text \<open>What is left to try when the current place fails.\<close>

fun retry_matches :: "str \<Rightarrow> str \<Rightarrow> (nat \<times> nat) option \<Rightarrow> bool" where
  "retry_matches p nm None = False"
| "retry_matches p nm (Some (sp, sn)) \<longleftrightarrow> (\<exists>k. sn < k \<and> k \<le> length nm \<and> matches (drop (Suc sp) p) (drop k nm))"

lemma matches_only_stars: "CHR ''%'' \<notin> set p \<Longrightarrow> matches p [] \<longleftrightarrow> dropWhile (\<lambda>c. c = CHR ''*'') p = []"
  by (induction p) (auto simp: wildcard_def)

lemma retry_literal:
  assumes "star_ok p nm pt nt (Some (sp, sn))" and "pt \<le> length p" and "sn < k" and "k \<le> length nm"
    and "matches (drop (Suc sp) p) (drop k nm)"
  shows "nt < k + (nt - sn) \<and> k + (nt - sn) \<le> length nm \<and> matches (drop pt p) (drop (k + (nt - sn)) nm)"
proof -
  have lit: "\<forall>j < pt - Suc sp. j < length (drop (Suc sp) p) \<and> \<not> wildcard (drop (Suc sp) p ! j)"
    using assms(1,2) by auto
  have "k + (pt - Suc sp) \<le> length nm" "matches (drop (pt - Suc sp) (drop (Suc sp) p)) (drop (k + (pt - Suc sp)) nm)"
    using matches_literal [OF lit assms(5,4)] by blast+
  then show ?thesis using assms(1,2,3) by auto
qed

lemma next_try: "sn < (n :: nat) \<Longrightarrow> (\<exists>k. sn < k \<and> k \<le> n \<and> Q k) \<longleftrightarrow> Q (Suc sn) \<or> (\<exists>k. Suc sn < k \<and> k \<le> n \<and> Q k)"
  by (metis Suc_leI Suc_lessD Suc_lessI lessI)

text \<open>The places the loop can be at: the name has ended; a star; a letter that agrees; or neither.\<close>

lemma retry_ended:
  assumes "star_ok p nm pt (length nm) star" and "pt \<le> length p"
  shows "\<not> retry_matches p nm star"
proof (cases star)
  case (Some x)
  then obtain sp sn where x: "star = Some (sp, sn)" by (cases x) auto
  have False if "sn < k" "k \<le> length nm" "matches (drop (Suc sp) p) (drop k nm)" for k
    using retry_literal [of p nm pt "length nm" sp sn k] assms that unfolding x by linarith
  then show ?thesis by (auto simp: x)
qed simp

lemma matches_at_star:
  assumes "pt < length p" and "p ! pt = CHR ''*''" and "nt \<le> length nm"
  shows "matches (drop pt p) (drop nt nm) \<longleftrightarrow> (\<exists>k. nt \<le> k \<and> k \<le> length nm \<and> matches (drop (Suc pt) p) (drop k nm))"
proof -
  have "drop pt p = CHR ''*'' # drop (Suc pt) p" using assms(1,2) by (metis Cons_nth_drop_Suc)
  then show ?thesis using matches_drop_star [OF _ assms(3)] by (simp only: wildcard_def simp_thms)
qed

lemma retry_at_star:
  assumes "pt < length p" and "p ! pt = CHR ''*''" and "star_ok p nm pt nt star" and "retry_matches p nm star"
    and "nt \<le> length nm"
  shows "matches (drop pt p) (drop nt nm)"
proof -
  obtain sp sn k where x: "star = Some (sp, sn)" "sn < k" "k \<le> length nm" "matches (drop (Suc sp) p) (drop k nm)"
    using assms(4) by (cases "(p, nm, star)" rule: retry_matches.cases) auto
  then have k: "nt < k + (nt - sn)" "k + (nt - sn) \<le> length nm" "matches (drop pt p) (drop (k + (nt - sn)) nm)"
    using retry_literal [of p nm pt nt sp sn k] assms(1,3) by auto
  then obtain k' where "k + (nt - sn) \<le> k'" "k' \<le> length nm" "matches (drop (Suc pt) p) (drop k' nm)"
    using matches_at_star [OF assms(1,2)] by blast
  then show ?thesis unfolding matches_at_star [OF assms(1,2,5)] using k(1) by (intro exI [of _ k']) auto
qed

lemma star_ok_literal:
  assumes "star_ok p nm pt nt star" and "\<not> wildcard (p ! pt)"
  shows "star_ok p nm (pt + 1) (nt + 1) star"
proof (cases star)
  case (Some x)
  then obtain sp sn where x: "star = Some (sp, sn)" by (cases x) auto
  have "\<not> wildcard (p ! (Suc sp + j))" if "j < pt + 1 - Suc sp" for j
    using that assms by (cases "Suc sp + j = pt") (auto simp: x)
  then show ?thesis using assms(1) by (auto simp: x)
qed simp

lemma differs_here:
  assumes "nt < length nm" and "pt < length p \<Longrightarrow> \<not> wildcard (p ! pt) \<and> p ! pt \<noteq> nm ! nt"
  shows "\<not> matches (drop pt p) (drop nt nm)"
proof (cases "pt < length p")
  case True
  then have "drop pt p = p ! pt # drop (Suc pt) p" "drop nt nm = nm ! nt # drop (Suc nt) nm"
    using assms(1) by (simp_all add: Cons_nth_drop_Suc)
  then show ?thesis using assms(2) True by simp
qed (use assms(1) in simp)

lemma match_loop_matches:
  assumes "CHR ''%'' \<notin> set p" and "pt \<le> length p" and "nt \<le> length nm" and "star_ok p nm pt nt star"
  shows "match_loop p nm pt nt star \<longleftrightarrow> matches (drop pt p) (drop nt nm) \<or> retry_matches p nm star"
  using assms
proof (induction p nm pt nt star rule: match_loop.induct)
  case (1 p nm pt nt star)
  have wild: "wildcard (p ! pt) \<longleftrightarrow> p ! pt = CHR ''*''" if "pt < length p"
    using "1.prems"(1) nth_mem [OF that] by (auto simp: wildcard_def)
  consider (ended) "nt = length nm" | (star) "nt < length nm" "pt < length p" "p ! pt = CHR ''*''"
    | (same) "nt < length nm" "pt < length p" "p ! pt \<noteq> CHR ''*''" "p ! pt = nm ! nt"
    | (differ) "nt < length nm" "\<not> (pt < length p \<and> p ! pt = CHR ''*'')" "\<not> (pt < length p \<and> p ! pt = nm ! nt)"
    using "1.prems"(3) by linarith
  then show ?case
  proof cases
    case ended
    have "CHR ''%'' \<notin> set (drop pt p)" using "1.prems"(1) by (meson in_set_dropD)
    then show ?thesis
      using ended retry_ended [of p nm pt star] "1.prems"(2,4) matches_only_stars by (subst match_loop.simps) simp
  next
    case star
    have "match_loop p nm (pt + 1) nt (Some (pt, nt)) \<longleftrightarrow>
        matches (drop (pt + 1) p) (drop nt nm) \<or> retry_matches p nm (Some (pt, nt))"
      by (rule "1.IH"(1)) (use star "1.prems" in auto)
    also have "\<dots> \<longleftrightarrow> matches (drop pt p) (drop nt nm)"
      unfolding matches_at_star [OF star(2,3) "1.prems"(3)] using star(1) by (auto simp: le_less)
    finally show ?thesis using star retry_at_star [OF star(2,3) "1.prems"(4) _ "1.prems"(3)]
      by (subst match_loop.simps) auto
  next
    case same
    note dp = Cons_nth_drop_Suc [OF same(2), symmetric] and dn = Cons_nth_drop_Suc [OF same(1), symmetric]
    have w: "\<not> wildcard (p ! pt)" using wild same by blast
    have "match_loop p nm (pt + 1) (nt + 1) star \<longleftrightarrow>
        matches (drop (pt + 1) p) (drop (nt + 1) nm) \<or> retry_matches p nm star"
      by (rule "1.IH"(2)) (use same star_ok_literal [OF "1.prems"(4) w] "1.prems" in auto)
    moreover have "matches (drop pt p) (drop nt nm) = matches (drop (pt + 1) p) (drop (nt + 1) nm)"
      unfolding dp dn using w same(4) by simp
    ultimately show ?thesis using same by (subst match_loop.simps) simp
  next
    case differ
    have "match_loop p nm pt nt star \<longleftrightarrow> retry_matches p nm star"
    proof (cases star)
      case None
      then show ?thesis using differ by (subst match_loop.simps) auto
    next
      case (Some x)
      then obtain sp sn where x: "star = Some (sp, sn)" by (cases x) auto
      have sp: "sp < length p" "sn < length nm" using "1.prems"(2,4) differ(1) x by auto
      have "match_loop p nm (sp + 1) (sn + 1) (Some (sp, sn + 1)) \<longleftrightarrow>
          matches (drop (sp + 1) p) (drop (sn + 1) nm) \<or> retry_matches p nm (Some (sp, sn + 1))"
        by (rule "1.IH"(3)) (use differ x "1.prems" sp in auto)
      also have "\<dots> \<longleftrightarrow> retry_matches p nm star"
        using next_try [OF sp(2), of "\<lambda>k. matches (drop (Suc sp) p) (drop k nm)"] by (simp add: x)
      finally show ?thesis using differ by (subst match_loop.simps) (auto simp: x)
    qed
    moreover have "\<not> matches (drop pt p) (drop nt nm)" by (rule differs_here [OF differ(1)]) (use differ wild in blast)
    ultimately show ?thesis by simp
  qed
qed

text \<open>Collapsing runs of wildcards changes no match.\<close>

lemma matches_append_cong: "(\<And>s. matches a s = matches b s) \<Longrightarrow> matches (c @ a) s = matches (c @ b) s"
  by (induction c arbitrary: s) auto

lemma matches_wildcards: "wildcard c \<Longrightarrow> wildcard d \<Longrightarrow> matches (c # d # p) s = matches (d # p) s"
proof
  assume cd: "wildcard c" "wildcard d"
  assume "matches (c # d # p) s"
  then obtain k j where "k \<le> length s" "j \<le> length s - k" "matches p (drop (j + k) s)"
    unfolding matches_star [OF cd(1)] matches_star [OF cd(2)] by auto
  then show "matches (d # p) s" unfolding matches_star [OF cd(2)] by (intro exI [of _ "j + k"]) auto
next
  assume cd: "wildcard c" "wildcard d"
  assume "matches (d # p) s"
  then show "matches (c # d # p) s" unfolding matches_star [OF cd(1)] by (intro exI [of _ 0]) simp
qed

lemma matches_any_wildcard: "wildcard c \<Longrightarrow> wildcard d \<Longrightarrow> matches (c # p) s = matches (d # p) s"
  by (simp only: matches_star)

lemma matches_collapse_step: "matches (collapse_step ch acc @ p) s = matches (acc @ ch # p) s"
proof (cases "wildcard ch")
  case w: True
  show ?thesis
  proof (cases "acc \<noteq> [] \<and> last acc = CHR ''*''")
    case True
    then have acc: "acc = butlast acc @ ''*''" by (metis append_butlast_last_id)
    have "matches (butlast acc @ ''*'' @ p) s = matches (butlast acc @ ''*'' @ ch # p) s"
      by (rule matches_append_cong)
         (simp only: append_Cons append_Nil matches_wildcards [OF _ w] matches_any_wildcard [OF w, of "CHR ''*''"] wildcard_def simp_thms)
    then show ?thesis using True w acc by (metis append.assoc collapse_step_def wildcard_def)
  next
    case False
    have "matches (acc @ ''*'' @ p) s = matches (acc @ ch # p) s"
      by (rule matches_append_cong) (simp only: append_Cons append_Nil matches_any_wildcard [OF w, of "CHR ''*''"] wildcard_def simp_thms)
    moreover have "collapse_step ch acc = acc @ ''*''" using False w by (auto simp: collapse_step_def wildcard_def)
    ultimately show ?thesis by simp
  qed
next
  case False
  then have "collapse_step ch acc = acc @ [ch]" by (auto simp: collapse_step_def wildcard_def)
  then show ?thesis by simp
qed

lemma matches_collapse: "matches (collapse p) s = matches p s"
proof -
  have "matches (fold collapse_step p acc) s = matches (acc @ p) s" for acc
    by (induction p arbitrary: acc) (simp_all add: matches_collapse_step)
  then show ?thesis by (simp add: collapse_def)
qed

lemma no_percent_collapse: "CHR ''%'' \<notin> set (collapse p)"
proof -
  have "CHR ''%'' \<notin> set (fold collapse_step p acc)" if "CHR ''%'' \<notin> set acc" for acc
    using that
  proof (induction p arbitrary: acc)
    case (Cons c p)
    have "CHR ''%'' \<notin> set (collapse_step c acc)" using Cons.prems by (auto simp: collapse_step_def)
    then show ?case by (simp only: fold.simps o_apply Cons.IH not_False_eq_True)
  qed simp
  then show ?thesis by (simp add: collapse_def)
qed

lemma match_collapsed: "match_loop (collapse p) nm 0 0 None = matches p nm"
proof -
  have "match_loop (collapse p) nm 0 0 None = matches (drop 0 (collapse p)) (drop 0 nm)"
    using match_loop_matches [OF no_percent_collapse [of p], of 0 0 nm None] by simp
  then show ?thesis by (simp add: matches_collapse)
qed

text \<open>C35: The linear-time matcher of LIST decides the matching relation: it never backtracks beyond the last
  star and still finds a way to spread the name over the wildcards whenever there is one.\<close>

theorem wildcard_match_decides:
  "wildcard_match pattern nm ignore_case =
     (if ignore_case then matches (py_lower pattern) (py_lower nm) else matches pattern nm)"
  by (simp add: wildcard_match_def match_collapsed)

subsection \<open>UID sets\<close>

fun in_runs :: "nat \<Rightarrow> (nat \<times> nat) list \<Rightarrow> bool" where
  "in_runs n rs = list_ex (\<lambda>(a, b). a \<le> n \<and> n \<le> b) rs"

lemma uid_runs_cover:
  "start \<le> prev \<Longrightarrow> sorted_wrt (<) (prev # us) \<Longrightarrow>
   in_runs n (uid_runs start prev us) \<longleftrightarrow> (start \<le> n \<and> n \<le> prev) \<or> n \<in> set us"
  by (induction start prev us rule: uid_runs.induct) auto

lemma uid_runs_bounds:
  assumes "r \<in> set (uid_runs start prev us)" and "start \<le> prev" and "sorted_wrt (<) (prev # us)"
  shows "start \<le> fst r \<and> fst r \<le> snd r \<and> snd r \<in> set (prev # us)"
  using assms by (induction start prev us rule: uid_runs.induct) (auto split: if_splits)

lemma uid_runs_nonempty: "uid_runs start prev us \<noteq> []"
  by (induction start prev us rule: uid_runs.induct) auto

lemma parse_run_text:
  assumes "0 < fst r" and "fst r \<le> snd r" and "short_number (fst r)" and "short_number (snd r)"
  shows "parse_range (run_text r) = Inr r \<and> CHR '','' \<notin> set (run_text r)"
  using assms parse_range_pair [of "fst r" "snd r"] parse_range_single [of "fst r"]
  by (cases r) (auto simp: run_text_def nat_str_no_special)

text \<open>The UID sets of COPYUID: for distinct positive UIDs (of less than eleven digits) the text of
  \<open>_uid_set\<close> is a sequence set a client reads without error, and the numbers in it are exactly the UIDs.\<close>

theorem uid_set_roundtrip:
  assumes "uids \<noteq> []" and "distinct uids" and "\<forall>u \<in> set uids. 0 < u \<and> u < 10 ^ 10"
  shows "\<exists>q. parse_sequence_set (uid_set uids) = Inr q \<and> (\<forall>n. seq_contains q n \<longleftrightarrow> n \<in> set uids)"
proof -
  obtain u us where s: "sort uids = u # us" using assms(1) by (metis length_0_conv length_sort list.exhaust)
  have srt: "sorted_wrt (<) (u # us)" using assms(2) by (metis distinct_sort s sorted_sort strict_sorted_iff)
  have mem: "set (u # us) = set uids" by (metis s set_sort)
  let ?rs = "uid_runs u u us"
  have run: "parse_range (run_text r) = Inr r \<and> CHR '','' \<notin> set (run_text r)" if "r \<in> set ?rs" for r
  proof -
    have b: "u \<le> fst r" "fst r \<le> snd r" "snd r \<in> set (u # us)" using uid_runs_bounds [OF that _ srt] by auto
    then have "0 < fst r" "snd r < 10 ^ 10" using assms(3) mem by (auto intro: less_le_trans)
    then show ?thesis using b by (intro parse_run_text short_number_leI) auto
  qed
  have "list_all2 (\<lambda>w r. parse_range w = Inr r \<and> CHR '','' \<notin> set w) (map run_text ?rs) ?rs"
    unfolding list_all2_map1 by (rule list.rel_refl_strong) (rule run)
  moreover have "map run_text ?rs \<noteq> []" using uid_runs_nonempty by simp
  ultimately have "parse_sequence_set (join_with '','' (map run_text ?rs)) = Inr (SequenceSet ?rs)"
    by (intro parse_sequence_set_join)
  then have "parse_sequence_set (uid_set uids) = Inr (SequenceSet ?rs)" by (simp only: uid_set_def s list.case)
  moreover have "seq_contains (SequenceSet ?rs) n \<longleftrightarrow> n \<in> set uids" for n
  proof -
    have "seq_contains (SequenceSet ?rs) n \<longleftrightarrow> in_runs n ?rs" by (simp add: seq_contains_def)
    also have "\<dots> \<longleftrightarrow> n \<in> set (u # us)" unfolding uid_runs_cover [OF le_refl srt] by auto
    finally show ?thesis unfolding mem .
  qed
  ultimately show ?thesis by blast
qed

theorem uid_set_roundtrip_witness:
  "uid_set [9, 4, 1, 5, 3] = ''1,3:5,9''
   \<and> (\<exists>q. parse_sequence_set (uid_set [9, 4, 1, 5, 3]) = Inr q \<and> (\<forall>n. seq_contains q n \<longleftrightarrow> n \<in> {1, 3, 4, 5, 9}))"
proof
  show "uid_set [9, 4, 1, 5, 3] = ''1,3:5,9''" by code_simp
  have "set [9, 4, 1, 5, 3 :: nat] = {1, 3, 4, 5, 9}" by auto
  then show "\<exists>q. parse_sequence_set (uid_set [9, 4, 1, 5, 3]) = Inr q \<and> (\<forall>n. seq_contains q n \<longleftrightarrow> n \<in> {1, 3, 4, 5, 9})"
    using uid_set_roundtrip [of "[9, 4, 1, 5, 3]"] by simp
qed

subsection \<open>Before LOGIN\<close>

text \<open>A session that has not logged in: what a command other than LOGIN may leave behind.\<close>

definition untouched :: "'w session \<Rightarrow> 'w session \<Rightarrow> bool" where
  "untouched s s' \<longleftrightarrow> ss_service s' = ss_service s \<and> ss_selected s' = ss_selected s \<and> ss_deferred s' = ss_deferred s
     \<and> ss_redactor s' = ss_redactor s \<and> ss_api s' = ss_api s \<and> ss_api_key s' = ss_api_key s
     \<and> (ss_state s' = ss_state s \<or> ss_state s' = Logout)"

lemma untouched_refl [simp]: "untouched s s"
  by (simp add: untouched_def)

lemma untouched_push [simp]: "untouched s (push r s') = untouched s s'"
  by (simp add: untouched_def push_def)

lemma ensure_false [simp]: "ensure b e s = (if b then Inr () else Inl e, s)"
  by (simp add: ensure_def)

lemma refused:
  "ss_state s = NotAuthenticated \<Longrightarrow> io_then (require_state [Authenticated, SelectedState]) m s
     = (Inl (bad ''command not allowed in this state''), s)"
  "ss_state s = NotAuthenticated \<Longrightarrow> io_bind require_selected f s = (Inl (bad ''no mailbox selected''), s)"
  by (auto simp: io_then_def require_state_def require_selected_def split: option.splits)

lemma untouched_handlers:
  assumes "(nm, h) \<in> set handler_list" and "nm \<noteq> ''LOGIN''" and "ss_state s = NotAuthenticated"
  shows "untouched s (snd (h env cmd s))"
proof -
  have said: "snd (ok_reply cmd label s') = push (Tagged (cmd_tag cmd) ''OK'' (label @ '' completed'') None) s'"
    "fst (ok_reply cmd label s') = Inr ()" for label and s' :: "'a session"
    by (simp_all add: ok_reply_def say_def)
  have any: "untouched s (snd (capability_cmd env cmd s))" "untouched s (snd (noop_cmd env cmd s))"
    "untouched s (snd (logout_cmd env cmd s))" "untouched s (snd (id_cmd env cmd s))"
    using assms(3)
    by (auto simp: capability_cmd_def noop_cmd_def logout_cmd_def id_cmd_def io_then_def io_bind_def say_def said
        refresh_selected_def ok_reply_def untouched_def push_def)
  have listing: "snd (list_cmd env cmd s) = s" "snd (lsub_cmd env cmd s) = s" "snd (select_mailbox ro env cmd s) = s"
    "snd (append_cmd env cmd s) = s" "snd (status_cmd env cmd s) = s" "snd (namespace_cmd env cmd s) = s"
    "snd (subscribe_cmd env cmd s) = s" for ro
    unfolding list_cmd_def lsub_cmd_def list_args_def select_mailbox_def append_cmd_def status_cmd_def
      namespace_cmd_def subscribe_cmd_def Let_def
    by (simp_all add: io_bind_def refused [OF assms(3)])
  have sel: "snd (close_with_expunge_cmd env cmd s) = s" "snd (run_fetch um args env cmd s) = s"
    "snd (uid_cmd env cmd s) = s" "snd (run_search um args env cmd s) = s" "snd (run_store um args env cmd s) = s"
    "snd (check_cmd env cmd s) = s" "snd (run_copy um mv args env cmd s) = s" for um mv args
    unfolding close_with_expunge_cmd_def run_fetch_def uid_cmd_def run_search_def run_store_def
      check_cmd_def run_copy_def Let_def
    by (simp_all only: refused(2) [OF assms(3)] snd_conv)
  have expu: "expunge_deleted env only silent s = (Inl (bad ''no mailbox selected''), s)" for only silent
    unfolding expunge_deleted_def by (rule refused(2) [OF assms(3)])
  have exp: "snd (expunge_cmd env cmd s) = s" using expu by (simp add: expunge_cmd_def io_then_def io_bind_def)
  show ?thesis
    using assms(1,2) unfolding handler_list_def list.set insert_iff empty_iff prod.inject
    by (elim disjE conjE; simp only: any listing sel exp select_cmd_def examine_cmd_def fetch_cmd_def search_cmd_def
        store_cmd_def copy_cmd_def move_cmd_def unsupported_cmd_def io_simps(2) snd_conv untouched_refl simp_thms)
qed

text \<open>C32: Nothing happens before LOGIN: in a session that has not authenticated, every command except LOGIN leaves
  the mailbox service (its store, caches and the outside world), the selection, the credentials and the
  redactor alone, and the session stays unauthenticated or ends.\<close>

theorem login_required:
  assumes "ss_state s = NotAuthenticated" and "ss_api s = None" and "ss_deferred s = []" and "cmd_name cmd \<noteq> ''LOGIN''"
  shows "untouched s (dispatch env handlers cmd s)"
proof (cases rule: dispatch_cases [of handlers cmd env s])
  case unknown
  then show ?thesis by simp
next
  case (known h r s1)
  have "(cmd_name cmd, h) \<in> set handler_list" using known(1) by (simp add: handlers_def map_of_SomeD)
  then have "untouched (timed env s) (snd (h env cmd (timed env s)))" by (rule untouched_handlers) (use assms in simp_all)
  then have u: "untouched s s1" using known(2) by (simp add: untouched_def)
  define s2 where "s2 = concluded env cmd (r, s1)"
  have "untouched s s2"
    using u by (auto simp: s2_def concluded_def conclude_def untouched_def push_def split: sum.splits prod.splits)
  moreover from this have "drop_failed_login s2 = s2" using assms(2) by (simp add: drop_failed_login_def untouched_def)
  moreover have "run_deferred env s2 = s2\<lparr>ss_deferred := []\<rparr>"
    using \<open>untouched s s2\<close> assms(3) by (simp add: run_deferred_def untouched_def)
  ultimately show ?thesis
    using assms(3) by (simp add: known(3) s2_def untouched_def)
qed

theorem login_required_witness:
  "\<forall>(env :: unit session_env) sv. let s = new_session env sv [] in
     untouched s (dispatch env handlers \<lparr>cmd_tag = ''a1'', cmd_name = ''SELECT'', cmd_args = [Atom ''INBOX'']\<rparr> s)"
  unfolding Let_def by (intro allI login_required) (simp_all add: new_session_def)

end
