(* ===== verification/Client_View.thy ===== *)
theory Client_View
  imports Commands
begin

text \<open>
  What a client knows of its mailbox over a whole session. \<open>Session\<close> shows that one announcement is right; here
  every handler of \<open>Commands\<close> is shown to leave the client's view and the session's in step: FETCH, STORE and
  SEARCH never renumber, every message number they send lies in the view, and only announcements and SELECT
  change it. A history interleaves the commands of a session with the work of other sessions on the service.
\<close>

section \<open>What a computation leads to\<close>

text \<open>From a state with \<open>P\<close>: \<open>Q\<close> when it returns, \<open>E\<close> when it raises.\<close>

definition lands :: "('w \<Rightarrow> bool) \<Rightarrow> ('a \<Rightarrow> 'w \<Rightarrow> bool) \<Rightarrow> ('e + 'a) \<times> 'w \<Rightarrow> bool" where
  "lands E Q res \<longleftrightarrow> (case res of (Inl e, s') \<Rightarrow> E s' | (Inr x, s') \<Rightarrow> Q x s')"

definition leads :: "('w \<Rightarrow> bool) \<Rightarrow> ('w \<Rightarrow> bool) \<Rightarrow> ('w, 'e, 'a) io \<Rightarrow> ('a \<Rightarrow> 'w \<Rightarrow> bool) \<Rightarrow> bool" where
  "leads E P m Q \<longleftrightarrow> (\<forall>s. P s \<longrightarrow> lands E Q (m s))"

lemma lands_simps [simp]: "lands E Q (Inl e, s) = E s" "lands E Q (Inr x, s) = Q x s"
  by (simp_all add: lands_def)

lemma leads_bind:
  assumes "leads E P m Q" and "\<And>x. leads E (Q x) (f x) R"
  shows "leads E P (io_bind m f) R"
  unfolding leads_def
proof (intro allI impI)
  fix s assume s: "P s"
  obtain r s' where m: "m s = (r, s')" by fastforce
  then have "lands E Q (r, s')" using assms(1) s unfolding leads_def by metis
  then show "lands E R (io_bind m f s)" using m assms(2) by (cases r) (simp_all add: leads_def)
qed

lemma leads_then: "leads E P m (\<lambda>_. Q) \<Longrightarrow> leads E Q n R \<Longrightarrow> leads E P (io_then m n) R"
  unfolding io_then_def by (rule leads_bind)

lemma leads_keeps: "io_keeps P m \<Longrightarrow> (\<And>s. P s \<Longrightarrow> E s) \<Longrightarrow> leads E P m (\<lambda>_. P)"
  by (auto simp: leads_def io_keeps_def lands_def split: prod.splits sum.splits)

lemma leads_pre: "leads E P m Q \<Longrightarrow> (\<And>s. P' s \<Longrightarrow> P s) \<Longrightarrow> leads E P' m Q"
  by (simp add: leads_def)

lemma leads_get: "(\<And>s. P s \<Longrightarrow> Q (g s) s) \<Longrightarrow> leads E P (io_get g) Q"
  by (simp add: leads_def)

lemma leads_lift: "(\<And>s. P s \<Longrightarrow> E s) \<Longrightarrow> leads E P (io_lift r) (\<lambda>x s. P s \<and> r = Inr x)"
  by (cases r) (simp_all add: leads_def)

lemma leads_raise: "(\<And>s. P s \<Longrightarrow> E s) \<Longrightarrow> leads E P (io_raise e) Q"
  by (simp add: leads_def)

lemma leads_if: "(c \<Longrightarrow> leads E P m Q) \<Longrightarrow> (\<not> c \<Longrightarrow> leads E P n Q) \<Longrightarrow> leads E P (if c then m else n) Q"
  by simp

lemma leads_fact: "(\<And>s. P s \<Longrightarrow> leads E P m Q) \<Longrightarrow> leads E P m Q"
  by (auto simp: leads_def)

lemma keeps_leads: "leads P P m (\<lambda>_. P) \<Longrightarrow> io_keeps P m"
  unfolding leads_def io_keeps_def
proof (intro allI impI)
  fix s assume "\<forall>s. P s \<longrightarrow> lands P (\<lambda>_. P) (m s)" and "P s"
  then show "P (snd (m s))" by (cases "m s"; cases "fst (m s)") (use lands_simps in fastforce)+
qed

section \<open>The client and the session in step\<close>

text \<open>The state of the service between two calls.\<close>

definition healthy :: "'w service_cfg \<Rightarrow> 'w service \<Rightarrow> bool" where
  "healthy cfg sv \<longleftrightarrow> carried cfg sv sv"

lemma healthy_carried: "carried cfg sv sv = healthy cfg sv"
  by (simp add: healthy_def)

lemma carried_trans: "carried cfg a b \<Longrightarrow> carried cfg b c \<Longrightarrow> carried cfg a c"
  using grown_trans [of cfg a b c] by (simp add: carried_def)

lemma carried_healthy: "carried cfg a b \<Longrightarrow> healthy cfg b"
  by (simp add: healthy_def carried_def grown_def)

text \<open>
  The session has said \<open>B\<close> before, and since then only what is sensible for a client with the view \<open>v\<close>; a client
  that follows it has the messages of the session's view, which is behind the service by arrivals only.
\<close>

definition follows :: "'w session_env \<Rightarrow> response list \<Rightarrow> view \<Rightarrow> 'w session \<Rightarrow> bool" where
  "follows env B v s \<longleftrightarrow> (\<exists>out. ss_sent s @ ss_out s = B @ out \<and> sensible out v
     \<and> (\<forall>sel inbox. ss_selected s = Some sel \<longrightarrow> ss_inbox s = Some inbox \<longrightarrow>
          agrees (fold client_sees out v) (sel_uids sel) \<and> view_of (se_service env) (ss_service s) inbox sel))"

text \<open>The start of a command: the service it found, and what the session had said.\<close>

datatype 'w base = Base (found: "'w service") (before: "response list")

definition told :: "'w session_env \<Rightarrow> 'w base \<Rightarrow> view \<Rightarrow> 'w session \<Rightarrow> bool" where
  "told env B v s \<longleftrightarrow> healthy (se_service env) (ss_service s) \<and> carried (se_service env) (found B) (ss_service s)
     \<and> (\<forall>sel. ss_selected s = Some sel \<longrightarrow> sel_seq_of sel = sequence_map (sel_uids sel) \<and> ss_state s \<noteq> NotAuthenticated)
     \<and> (ss_closed s \<or> follows env (before B) v s)"

lemma toldI:
  assumes "told env B v s" and "ss_service s' = ss_service s" and "ss_selected s' = ss_selected s"
    and "ss_inbox s' = ss_inbox s \<or> ss_selected s = None"
    and "ss_state s' \<noteq> NotAuthenticated \<or> ss_state s' = ss_state s"
    and "ss_closed s' \<or> (\<not> ss_closed s \<and> ss_sent s' @ ss_out s' = ss_sent s @ ss_out s)
          \<or> (ss_closed s = ss_closed s' \<and> ss_sent s' @ ss_out s' = ss_sent s @ ss_out s)"
  shows "told env B v s'"
  using assms unfolding told_def follows_def by auto

lemma told_fields [simp]:
  "told env B v (s\<lparr>ss_deferred := d\<rparr>) = told env B v s" "told env B v (s\<lparr>ss_redactor := rd\<rparr>) = told env B v s"
  "told env B v (s\<lparr>ss_api := a\<rparr>) = told env B v s" "told env B v (s\<lparr>ss_api_key := k\<rparr>) = told env B v s"
  "told env B v (s\<lparr>ss_deadline := t\<rparr>) = told env B v s"
  by (simp_all add: told_def follows_def)

lemma told_state: "told env B v s \<Longrightarrow> st \<noteq> NotAuthenticated \<Longrightarrow> told env B v (s\<lparr>ss_state := st\<rparr>)"
  by (erule toldI) simp_all

text \<open>Responses that carry no message number.\<close>

fun unnumbered :: "response \<Rightarrow> bool" where
  "unnumbered (Expunge _) = False"
| "unnumbered (Exists _) = False"
| "unnumbered (FetchData _ _) = False"
| "unnumbered _ = True"

lemma unnumbered_facts: "unnumbered r \<Longrightarrow> sensible [r] v" "unnumbered r \<Longrightarrow> client_sees r v = v"
  by (cases r; simp)+

lemma follows_push:
  assumes "follows env B v s" and "unnumbered r"
  shows "follows env B v (push r s)"
proof -
  obtain out where out: "ss_sent s @ ss_out s = B @ out" "sensible out v"
     "\<forall>sel inbox. ss_selected s = Some sel \<longrightarrow> ss_inbox s = Some inbox \<longrightarrow>
          agrees (fold client_sees out v) (sel_uids sel) \<and> view_of (se_service env) (ss_service s) inbox sel"
    using assms(1) unfolding follows_def by blast
  show ?thesis unfolding follows_def
    by (rule exI [of _ "out @ [r]"]) (use out unnumbered_facts [OF assms(2)] in \<open>simp add: push_def flip: append_assoc\<close>)
qed

lemma told_push: "told env B v s \<Longrightarrow> unnumbered r \<Longrightarrow> told env B v (push r s)"
  using follows_push [of env "before B" v s r] by (auto simp: told_def) (auto simp: push_def)

lemma told_flush: "told env B v s \<Longrightarrow> told env B v (flush_out env s)"
  by (auto simp: flush_out_def Let_def abort_def told_def follows_def split: drain_outcome.splits)

text \<open>The service goes on.\<close>

lemma told_service:
  assumes "told env B v s" and "carried (se_service env) (ss_service s) sv"
  shows "told env B v (s\<lparr>ss_service := sv\<rparr>)"
proof -
  have "grown (se_service env) (ss_service s) sv" using assms(2) by (simp add: carried_def)
  then show ?thesis
    using assms(1) carried_healthy [OF assms(2)] carried_trans [OF _ assms(2)] view_of_grown
    unfolding told_def follows_def by fastforce
qed

text \<open>An operation of the service that every state of it survives.\<close>

definition safe :: "'w service_cfg \<Rightarrow> ('w, 'a) service_io \<Rightarrow> bool" where
  "safe cfg m \<longleftrightarrow> (\<forall>s0. io_keeps (carried cfg s0) m)"

lemma safe_carried: "safe cfg m \<Longrightarrow> healthy cfg sv \<Longrightarrow> carried cfg sv (snd (m sv))"
  by (simp add: safe_def io_keeps_def healthy_def)

lemma told_call: "safe (se_service env) m \<Longrightarrow> told env B v s \<Longrightarrow> told env B v (snd (service_call env m s))"
  using told_service [OF _ safe_carried, of env B v s m]
  by (cases "m (ss_service s)") (simp add: service_call_def told_def)

section \<open>The helpers of the handlers\<close>

lemma told_flush_pending:
  assumes t: "told env B v s"
  shows "told env B v (flush_pending env s)"
proof (cases "\<exists>sel inbox sn. ss_selected s = Some sel \<and> ss_inbox s = Some inbox
    \<and> latest (se_service env) inbox (sel_name sel) (ss_service s) = Some sn")
  case False
  then have "flush_pending env s = s" by (auto simp: flush_pending_def split: option.splits)
  then show ?thesis using t by simp
next
  case True
  then obtain sel inbox sn where sel: "ss_selected s = Some sel" "ss_inbox s = Some inbox"
    and l: "latest (se_service env) inbox (sel_name sel) (ss_service s) = Some sn" by blast
  obtain out sel' where r: "refresh_view sn (service_deleted (se_service env) inbox (sel_name sel) (ss_service s)) sel = (out, sel')"
    by fastforce
  have f: "flush_pending env s = s\<lparr>ss_selected := Some sel', ss_out := ss_out s @ out\<rparr>"
    by (simp add: flush_pending_def sel l r)
  have num: "sel_seq_of sel' = sequence_map (sel_uids sel')"
    using r by (auto simp: refresh_view_def Let_def split: prod.splits)
  have "follows env (before B) v (flush_pending env s)" if fo: "follows env (before B) v s"
  proof -
    obtain out0 where o: "ss_sent s @ ss_out s = before B @ out0" "sensible out0 v" "agrees (fold client_sees out0 v) (sel_uids sel)"
        "view_of (se_service env) (ss_service s) inbox sel" using fo sel unfolding follows_def by blast
    have inv: "service_inv (ss_service s)"
      using t by (simp add: told_def healthy_def carried_def grown_def service_good_def)
    obtain out1 sel1 where g: "flush_pending env s = s\<lparr>ss_selected := Some sel1, ss_out := ss_out s @ out1\<rparr>"
      "agrees (fold client_sees out1 (fold client_sees out0 v)) (sel_uids sel1)" "sensible out1 (fold client_sees out0 v)"
      "view_of (se_service env) (ss_service s) inbox sel1"
      by (rule flush_pending_view [OF o(4) sel inv o(3)]) blast
    show ?thesis unfolding follows_def g(1)
      by (rule exI [of _ "out0 @ out1"]) (use o g sel in \<open>simp flip: append_assoc\<close>)
  qed
  then show ?thesis using t num sel by (auto simp: told_def f)
qed

lemma sequence_map_bound: "sequence_map uids u = Some n \<Longrightarrow> 0 < n \<and> n \<le> length uids"
proof -
  assume "sequence_map uids u = Some n"
  then have "(u, n) \<in> set (zip uids [1..<length uids + 1])"
    unfolding sequence_map_def using map_of_SomeD by (metis set_rev)
  then have "n \<in> set [1..<length uids + 1]" by (rule set_zip_rightD)
  then show ?thesis by auto
qed

lemma told_record: "told env B v s \<Longrightarrow> told env B v (record_flags u fs s)"
  by (auto simp: record_flags_def told_def follows_def view_of_def split: option.splits)

lemma told_deselect: "told env B v s \<Longrightarrow> told env B v (deselect s)"
  by (auto simp: deselect_def told_def follows_def)

lemma told_credentials: "told env B v s \<Longrightarrow> ss_selected s = None \<Longrightarrow> told env B v (snd (set_credentials env u k s))"
  by (erule toldI) (simp_all add: set_credentials_def Let_def)

lemma told_clear: "told env B v s \<Longrightarrow> told env B v (clear_credentials s)"
  by (erule toldI) (simp_all add: clear_credentials_def Let_def)

definition steady :: "'w session_env \<Rightarrow> ('w, 'a) session_io \<Rightarrow> bool" where
  "steady env m \<longleftrightarrow> (\<forall>B v. io_keeps (told env B v) m)"

lemma steady_basic [intro, simp]: "steady env (io_return x)" "steady env (io_raise e)" "steady env (io_get f)" "steady env (io_lift r)"
  by (auto simp: steady_def)

lemma steady_bind [intro]: "steady env m \<Longrightarrow> (\<And>x. steady env (f x)) \<Longrightarrow> steady env (io_bind m f)"
  unfolding steady_def by (intro allI io_keeps_bind) auto

lemma steady_then [intro]: "steady env m \<Longrightarrow> steady env n \<Longrightarrow> steady env (io_then m n)"
  unfolding io_then_def by blast

lemma steady_when [intro]: "(b \<Longrightarrow> steady env m) \<Longrightarrow> steady env (io_when b m)"
  by (cases b) (auto simp: io_when_def)

lemma steady_catch [intro]: "steady env m \<Longrightarrow> (\<And>e. steady env (h e)) \<Longrightarrow> steady env (io_catch m h)"
  unfolding steady_def by (intro allI io_keeps_catch) auto

lemma steady_fold [intro]: "(\<And>x acc. x \<in> set xs \<Longrightarrow> steady env (step x acc)) \<Longrightarrow> steady env (io_fold step xs acc)"
  unfolding steady_def by (intro allI io_keeps_fold) auto

lemma steady_modify: "(\<And>B v s. told env B v s \<Longrightarrow> told env B v (g s)) \<Longrightarrow> steady env (io_modify g)"
  by (simp add: steady_def io_keeps_def)

lemma steady_call [intro]: "safe (se_service env) m \<Longrightarrow> steady env (service_call env m)"
  by (simp add: steady_def io_keeps_def told_call)

lemma steady_say [intro]: "unnumbered r \<Longrightarrow> steady env (say r)"
  unfolding say_def by (rule steady_modify) (rule told_push)

lemma steady_say_all [intro]: "\<forall>r \<in> set rs. unnumbered r \<Longrightarrow> steady env (say_all rs)"
  unfolding say_all_def by auto

lemma steady_helpers [intro, simp]:
  "steady env (ensure b e)" "steady env (ok_reply cmd label)" "steady env (require_state states)"
  "steady env require_selected" "steady env need_api" "steady env (io_modify (flush_pending env))"
  "steady env (io_modify (flush_out env))" "steady env (io_modify (record_flags u fs))" "steady env (io_modify deselect)"
  "steady env (io_modify (defer_work task))"
proof -
  show "steady env (ensure b e)" by (simp add: ensure_def)
  show "steady env (ok_reply cmd label)" unfolding ok_reply_def by (rule steady_say) simp
  show "steady env (require_state states)" "steady env require_selected" "steady env need_api"
    by (auto simp: steady_def io_keeps_def require_state_def require_selected_def need_api_def split: option.splits)
qed (auto intro!: steady_modify simp: told_flush_pending told_flush told_record told_deselect defer_work_def)

text \<open>Operations of the service.\<close>

named_theorems safe_calls \<open>operations of the service that keep it in order\<close>

lemma safeI: "(\<And>s0. io_keeps (carried cfg s0) m) \<Longrightarrow> safe cfg m"
  by (simp add: safe_def)

lemma safe_operations [safe_calls]:
  "safe cfg (sync cfg api inbox nm force)" "safe cfg (append_draft cfg api inbox df cid)"
  "safe cfg (expunge_items cfg api inbox nm items)" "safe cfg (raw_bytes cfg api inbox nm i)"
  "safe cfg (size_of cfg api inbox nm i)" "safe cfg (service_info cfg inbox nm)"
  by (rule safeI, rule keys.sync_kept keys.append_kept keys.expunge_kept keys.raw_bytes_kept keys.size_of_kept keys.infos)+

lemma safe_requests [safe_calls]:
  "safe cfg (auth_me api (service_http cfg))" "safe cfg (get_inbox api (service_http cfg) inbox)"
  by (rule safeI, rule client_calls_keep [OF keys.traffic])+

lemma told_step: "safe (se_service env) m \<Longrightarrow> told env B v s \<Longrightarrow> told env B v (snd (on_service_step m s))"
  using told_service [OF _ safe_carried, of env B v s m]
  by (cases "m (ss_service s)") (simp add: on_service_step_def told_def)

lemma steady_step [intro]: "safe (se_service env) m \<Longrightarrow> steady env (on_service_step m)"
  by (simp add: steady_def io_keeps_def told_step)

section \<open>Handlers that keep to the view\<close>

lemma steady_refresh: "steady env (refresh_selected env)"
  unfolding steady_def io_keeps_def
proof (intro allI impI)
  fix B v and s :: "'a session" assume t: "told env B v s"
  have "steady env (io_then (service_call env (sync (se_service env) api inbox nm True)) (io_modify (flush_pending env)))"
    for api inbox nm
    by (intro steady_then steady_call safe_calls steady_helpers)
  then show "told env B v (snd (refresh_selected env s))"
    using t by (auto simp: refresh_selected_def steady_def io_keeps_def split: state.splits option.splits)
qed

lemma steady_check_scope: "steady env (check_scope env api userid identity)"
  unfolding check_scope_def Let_def refuse_invisible_def http_of_def
  by (auto simp del: io_simps intro!: steady_then steady_catch steady_call safe_calls split: cmd_error.split api_error.split)

lemma steady_current_snapshot: "steady env (current_snapshot env api inbox nm)"
  unfolding current_snapshot_def
  by (auto simp del: io_simps intro!: steady_bind steady_call safe_calls split: option.split)

lemma steady_skip [intro]: "steady env m \<Longrightarrow> steady env (skip_vanished m)"
  unfolding skip_vanished_def by (intro steady_catch steady_bind) auto

lemma steady_evaluate:
  assumes "\<And>i. steady env (sc_raw ctx i)" and "\<And>i. steady env (sc_size ctx i)"
  shows "steady env (evaluate lib ctx c i seq)" and "steady env (eval_and lib ctx cs i seq)"
proof -
  have "steady env (eval_date lib ctx nm d i)" "steady env (eval_text lib ctx nm n i)" "steady env (eval_header lib ctx nm n i)"
    for nm d n i
    unfolding eval_date_def eval_text_def eval_header_def Let_def
    using assms by (auto simp del: io_simps intro!: steady_bind split: option.split)
  then show "steady env (evaluate lib ctx c i seq)" and "steady env (eval_and lib ctx cs i seq)"
    using assms
    by (induction lib ctx c i seq and lib ctx cs i seq rule: evaluate_eval_and.induct)
       (auto simp del: io_simps intro!: steady_bind)
qed

lemma steady_search_one:
  "steady env (search_one env (search_context env api inbox sel deleted) crit uid_mode sn target hits)"
  unfolding search_one_def
  by (auto simp del: io_simps intro!: steady_bind steady_skip steady_evaluate steady_call safe_calls
      simp: search_context_def split: prod.split option.split)

lemma steady_list_args: "steady env (list_args label cmd)"
  unfolding list_args_def by (auto simp del: io_simps intro!: steady_bind steady_then)

lemma steady_simple:
  "steady env (capability_cmd env cmd)" "steady env (noop_cmd env cmd)" "steady env (unsupported_cmd msg env cmd)"
  "steady env (list_cmd env cmd)" "steady env (lsub_cmd env cmd)" "steady env (id_cmd env cmd)"
  "steady env (namespace_cmd env cmd)" "steady env (subscribe_cmd env cmd)" "steady env (check_cmd env cmd)"
  "steady env (status_cmd env cmd)" "steady env (append_cmd env cmd)" "steady env (run_search uid_mode args env cmd)"
  unfolding capability_cmd_def noop_cmd_def unsupported_cmd_def list_cmd_def lsub_cmd_def id_cmd_def
    namespace_cmd_def subscribe_cmd_def check_cmd_def status_cmd_def append_cmd_def run_search_def Let_def
  by (auto simp del: io_simps intro!: steady_bind steady_then steady_call safe_calls steady_say steady_say_all steady_refresh
      steady_list_args steady_current_snapshot steady_fold steady_search_one split: prod.split option.split if_splits)

lemma steady_logout: "steady env (logout_cmd env cmd)"
  unfolding logout_cmd_def by (auto simp del: io_simps intro!: steady_then steady_say steady_modify told_state)

lemma steady_expunge:
  "steady env (expunge_deleted env only False)" "steady env (expunge_cmd env cmd)" "steady env (run_uid_expunge args env cmd)"
proof -
  have "steady env (expunge_marked env api inbox nm doomed False)" for api inbox nm doomed
    unfolding expunge_marked_def by (auto simp del: io_simps intro!: steady_bind steady_then steady_call safe_calls)
  then show e: "steady env (expunge_deleted env only False)" for only
    unfolding expunge_deleted_def Let_def
    by (auto simp del: io_simps intro!: steady_bind steady_then split: prod.split option.split)
  show "steady env (expunge_cmd env cmd)" "steady env (run_uid_expunge args env cmd)"
    unfolding expunge_cmd_def run_uid_expunge_def
    by (auto simp del: io_simps intro!: steady_bind steady_then e split: option.split)
qed

text \<open>LOGIN changes the inbox of a session that has selected nothing.\<close>

lemma steady_login: "steady env (login_cmd env cmd)"
  unfolding steady_def
proof (intro allI keeps_leads)
  fix B v
  let ?T = "told env B v" and ?N = "\<lambda>s. told env B v s \<and> ss_state s = NotAuthenticated"
  have keep: "leads ?T ?T m (\<lambda>_. ?T)" if "steady env m" for m :: "('a, 'b) session_io"
    using that by (intro leads_keeps) (auto simp: steady_def)
  have fact: "leads ?T ?N (io_lift r) (\<lambda>_. ?N)" for r :: "cmd_error + 'c"
    by (rule leads_keeps) auto
  have ens: "leads ?T ?N (ensure b e) (\<lambda>_. ?N)" for b e
    by (rule leads_keeps) (auto simp: ensure_def)
  have cred: "leads ?T ?N (io_step (set_credentials env u k)) (\<lambda>_. ?T)" for u k
    by (auto simp: leads_def told_def intro!: told_credentials [unfolded told_def])
  show "leads ?T ?T (login_cmd env cmd) (\<lambda>_. ?T)"
    unfolding login_cmd_def http_of_def
    apply (rule leads_bind [where Q = "\<lambda>st s. told env B v s \<and> ss_state s = st"], rule leads_get, simp)
    subgoal for st
      apply (rule leads_then [where Q = ?N])
       apply (cases "st = NotAuthenticated"; simp add: ensure_def leads_def)
      apply (rule leads_then [OF ens], rule leads_bind [OF fact], rule leads_bind [OF fact], rule leads_then [OF ens],
          rule leads_then [OF ens], rule leads_bind [OF cred])
      apply (rule keep)
      apply (intro steady_bind steady_then steady_call safe_calls steady_check_scope steady_modify steady_say)
       apply (auto intro: told_state)
      done
    done
qed

section \<open>Handlers that work on messages\<close>

text \<open>The item of a snapshot is one the store knows, and stays so, whatever happens to its flags.\<close>

definition same_item :: "item \<Rightarrow> item \<Rightarrow> bool" where
  "same_item i j \<longleftrightarrow> it_uid j = it_uid i \<and> it_key j = it_key i \<and> it_id j = it_id i"

definition items_ok :: "'w service_cfg \<Rightarrow> str \<Rightarrow> str \<Rightarrow> snapshot \<Rightarrow> 'w service \<Rightarrow> bool" where
  "items_ok cfg inbox nm sn sv \<longleftrightarrow> (\<forall>mdef. lookup cfg nm = Some mdef \<longrightarrow>
     (\<forall>i \<in> set (sn_items sn). item_known (sv_store sv) (Box inbox (md_name mdef)) i
        \<and> (md_name mdef = ''Drafts'' \<or> it_key i = it_id i)))"

lemma items_ok_carried: "items_ok cfg inbox nm sn sv \<Longrightarrow> carried cfg sv sv' \<Longrightarrow> items_ok cfg inbox nm sn sv'"
  unfolding items_ok_def carried_def grown_def store_le_def item_known_def by blast

lemma items_ok_latest:
  assumes "healthy cfg sv" and "lookup cfg nm = Some mdef" and "sv_latest sv (Box inbox (md_name mdef)) = Some sn"
  shows "items_ok cfg inbox nm sn sv"
proof -
  have inv: "service_inv sv" and k: "keyed sv"
    using assms(1) by (simp_all add: healthy_def carried_def grown_def service_good_def)
  have "snapshot_ok (sv_store sv) (Box inbox (md_name mdef)) sn" using inv assms(3) by (simp add: service_inv_def)
  moreover have "list_all (\<lambda>i. it_key i = it_id i) (sn_items sn)" if "md_name mdef \<noteq> ''Drafts''"
    using k [unfolded keyed_def, rule_format, of "Box inbox (md_name mdef)"] that assms(3) by (simp add: keyed_box_def)
  ultimately show ?thesis using assms(2) snapshot_item_known by (auto simp: items_ok_def list_all_iff)
qed

text \<open>While a handler works on the items of the snapshot \<open>sn\<close>, the view has the UIDs it had at its start.\<close>

definition at_work :: "'w session_env \<Rightarrow> 'w base \<Rightarrow> view \<Rightarrow> selected \<Rightarrow> str \<Rightarrow> snapshot \<Rightarrow> 'w session \<Rightarrow> bool" where
  "at_work env B v sel inbox sn s \<longleftrightarrow> told env B v s \<and> ss_inbox s = Some inbox
     \<and> map_option sel_uids (ss_selected s) = Some (sel_uids sel)
     \<and> items_ok (se_service env) inbox (sel_name sel) sn (ss_service s)"

lemma at_work_service:
  assumes "at_work env B v sel inbox sn s" and "carried (se_service env) (ss_service s) sv"
  shows "at_work env B v sel inbox sn (s\<lparr>ss_service := sv\<rparr>)"
  using assms told_service [OF _ assms(2)] items_ok_carried [OF _ assms(2)] by (simp add: at_work_def)

lemma work_call: "safe (se_service env) m \<Longrightarrow> io_keeps (at_work env B v sel inbox sn) (service_call env m)"
  unfolding io_keeps_def
proof (intro allI impI)
  fix s assume m: "safe (se_service env) m" and w: "at_work env B v sel inbox sn s"
  have "at_work env B v sel inbox sn (s\<lparr>ss_service := snd (m (ss_service s))\<rparr>)"
    by (rule at_work_service [OF w safe_carried [OF m]]) (use w in \<open>simp add: at_work_def told_def\<close>)
  then show "at_work env B v sel inbox sn (snd (service_call env m s))"
    by (cases "m (ss_service s)") (simp add: service_call_def)
qed

lemma set_flag_same: "set_flag cfg api inbox nm j fl val s = (Inr k, s') \<Longrightarrow> same_item j k"
  unfolding set_flag_def Let_def
  by (auto simp: io_bind_eq io_then_eq relabelled_def same_item_def split: option.splits if_splits)

lemma work_set_flag:
  assumes "i \<in> set (sn_items sn)" and "same_item i j"
  shows "io_post (at_work env B v sel inbox sn) (service_call env (set_flag (se_service env) api inbox (sel_name sel) j fl val))
    (\<lambda>k _. same_item i k)"
  unfolding io_post_def
proof (intro allI impI)
  fix s assume w: "at_work env B v sel inbox sn s"
  let ?cfg = "se_service env" and ?m = "set_flag (se_service env) api inbox (sel_name sel) j fl val"
  obtain r sv where m: "?m (ss_service s) = (r, sv)" by fastforce
  have "carried ?cfg (ss_service s) (ss_service s)" using w by (simp add: at_work_def told_def healthy_def)
  then have "carried ?cfg (ss_service s) (snd (?m (ss_service s)))"
  proof (rule keys.set_flag_kept)
    fix mdef assume "lookup ?cfg (sel_name sel) = Some mdef"
    then show "item_known (sv_store (ss_service s)) (Box inbox (md_name mdef)) j \<and> (md_name mdef = ''Drafts'' \<or> it_key j = it_id j)"
      using w assms by (auto simp: at_work_def items_ok_def same_item_def item_known_def)
  qed
  then have "at_work env B v sel inbox sn (s\<lparr>ss_service := sv\<rparr>)" using at_work_service [OF w] m by simp
  moreover have "same_item i k" if "r = Inr k" for k using set_flag_same m that assms(2) unfolding same_item_def by metis
  ultimately show "at_work env B v sel inbox sn (snd (service_call env ?m s))
      \<and> (\<forall>k. fst (service_call env ?m s) = Inr k \<longrightarrow> same_item i k)"
    by (simp add: service_call_def m split: sum.splits)
qed

lemma work_modify:
  "io_keeps (at_work env B v sel inbox sn) (io_modify (record_flags u fs))"
  "io_keeps (at_work env B v sel inbox sn) (io_modify (flush_out env))"
proof -
  have "at_work env B v sel inbox sn (record_flags u fs s)" if "at_work env B v sel inbox sn s" for s
    using that told_record [of env B v s u fs] by (auto simp: at_work_def record_flags_def split: option.splits)
  moreover have "at_work env B v sel inbox sn (flush_out env s)" if "at_work env B v sel inbox sn s" for s
    using that told_flush [of env B v s]
    by (auto simp: at_work_def flush_out_def abort_def Let_def split: drain_outcome.splits)
  ultimately show "io_keeps (at_work env B v sel inbox sn) (io_modify (record_flags u fs))"
    "io_keeps (at_work env B v sel inbox sn) (io_modify (flush_out env))" by auto
qed

lemma work_mark:
  "io_keeps (at_work env B v sel inbox sn) (on_service (service_set_deleted (se_service env) inbox' nm us val))"
proof -
  have "at_work env B v sel inbox sn (s\<lparr>ss_service := service_set_deleted (se_service env) inbox' nm us val (ss_service s)\<rparr>)"
    if "at_work env B v sel inbox sn s" for s
    by (rule at_work_service [OF that keys.deleted_kept]) (use that in \<open>simp add: at_work_def told_def healthy_def\<close>)
  then show ?thesis by (auto simp: on_service_def)
qed

lemma work_say:
  assumes n: "0 < n" "n \<le> length (sel_uids sel)"
  shows "io_keeps (at_work env B v sel inbox sn) (say (FetchData n ps))"
proof -
  have "at_work env B v sel inbox sn (push (FetchData n ps) s)" if w: "at_work env B v sel inbox sn s" for s
  proof -
    obtain sel' where sel: "ss_selected s = Some sel'" "sel_uids sel' = sel_uids sel" "ss_inbox s = Some inbox"
      using w by (auto simp: at_work_def)
    have "follows env (before B) v (push (FetchData n ps) s)" if fo: "follows env (before B) v s"
    proof -
      obtain out where out: "ss_sent s @ ss_out s = before B @ out" "sensible out v" "agrees (fold client_sees out v) (sel_uids sel')"
          "view_of (se_service env) (ss_service s) inbox sel'" using fo sel unfolding follows_def by blast
      then have "length (fold client_sees out v) = length (sel_uids sel)" using agrees_length sel(2) by metis
      then show ?thesis unfolding follows_def
        by (intro exI [of _ "out @ [FetchData n ps]"]) (use out sel n in \<open>simp add: push_def flip: append_assoc\<close>)
    qed
    then show ?thesis using w by (auto simp: at_work_def told_def push_def)
  qed
  then show ?thesis by (auto simp: say_def)
qed

lemma targets_bound:
  assumes "targets_of uid_mode q sel = Inr ts" and "sel_seq_of sel = sequence_map (sel_uids sel)" and "(n, u) \<in> set ts"
  shows "0 < n \<and> n \<le> length (sel_uids sel)"
proof (cases uid_mode)
  case True
  then have "sel_seq_of sel u = Some n"
    using assms(1,3) by (fastforce simp: targets_of_def emap_Inr_iff list_all2_conv_all_nth in_set_conv_nth split: option.splits)
  then show ?thesis using sequence_map_bound assms(2) by metis
next
  case False
  then show ?thesis using assms(1,3) select_numbers_subset [of q "[1..<length (sel_uids sel) + 1]"]
    by (fastforce simp: targets_of_def simp del: upt_Suc)
qed

lemma work_told: "at_work env B v sel inbox sn s \<Longrightarrow> told env B v s"
  by (simp add: at_work_def)

lemma work_skip: "io_keeps P m \<Longrightarrow> io_keeps P (skip_vanished m)"
  unfolding skip_vanished_def by (intro io_keeps_catch io_keeps_bind) auto

lemma work_map: "(\<And>x. x \<in> set xs \<Longrightarrow> io_keeps P (f x)) \<Longrightarrow> io_keeps P (io_map f xs)"
  unfolding io_map_def by (intro io_keeps_fold io_keeps_bind) auto

lemma work_fetch_one:
  assumes "0 < n" and "n \<le> length (sel_uids sel)"
  shows "io_keeps (at_work env B v sel inbox sn) (fetch_one env api inbox (sel_name sel) attrs sets deleted sn (n, u))"
proof -
  let ?W = "at_work env B v sel inbox sn"
  have tell: "io_keeps ?W (tell_flags u fs)" for fs
    unfolding tell_flags_def by (intro io_keeps_then work_modify io_keeps_basic)
  have part: "io_keeps ?W (fetch_part env api inbox (sel_name sel) deleted u j raw a)" for j raw a
    unfolding fetch_part_def
    by (auto simp del: io_simps intro!: io_keeps_bind tell work_call safe_calls split: option.split)
  have mark: "io_keeps ?W (mark_seen env api inbox (sel_name sel) sets i)" if "i \<in> set (sn_items sn)" for i
    unfolding mark_seen_def using io_keeps_post [OF work_set_flag [OF that, of i]]
    by (auto simp: same_item_def simp del: io_simps intro!: io_keeps_bind)
  have "io_keeps ?W (fetch_item env api inbox (sel_name sel) attrs sets deleted u i)" if "i \<in> set (sn_items sn)" for i
    unfolding fetch_item_def using mark [OF that]
    by (auto simp del: io_simps intro!: io_keeps_bind work_map part tell work_call safe_calls split: prod.split)
  then show ?thesis unfolding fetch_one_def
    by (auto simp del: io_simps intro!: io_keeps_bind io_keeps_then work_skip work_say [OF assms] work_modify
        dest: by_uid_Some split: option.split)
qed

lemma work_store_one:
  assumes "0 < n" and "n \<le> length (sel_uids sel)"
  shows "io_keeps (at_work env B v sel inbox sn)
    (store_one env api inbox (sel_name sel) uid_mode silent mode flags permanent sn (n, u) deleted)"
proof (cases "by_uid sn u")
  case None
  then show ?thesis by (simp add: store_one_def del: io_simps)
next
  case (Some i)
  let ?W = "at_work env B v sel inbox sn"
  have i: "i \<in> set (sn_items sn)" using by_uid_Some [OF Some] by simp
  have "io_post ?W (store_flag env api inbox (sel_name sel) u current wanted flag acc) (\<lambda>acc' _. same_item i (fst acc'))"
    if acc: "same_item i (fst acc)" for current wanted flag acc
  proof -
    obtain j d where j: "acc = (j, d)" by fastforce
    show ?thesis unfolding store_flag_def Let_def j prod.case
      using acc i by (auto simp: j simp del: io_simps intro!: io_post_return io_post_then work_mark
          io_post_bind [where R = "same_item i"] work_set_flag)
  qed
  then have "io_post ?W (io_fold (store_flag env api inbox (sel_name sel) u current wanted) permanent (i, deleted))
      (\<lambda>acc' _. same_item i (fst acc'))" for current wanted
    by (intro io_post_fold) (simp_all add: same_item_def)
  then show ?thesis unfolding store_one_def Some Let_def prod.case option.case
    by (auto simp del: io_simps intro!: io_keeps_bind io_keeps_then io_keeps_when work_modify work_say [OF assms]
        dest: io_keeps_post split: prod.split)
qed

subsection \<open>The commands\<close>

definition chosen :: "'w session_env \<Rightarrow> 'w base \<Rightarrow> view \<Rightarrow> selected \<Rightarrow> str \<Rightarrow> 'w session \<Rightarrow> bool" where
  "chosen env B v sel inbox s \<longleftrightarrow> told env B v s \<and> ss_selected s = Some sel \<and> ss_inbox s = Some inbox"

lemma leads_selected:
  "leads (told env B v) (told env B v) require_selected (\<lambda>sel s. told env B v s \<and> ss_selected s = Some sel)"
  by (auto simp: leads_def require_selected_def split: option.splits)

lemma leads_api:
  "leads (told env B v) (\<lambda>s. told env B v s \<and> ss_selected s = Some sel) need_api (\<lambda>p. chosen env B v sel (snd p))"
  by (auto simp: leads_def need_api_def chosen_def split: option.splits)

lemma leads_stays: "(\<And>s. snd (m s) = s) \<Longrightarrow> leads (told env B v) (chosen env B v sel inbox) m (\<lambda>_. chosen env B v sel inbox)"
  by (rule leads_keeps) (simp_all add: io_keeps_def chosen_def)

lemma leads_snapshot:
  "leads (told env B v) (chosen env B v sel inbox) (current_snapshot env api inbox (sel_name sel)) (at_work env B v sel inbox)"
  unfolding leads_def
proof (intro allI impI)
  fix s assume s: "chosen env B v sel inbox s"
  let ?cfg = "se_service env" and ?m = "sync (se_service env) api inbox (sel_name sel) True"
  have h: "healthy ?cfg (ss_service s)" and t: "told env B v s" using s by (simp_all add: chosen_def told_def)
  show "lands (told env B v) (at_work env B v sel inbox) (current_snapshot env api inbox (sel_name sel) s)"
  proof (cases "latest ?cfg inbox (sel_name sel) (ss_service s)")
    case (Some sn)
    then have "items_ok ?cfg inbox (sel_name sel) sn (ss_service s)"
      using items_ok_latest [OF h] by (auto simp: latest_def items_ok_def split: option.splits)
    then show ?thesis using s Some by (simp add: current_snapshot_def io_bind_def chosen_def at_work_def)
  next
    case None
    then have cs: "current_snapshot env api inbox (sel_name sel) s = service_call env ?m s"
      by (simp add: current_snapshot_def io_bind_def)
    have t': "told env B v (snd (service_call env ?m s))" by (rule told_call [OF _ t]) (rule safe_calls)
    obtain r sv where m: "?m (ss_service s) = (r, sv)" by fastforce
    have sv: "snd (service_call env ?m s) = s\<lparr>ss_service := sv\<rparr>" by (simp add: service_call_def m)
    show ?thesis
    proof (cases "fst (service_call env ?m s)")
      case (Inl e)
      then show ?thesis using t' cs by (metis lands_simps(1) prod.collapse)
    next
      case (Inr sn)
      then have "r = Inr sn" by (auto simp: service_call_def m split: sum.splits if_splits)
      then obtain mdef where look: "lookup ?cfg (sel_name sel) = Some mdef"
        using m by (cases "lookup ?cfg (sel_name sel)") (auto simp: sync_def)
      have good: "service_inv (ss_service s)" "digest_ok (cf_lib ?cfg)"
        using h by (simp_all add: healthy_def carried_def grown_def service_good_def)
      have "sv_latest sv (Box inbox (md_name mdef)) = Some sn"
        using sync_shows_view [OF good look m [unfolded \<open>r = Inr sn\<close>]] by (simp add: Let_def)
      then have "items_ok ?cfg inbox (sel_name sel) sn sv"
        using items_ok_latest [OF _ look] t' sv by (simp add: told_def)
      then have "at_work env B v sel inbox sn (snd (service_call env ?m s))"
        using t' s sv by (simp add: at_work_def chosen_def)
      then show ?thesis using Inr cs by (metis lands_simps(2) prod.collapse)
    qed
  qed
qed

lemma leads_reply: "leads (told env B v) (at_work env B v sel inbox sn) (ok_reply cmd label) (\<lambda>_. told env B v)"
  by (rule leads_pre [OF leads_keeps work_told]) (use steady_helpers(2) [of env cmd label] in \<open>auto simp: steady_def\<close>)

lemma chosen_numbers: "chosen env B v sel inbox s \<Longrightarrow> sel_seq_of sel = sequence_map (sel_uids sel)"
  by (simp add: chosen_def told_def)

lemma steady_working:
  assumes "\<And>B v sel api inbox. sel_seq_of sel = sequence_map (sel_uids sel) \<Longrightarrow>
    leads (told env B v) (chosen env B v sel inbox) (f sel api inbox) (\<lambda>_. told env B v)"
  shows "steady env (io_bind require_selected (\<lambda>sel. io_bind need_api (\<lambda>(api, inbox). f sel api inbox)))"
  unfolding steady_def
proof (intro allI keeps_leads leads_bind [OF leads_selected] leads_bind [OF leads_api])
  fix B v sel and p :: "client \<times> str"
  obtain api inbox where p: "p = (api, inbox)" by fastforce
  show "leads (told env B v) (chosen env B v sel (snd p)) (case p of (api, inbox) \<Rightarrow> f sel api inbox) (\<lambda>_. told env B v)"
    unfolding p prod.case snd_conv by (rule leads_fact, drule chosen_numbers) (rule assms)
qed

lemma leads_targets:
  assumes step: "\<And>n u d acc. 0 < n \<Longrightarrow> n \<le> length (sel_uids sel) \<Longrightarrow>
      io_keeps (at_work env B v sel inbox sn) (step d (n, u) acc)"
    and seq: "sel_seq_of sel = sequence_map (sel_uids sel)"
  shows "leads (told env B v) (at_work env B v sel inbox sn)
    (io_bind (io_lift (targets_of uid_mode q sel)) (\<lambda>targets. io_bind (io_get (session_deleted env)) (\<lambda>d.
      io_bind (io_fold (step d) targets (start d)) (\<lambda>_. ok_reply cmd label)))) (\<lambda>_. told env B v)"
proof (rule leads_bind [OF leads_lift [OF work_told]], assumption, rule leads_fact, elim conjE)
  fix targets assume t: "targets_of uid_mode q sel = Inr targets"
  let ?W = "at_work env B v sel inbox sn"
  have "leads (told env B v) ?W (io_fold (step d) targets (start d)) (\<lambda>_. ?W)" for d
    using targets_bound [OF t seq] by (intro leads_keeps io_keeps_fold) (auto intro: step work_told)
  then show "leads (told env B v) (\<lambda>s. ?W s \<and> targets_of uid_mode q sel = Inr targets)
      (io_bind (io_get (session_deleted env)) (\<lambda>d. io_bind (io_fold (step d) targets (start d)) (\<lambda>_. ok_reply cmd label)))
      (\<lambda>_. told env B v)"
    by (intro leads_bind [OF leads_get [where Q = "\<lambda>_. ?W"]] leads_bind [OF _ leads_reply]) simp_all
qed

lemma steady_fetch: "steady env (run_fetch uid_mode args env cmd)"
  unfolding run_fetch_def Let_def io_then_def
proof (rule steady_working, rule leads_bind [OF leads_stays], simp, goal_cases)
  case (1 B v sel api inbox qa)
  show ?case
    by (cases qa; simp only: prod.case)
       (rule leads_bind [OF leads_snapshot], rule leads_targets [OF _ 1], rule work_fetch_one)
qed

lemma steady_store: "steady env (run_store uid_mode args env cmd)"
  unfolding run_store_def Let_def
proof (rule steady_working, rule leads_bind [OF leads_stays], simp, goal_cases)
  case (1 B v sel api inbox qa)
  obtain mode silent flags q where qa: "qa = (mode, silent, flags, q)" by (cases qa)
  show ?case
    unfolding qa prod.case
  proof (rule leads_then [OF leads_stays], simp add: ensure_def, cases "lookup (se_service env) (sel_name sel)", goal_cases)
    case 1
    then show ?case by (auto simp del: io_simps intro!: leads_raise simp: chosen_def)
  next
    case (2 mdef)
    show ?case unfolding 2 option.case
      by (rule leads_then [OF leads_stays], simp split: option.split, rule leads_bind [OF leads_snapshot],
          rule leads_targets [OF _ \<open>sel_seq_of sel = sequence_map (sel_uids sel)\<close>], rule work_store_one)
  qed
qed

lemma copied_items:
  assumes "at_work env B v sel inbox sn s" and "copy_allowed env moving sel nm = Inr ()" and "i \<in> set (sequence_items sn us)"
  shows "it_key i = it_id i"
proof -
  obtain source where src: "lookup (se_service env) (sel_name sel) = Some source" "md_kind source = Messages"
    using assms(2) by (auto simp: copy_allowed_def split: option.splits if_splits)
  have "table_ok (se_service env)" using assms(1) by (simp add: at_work_def told_def healthy_def carried_def)
  then have "md_name source \<noteq> ''Drafts''" using src by (metis mailbox_kind.distinct(1) table_ok_def)
  moreover have "i \<in> set (sn_items sn)" using assms(3) by (auto simp: sequence_items_def List.map_filter_def dest: by_uid_Some)
  ultimately show ?thesis using assms(1) src(1) by (auto simp: at_work_def items_ok_def)
qed

lemma safe_copy: "(\<And>i. i \<in> set items \<Longrightarrow> it_key i = it_id i) \<Longrightarrow> safe cfg (copy_to_trash cfg api inbox nm items)"
  by (rule safeI) (rule keys.copy_kept)

lemma steady_copy: "steady env (run_copy uid_mode moving args env cmd)"
  unfolding run_copy_def Let_def
proof (rule steady_working, rule leads_bind [OF leads_stays], simp, goal_cases)
  case (1 B v sel api inbox qa)
  obtain nm q where qa: "qa = (nm, q)" by fastforce
  let ?T = "told env B v"
  have allowed: "leads ?T (chosen env B v sel inbox) (io_lift (copy_allowed env moving sel nm))
      (\<lambda>_ s. chosen env B v sel inbox s \<and> copy_allowed env moving sel nm = Inr ())"
    by (cases "copy_allowed env moving sel nm") (simp_all add: leads_def chosen_def)
  have rest: "leads ?T ?T m (\<lambda>_. ?T)" if "steady env m" for m :: "('a, unit) session_io"
    using that by (intro leads_keeps) (auto simp: steady_def)
  show ?case unfolding qa prod.case
  proof (rule leads_then [OF allowed], rule leads_fact, elim conjE, rule leads_pre [where P = "chosen env B v sel inbox"],
      rule leads_bind [OF leads_snapshot], goal_cases)
    case (1 s sn)
    show ?case
    proof (rule leads_fact, rule leads_pre [OF rest work_told], goal_cases)
      case (1 s')
      with \<open>copy_allowed env moving sel nm = Inr ()\<close> show ?case
        by (auto simp del: io_simps intro!: steady_bind steady_then steady_call steady_step steady_say safe_copy safe_calls
              copied_items)
    qed
  qed simp
qed

subsection \<open>CLOSE and SELECT\<close>

lemma push_fields: "ss_service (push r s) = ss_service s" "ss_selected (push r s) = ss_selected s"
  "ss_state (push r s) = ss_state s" "ss_closed (push r s) = ss_closed s"
  by (simp_all add: push_def)

text \<open>CLOSE may drop vanished messages from the view without a word; the view stays behind the service by
  arrivals only.\<close>

definition heard :: "'w session_env \<Rightarrow> 'w base \<Rightarrow> 'w session \<Rightarrow> bool" where
  "heard env B s \<longleftrightarrow> healthy (se_service env) (ss_service s) \<and> carried (se_service env) (found B) (ss_service s)
     \<and> (\<forall>sel. ss_selected s = Some sel \<longrightarrow> sel_seq_of sel = sequence_map (sel_uids sel) \<and> ss_state s \<noteq> NotAuthenticated)
     \<and> (ss_closed s \<or> (\<exists>out. ss_sent s @ ss_out s = before B @ out \<and> list_all unnumbered out) \<and> view_current (se_service env) s)"

lemma told_heard: "told env B v s \<Longrightarrow> ss_sent s @ ss_out s = before B \<Longrightarrow> heard env B s"
  by (auto simp: told_def heard_def follows_def view_current_def)

lemma unnumbered_only: "list_all unnumbered out \<Longrightarrow> sensible out v" "list_all unnumbered out \<Longrightarrow> fold client_sees out v = v"
proof -
  show "list_all unnumbered out \<Longrightarrow> fold client_sees out v = v" by (induction out) (simp_all add: unnumbered_facts)
  show "list_all unnumbered out \<Longrightarrow> sensible out v"
    by (induction out) (auto simp: unnumbered_facts dest: unnumbered_facts(1) [of _ v])
qed

text \<open>Whoever counts the messages of the view is in step with it.\<close>

lemma heard_told:
  assumes "heard env B s" and "\<And>sel. ss_selected s = Some sel \<Longrightarrow> agrees v (sel_uids sel)"
  shows "told env B v s"
proof (cases "ss_closed s")
  case False
  then obtain out where "ss_sent s @ ss_out s = before B @ out" "list_all unnumbered out"
    using assms(1) by (auto simp: heard_def)
  then have "follows env (before B) v s"
    using assms False unnumbered_only unfolding follows_def heard_def view_current_def by metis
  then show ?thesis using assms(1) by (simp add: told_def heard_def)
qed (use assms(1) in \<open>simp add: told_def heard_def\<close>)

lemma heard_call: "safe (se_service env) m \<Longrightarrow> io_keeps (heard env B) (service_call env m)"
  unfolding io_keeps_def
proof (intro allI impI)
  fix s assume m: "safe (se_service env) m" and h: "heard env B s"
  have c: "carried (se_service env) (ss_service s) (snd (m (ss_service s)))"
    using safe_carried [OF m, of "ss_service s"] h by (simp add: heard_def)
  then have "healthy (se_service env) (snd (m (ss_service s)))" "carried (se_service env) (found B) (snd (m (ss_service s)))"
    using h carried_healthy carried_trans by (auto simp: heard_def)
  moreover have "view_current (se_service env) (s\<lparr>ss_service := snd (m (ss_service s))\<rparr>)" if "view_current (se_service env) s"
    using that c view_of_grown by (fastforce simp: view_current_def carried_def)
  ultimately show "heard env B (snd (service_call env m s))"
    using h by (cases "m (ss_service s)") (auto simp: service_call_def heard_def)
qed

lemma heard_push:
  assumes "heard env B s" and "unnumbered r"
  shows "heard env B (push r s)"
proof (cases "ss_closed s")
  case False
  then obtain out where out: "ss_sent s @ ss_out s = before B @ out" "list_all unnumbered out" using assms(1) by (auto simp: heard_def)
  have "ss_sent (push r s) @ ss_out (push r s) = before B @ out @ [r]" using out(1) by (simp add: push_def flip: append_assoc)
  moreover have "list_all unnumbered (out @ [r])" using out(2) assms(2) by simp
  moreover have "view_current (se_service env) (push r s) = view_current (se_service env) s" by (simp add: view_current_def push_def)
  ultimately show ?thesis using assms(1) unfolding heard_def by (metis (no_types, lifting) push_fields)
qed (use assms(1) in \<open>simp add: heard_def push_def\<close>)

lemma prune_view_of:
  assumes "view_of cfg sv inbox sel" and "latest cfg inbox (sel_name sel) sv = Some sn"
  shows "view_of cfg sv inbox (sel\<lparr>sel_uids := filter (\<lambda>u. by_uid sn u \<noteq> None) (sel_uids sel), sel_seq_of := q, sel_view_version := k\<rparr>)"
proof -
  obtain mdef n0 n U where v: "lookup cfg (sel_name sel) = Some mdef" "shown sv (Box inbox (md_name mdef)) = Some (n, U)"
      "n0 \<le> n" "\<forall>u \<in> set (sel_uids sel). u < n0" "\<forall>u \<in> U. u < n0 \<longrightarrow> u \<in> set (sel_uids sel)"
    and srt: "sorted_wrt (<) (sel_uids sel)" using assms(1) unfolding view_of_def by blast
  then have "U = set (snapshot_uids sn)" using assms(2) by (auto simp: latest_def shown_def)
  then show ?thesis unfolding view_of_def
    unfolding by_uid_dom
    by (intro conjI exI [of _ mdef] exI [of _ n0] exI [of _ n] exI [of _ U]) (use v srt in \<open>simp_all add: sorted_wrt_filter\<close>)
qed

lemma heard_prune:
  assumes "heard env B s" and "ss_inbox s = Some inbox" and "\<And>sel. ss_selected s = Some sel \<Longrightarrow> sel_name sel = nm"
  shows "heard env B (prune_view env inbox nm s)"
proof -
  have "view_current (se_service env) (prune_view env inbox nm s)" if "view_current (se_service env) s"
    using that assms(2,3) prune_view_of [of "se_service env" "ss_service s" inbox]
    by (auto simp: prune_view_def view_current_def Let_def simp del: not_None_eq split: option.split)
  then show ?thesis using assms(1) by (auto simp: prune_view_def heard_def Let_def split: option.splits)
qed

lemma heard_state:
  "io_keeps (heard env B) require_selected" "io_keeps (heard env B) need_api" "io_keeps (heard env B) (ensure b e)"
  by (auto simp: io_keeps_def require_selected_def need_api_def ensure_def split: option.splits)

definition closing_of :: "'w session_env \<Rightarrow> 'w base \<Rightarrow> str \<Rightarrow> str \<Rightarrow> 'w session \<Rightarrow> bool" where
  "closing_of env B inbox nm s \<longleftrightarrow>
     heard env B s \<and> ss_inbox s = Some inbox \<and> (\<forall>sel. ss_selected s = Some sel \<longrightarrow> sel_name sel = nm)"

lemma closing_parts:
  "io_keeps (closing_of env B inbox nm) (ensure b e)" "io_keeps (closing_of env B inbox nm) (io_modify (prune_view env inbox nm))"
  "safe (se_service env) m \<Longrightarrow> io_keeps (closing_of env B inbox nm) (service_call env m)"
proof -
  show "io_keeps (closing_of env B inbox nm) (ensure b e)" by (simp add: ensure_def)
  have "closing_of env B inbox nm (prune_view env inbox nm s)" if "closing_of env B inbox nm s" for s
    using that heard_prune [of env B s inbox nm]
    by (auto simp: closing_of_def) (auto simp: prune_view_def Let_def split: option.splits)
  then show "io_keeps (closing_of env B inbox nm) (io_modify (prune_view env inbox nm))" by auto
  assume "safe (se_service env) m"
  then show "io_keeps (closing_of env B inbox nm) (service_call env m)"
    using heard_call [of env m B] by (auto simp: io_keeps_def closing_of_def) (auto simp: service_call_def split: prod.splits)
qed

text \<open>The rest of \<open>expunge_deleted\<close> once the mailbox and the API client are there.\<close>

definition expunge_in :: "'w session_env \<Rightarrow> selected \<Rightarrow> client \<Rightarrow> str \<Rightarrow> ('w, unit) session_io" where
  "expunge_in env sel api inbox = (case lookup (se_service env) (sel_name sel) of
       None \<Rightarrow> io_raise (ApiFailure assertion_error)
     | Some mdef \<Rightarrow>
         io_then (ensure (\<not> sel_read_only sel) (no ''mailbox is read-only'' (Some ''READ-ONLY'')))
         (io_bind (io_get (session_deleted env)) (\<lambda>marked.
          if flag_deleted \<notin> set (md_permanent_flags mdef) then
            ensure (marked = {}) (no ''permanent deletion is not supported; items in this view cannot be expunged''
              (Some ''CANNOT''))
          else (let doomed = sorted_list_of_set (case None of None \<Rightarrow> marked | Some us \<Rightarrow> marked \<inter> us) in
            if doomed = [] then io_return ()
            else expunge_marked env api inbox (sel_name sel) doomed True))))"

lemma heard_expunge: "io_keeps (heard env B) (expunge_deleted env None True)"
proof -
  have marked: "io_keeps (closing_of env B inbox nm) (expunge_marked env api inbox nm doomed True)" for api inbox nm doomed
    unfolding expunge_marked_def
    by (auto simp del: io_simps intro!: io_keeps_bind io_keeps_then closing_parts safe_calls)
  have "heard env B (snd (expunge_deleted env None True s))" if h: "heard env B s" for s
  proof (cases "\<exists>sel api inbox. ss_selected s = Some sel \<and> ss_state s = SelectedState \<and> ss_api s = Some api \<and> ss_inbox s = Some inbox")
    case False
    then have "snd (expunge_deleted env None True s) = s"
      by (cases "ss_selected s"; cases "ss_api s"; cases "ss_inbox s"; cases "ss_state s = SelectedState")
         (simp_all add: expunge_deleted_def io_bind_def require_selected_def need_api_def)
    then show ?thesis using h by simp
  next
    case True
    then obtain sel api inbox where s: "ss_selected s = Some sel" "ss_state s = SelectedState" "ss_api s = Some api" "ss_inbox s = Some inbox"
      by blast
    obtain rest where r: "rest = expunge_in env sel api inbox" by blast
    have "expunge_deleted env None True s = rest s"
      unfolding expunge_deleted_def r expunge_in_def by (simp add: io_bind_def require_selected_def need_api_def s)
    moreover have "io_keeps (closing_of env B inbox (sel_name sel)) rest"
    proof (cases "lookup (se_service env) (sel_name sel)")
      case (Some mdef)
      show ?thesis unfolding r expunge_in_def Some option.case Let_def
        by (intro io_keeps_then io_keeps_bind closing_parts io_keeps_basic) (simp only: if_split closing_parts marked io_keeps_basic simp_thms)
    qed (simp only: r expunge_in_def option.case io_keeps_basic)
    moreover have "closing_of env B inbox (sel_name sel) s" using h s by (simp add: closing_of_def)
    ultimately have "closing_of env B inbox (sel_name sel) (snd (expunge_deleted env None True s))"
      unfolding io_keeps_def by metis
    then show ?thesis by (simp only: closing_of_def)
  qed
  then show ?thesis by (simp add: io_keeps_def)
qed

lemma heard_closing: "io_keeps (heard env B) (close_with_expunge_cmd env cmd)"
proof -
  have "io_keeps (heard env B) (io_modify deselect)" by (auto simp: io_keeps_def heard_def deselect_def view_current_def)
  moreover have "io_keeps (heard env B) (ok_reply cmd ''CLOSE'')"
    unfolding ok_reply_def say_def by (intro io_keeps_modify heard_push) simp_all
  ultimately show ?thesis
    unfolding close_with_expunge_cmd_def
    by (intro io_keeps_bind io_keeps_then io_keeps_when heard_expunge heard_state io_keeps_basic)
qed

lemma heard_close:
  assumes "told env B v s" and "ss_sent s @ ss_out s = before B" and "ss_selected (snd (close_with_expunge_cmd env cmd s)) = None"
  shows "told env B v (snd (close_with_expunge_cmd env cmd s))"
proof (rule heard_told)
  show "heard env B (snd (close_with_expunge_cmd env cmd s))"
    using heard_closing told_heard [OF assms(1,2)] unfolding io_keeps_def by blast
qed (use assms(3) in simp)

text \<open>A successful SELECT starts a new view, told by its EXISTS; a failed one says nothing of messages.\<close>

definition opened :: "'w session_env \<Rightarrow> 'w base \<Rightarrow> 'w session \<Rightarrow> bool" where
  "opened env B s \<longleftrightarrow> told env B [] s \<and> ss_deferred s = [] \<and> (\<exists>out n. ss_sent s @ ss_out s = before B @ out \<and> Exists n \<in> set out)"

definition unsaid :: "'w session_env \<Rightarrow> 'w base \<Rightarrow> view \<Rightarrow> 'w session \<Rightarrow> bool" where
  "unsaid env B v s \<longleftrightarrow> told env B v s \<and> ss_deferred s = [] \<and> ss_sent s @ ss_out s = before B"

lemma unsaid_call: "safe (se_service env) m \<Longrightarrow> io_keeps (unsaid env B v) (service_call env m)"
  using told_call [of env m B v] by (auto simp: io_keeps_def unsaid_def service_call_def split: prod.splits)

lemma select_says:
  assumes uids: "uids = snapshot_uids sn" and out: "out = select_responses sn uids read_only mdef @ [Tagged tag ''OK'' t c]"
  shows "sensible out []" and "agrees (fold client_sees out []) uids" and "Exists (length uids) \<in> set out"
  unfolding out by (simp_all add: select_responses_def agrees_def list_all2_conv_all_nth split: option.split)

lemma apply_snapshot_opened:
  assumes u: "unsaid env B v s" and inbox: "ss_inbox s = Some inbox" and look: "lookup (se_service env) (md_name mdef) = Some mdef"
    and sn: "sv_latest (ss_service s) (Box inbox (md_name mdef)) = Some sn"
  shows "opened env B (push (Tagged tag ''OK'' t c) (fold push (select_responses sn (snapshot_uids sn) ro mdef)
    (apply_snapshot env inbox sn ro s)))"
proof -
  let ?s = "apply_snapshot env inbox sn ro s" and ?out = "select_responses sn (snapshot_uids sn) ro mdef @ [Tagged tag ''OK'' t c]"
  have pushes: "push (Tagged tag ''OK'' t c) (fold push rs s') = s'\<lparr>ss_out := ss_out s' @ rs @ [Tagged tag ''OK'' t c]\<rparr>" for rs s'
    by (induction rs arbitrary: s') (simp_all add: push_def)
  have inv: "service_inv (ss_service s)" and h: "healthy (se_service env) (ss_service s)"
    using u by (simp_all add: unsaid_def told_def healthy_def carried_def grown_def service_good_def)
  have "snapshot_ok (sv_store (ss_service s)) (Box inbox (md_name mdef)) sn" using inv sn by (simp add: service_inv_def)
  then have nm: "sn_name sn = md_name mdef" by (simp add: snapshot_ok_def)
  define sel where "sel = from_snapshot sn ro (service_deleted (se_service env) inbox (sn_name sn) (ss_service s))"
  have s: "?s = s\<lparr>ss_selected := Some sel, ss_state := SelectedState\<rparr>" by (simp add: apply_snapshot_def sel_def Let_def)
  have sel: "sel_uids sel = snapshot_uids sn" "sel_name sel = md_name mdef" "sel_seq_of sel = sequence_map (snapshot_uids sn)"
    by (simp_all add: sel_def from_snapshot_def Let_def nm)
  have "view_of (se_service env) (ss_service s) inbox sel"
    by (rule view_of_snapshot [OF inv _ sn sel(1)]) (simp add: sel look)
  then have "follows env (before B) [] (s\<lparr>ss_selected := Some sel, ss_state := SelectedState, ss_out := ss_out s @ ?out\<rparr>)"
    unfolding follows_def using u inbox select_says [OF refl refl, of sn ro mdef tag t c]
    by (intro exI [of _ ?out]) (simp add: unsaid_def sel flip: append_assoc)
  then show ?thesis
    unfolding pushes s opened_def using h u sel select_says(3) [OF refl refl, of sn ro mdef tag t c]
    by (auto simp: told_def unsaid_def intro!: exI [of _ ?out] exI [of _ "length (snapshot_uids sn)"])
qed

lemma say_all_fold: "say_all rs s = (Inr (), fold push rs s)"
  unfolding say_all_def by (induction rs arbitrary: s) (simp_all add: say_def)

lemma select_opens:
  "leads (unsaid env B v) (unsaid env B v) (select_mailbox read_only env cmd) (\<lambda>_. opened env B)"
proof -
  let ?U = "unsaid env B v"
  have stay: "leads ?U ?U m (\<lambda>_. ?U)" if "\<And>s. snd (m s) = s" for m :: "('a, 'b) session_io"
    using that by (intro leads_keeps) (simp_all add: io_keeps_def)
  have desel: "leads ?U ?U (io_modify deselect) (\<lambda>_. ?U)"
  proof (rule leads_keeps)
    have "?U (deselect s)" if "?U s" for s using that told_deselect [of env B v s] by (simp add: unsaid_def deselect_def)
    then show "io_keeps ?U (io_modify deselect)" by blast
  qed
  have api: "leads ?U ?U need_api (\<lambda>p s. ?U s \<and> ss_inbox s = Some (snd p))"
    by (auto simp: leads_def need_api_def split: option.splits)
  have found: "lookup (se_service env) (md_name mdef) = Some mdef"
    if "lookup (se_service env) nm = Some mdef" "?U s" for nm mdef s
    using that by (simp add: unsaid_def told_def healthy_def carried_def table_ok_def)
  have listed: "leads ?U (\<lambda>s. ?U s \<and> ss_inbox s = Some inbox) (service_call env (sync (se_service env) a inbox (md_name mdef) True))
      (\<lambda>sn s. ?U s \<and> ss_inbox s = Some inbox \<and> sv_latest (ss_service s) (Box inbox (md_name mdef)) = Some sn)"
    if look: "lookup (se_service env) (md_name mdef) = Some mdef" for a inbox mdef
    unfolding leads_def
  proof (intro allI impI)
    fix s assume s: "?U s \<and> ss_inbox s = Some inbox"
    let ?m = "sync (se_service env) a inbox (md_name mdef) True"
    obtain r sv where m: "?m (ss_service s) = (r, sv)" by fastforce
    have "?U (snd (service_call env ?m s))"
      using unsaid_call [OF safe_operations(1)] s unfolding io_keeps_def by blast
    then have u: "?U (s\<lparr>ss_service := sv\<rparr>)" by (simp add: service_call_def m)
    have good: "service_inv (ss_service s)" "digest_ok (cf_lib (se_service env))"
      using s by (simp_all add: unsaid_def told_def healthy_def carried_def grown_def service_good_def)
    have "sv_latest sv (Box inbox (md_name mdef)) = Some sn" if "r = Inr sn" for sn
      using sync_shows_view [OF good look m [unfolded that]] by (simp add: Let_def)
    then show "lands ?U (\<lambda>sn s. ?U s \<and> ss_inbox s = Some inbox \<and> sv_latest (ss_service s) (Box inbox (md_name mdef)) = Some sn)
        (service_call env ?m s)"
      using u s by (cases r) (simp_all add: service_call_def m)
  qed
  have last: "leads ?U (\<lambda>s. ?U s \<and> ss_inbox s = Some inbox \<and> sv_latest (ss_service s) (Box inbox (md_name mdef)) = Some sn)
      (io_then (io_modify (apply_snapshot env inbox sn read_only))
        (io_then (say_all (select_responses sn (snapshot_uids sn) read_only mdef))
          (say (Tagged tag ''OK'' t c)))) (\<lambda>_. opened env B)"
    if "lookup (se_service env) (md_name mdef) = Some mdef" for inbox mdef sn tag t c
    using apply_snapshot_opened [OF _ _ that] by (auto simp: leads_def io_then_def io_bind_def say_all_fold say_def)
  show ?thesis
    unfolding select_mailbox_def
  proof (rule leads_then [OF stay], simp add: require_state_def, rule leads_then [OF stay], simp add: ensure_def,
      rule leads_bind [OF stay], simp, rule leads_then [OF desel], rule leads_fact, goal_cases)
    case (1 nm s)
    show ?case
    proof (cases "lookup (se_service env) nm")
      case None
      then show ?thesis by (auto simp del: io_simps intro!: leads_raise)
    next
      case (Some mdef)
      note look = found [OF Some 1]
      show ?thesis unfolding Some option.case
        by (rule leads_bind [OF api], simp only: split_beta, rule leads_bind [OF listed [OF look]], rule last [OF look])
    qed
  qed
qed

section \<open>Whole sessions\<close>

text \<open>
  The client reads the responses to a command starting from its view, or from an empty one when they announce
  the mailbox it has asked to open.
\<close>

fun is_exists :: "response \<Rightarrow> bool" where
  "is_exists (Exists _) = True"
| "is_exists _ = False"

definition opens :: "command \<Rightarrow> response list \<Rightarrow> bool" where
  "opens cmd new \<longleftrightarrow> cmd_name cmd \<in> {''SELECT'', ''EXAMINE''} \<and> list_ex is_exists new"

definition view_start :: "command \<Rightarrow> response list \<Rightarrow> view \<Rightarrow> view" where
  "view_start cmd new v = (if opens cmd new then [] else v)"

definition view_after :: "command \<Rightarrow> response list \<Rightarrow> view \<Rightarrow> view" where
  "view_after cmd new v = fold client_sees new (view_start cmd new v)"

abbreviation said :: "'w session \<Rightarrow> response list" where "said s \<equiv> ss_sent s @ ss_out s"

lemma opens_iff: "opens cmd new \<longleftrightarrow> cmd_name cmd \<in> {''SELECT'', ''EXAMINE''} \<and> (\<exists>n. Exists n \<in> set new)"
proof -
  have "is_exists r = (\<exists>n. r = Exists n)" for r by (cases r) auto
  then show ?thesis by (auto simp: opens_def list_ex_iff)
qed

lemma told_conclude: "told env B v s \<Longrightarrow> told env B v (conclude env cmd e s)"
  using failure_reply_cases [of env cmd "ss_state s" e]
  by (auto simp: conclude_def intro!: told_push told_state)

lemma told_drop: "told env B v s \<Longrightarrow> told env B v (drop_failed_login s)"
  by (simp add: drop_failed_login_def told_clear)

lemma told_followup: "told env B v s \<Longrightarrow> told env B v (run_followup env task s)"
  using told_service [OF _ safe_carried [OF safe_operations(1)], of env B v s] by (simp add: run_followup_def told_def)

lemma told_deferred: "told env B v s \<Longrightarrow> told env B v (run_deferred env s)"
proof -
  assume t: "told env B v s"
  have "told env B v (fold (run_followup env) ts s')" if "told env B v s'" for ts s'
    using that by (induction ts arbitrary: s') (simp_all add: told_followup)
  then have "told env B v (fold (run_followup env) (ss_deferred s) (s\<lparr>ss_deferred := []\<rparr>))" using t by simp
  then show ?thesis by (simp add: run_deferred_def Let_def told_flush told_flush_pending)
qed

lemma deferred_done: "ss_deferred (run_deferred env s) = []"
proof -
  have f: "ss_deferred (fold (run_followup env) ts s') = ss_deferred s'" for ts and s' :: "'a session"
    by (induction ts arbitrary: s') (simp_all add: run_followup_def)
  show ?thesis
    by (auto simp: run_deferred_def Let_def f flush_out_def abort_def flush_pending_def split: drain_outcome.split option.split prod.split)
qed

text \<open>Every handler but SELECT, EXAMINE and CLOSE.\<close>

lemma steady_handlers:
  assumes "(nm, h) \<in> set handler_list" and "nm \<notin> {''SELECT'', ''EXAMINE'', ''CLOSE''}"
  shows "steady env (h env cmd)"
proof -
  have uid: "steady env (uid_cmd env cmd)"
    unfolding uid_cmd_def uid_handlers_def
    by (auto simp del: io_simps intro!: steady_bind steady_fetch steady_simple steady_store steady_expunge steady_copy
        split: option.split if_splits)
  show ?thesis
    using assms unfolding handler_list_def list.set insert_iff empty_iff prod.inject
    by (elim disjE conjE; simp add: steady_simple steady_logout steady_login steady_expunge steady_fetch steady_store
        steady_copy uid fetch_cmd_def search_cmd_def store_cmd_def copy_cmd_def move_cmd_def)
qed

text \<open>Between two commands: nothing is deferred, and the client has read everything.\<close>

definition synced :: "'w session_env \<Rightarrow> view \<Rightarrow> 'w session \<Rightarrow> bool" where
  "synced env v s \<longleftrightarrow> told env (Base (ss_service s) (said s)) v s \<and> ss_deferred s = []"

lemma told_synced:
  assumes "told env (Base sv B) v s" and "said s = B @ new" and "ss_deferred s = []"
  shows "synced env (fold client_sees new v) s" and "ss_closed s \<or> sensible new v"
  using assms by (auto simp: synced_def told_def follows_def healthy_carried)

lemma deferred_selected: "ss_selected (run_deferred env s) = None \<longleftrightarrow> ss_selected s = None"
proof -
  have f: "ss_selected (fold (run_followup env) ts s') = ss_selected s'" for ts and s' :: "'a session"
    by (induction ts arbitrary: s') (simp_all add: run_followup_def)
  have p: "ss_selected (flush_out env (flush_pending env s')) = None \<longleftrightarrow> ss_selected s' = None" for s'
    by (auto simp: flush_out_def abort_def Let_def flush_pending_def split: drain_outcome.split option.split prod.split)
  show ?thesis by (simp add: run_deferred_def Let_def f p)
qed

lemma after_handler_selected:
  "ss_selected (conclude env cmd e s) = ss_selected s" "ss_selected (drop_failed_login s) = ss_selected s"
  by (simp_all add: conclude_def drop_failed_login_def clear_credentials_def Let_def push_def split: prod.split)

lemma no_deferred: "ss_deferred s = [] \<Longrightarrow> said (run_deferred env s) = said s"
  by (simp add: run_deferred_def Let_def)

lemma said_drop: "said (drop_failed_login s) = said s" "ss_deferred (drop_failed_login s) = ss_deferred s"
  by (simp_all add: drop_failed_login_def clear_credentials_def Let_def)

lemma told_settled:
  assumes "told env B w s1"
  shows "told env B w (run_deferred env (drop_failed_login (concluded env cmd (r, s1))))"
  using told_conclude [OF assms] assms by (cases r) (simp_all add: told_deferred told_drop)

lemma handlers_mem: "handlers (cmd_name cmd) = Some h \<Longrightarrow> (cmd_name cmd, h) \<in> set handler_list"
  by (simp add: handlers_def map_of_SomeD)

lemma dispatch_undeferred: "ss_deferred s = [] \<Longrightarrow> ss_deferred (dispatch env hs cmd s) = []"
  by (cases rule: dispatch_cases [of hs cmd env s]) (simp_all add: push_def deferred_done)

text \<open>SELECT and EXAMINE: a client that sees EXISTS starts anew, and it sees it exactly when the mailbox is open.\<close>

lemma select_told:
  assumes u: "unsaid env B v s" and run: "select_mailbox ro env cmd s = (r, s1)" and nm: "cmd_name cmd \<in> {''SELECT'', ''EXAMINE''}"
    and fin: "s' = run_deferred env (drop_failed_login (concluded env cmd (r, s1)))" and new: "said s' = before B @ new"
  shows "told env B (view_start cmd new v) s'"
proof -
  have l: "lands (unsaid env B v) (\<lambda>_. opened env B) (r, s1)"
    using select_opens [of env B v ro cmd] run u unfolding leads_def by metis
  show ?thesis
  proof (cases r)
    case (Inr x)
    then have o: "told env B [] s1" "ss_deferred s1 = []" "\<exists>out n. said s1 = before B @ out \<and> Exists n \<in> set out"
      using l by (simp_all add: opened_def)
    have "said s' = said s1" using no_deferred [of "drop_failed_login s1" env] o(2) by (simp add: fin Inr said_drop)
    then have "opens cmd new" using o(3) new nm by (auto simp: opens_iff)
    then show ?thesis using told_settled [OF o(1)] by (simp add: view_start_def fin)
  next
    case (Inl e)
    then have k: "told env B v s1" "ss_deferred s1 = []" "said s1 = before B" using l by (simp_all add: unsaid_def)
    let ?s2 = "conclude env cmd e s1"
    obtain rr where rr: "said ?s2 = said s1 @ [rr]" "unnumbered rr" "ss_deferred ?s2 = ss_deferred s1"
      using failure_reply_cases [of env cmd "ss_state s1" e] by (auto simp: conclude_def push_def)
    have "said s' = before B @ [rr]" using no_deferred [of "drop_failed_login ?s2" env] rr k by (simp add: fin Inl said_drop)
    then have "\<not> opens cmd new" using new rr(2) by (cases rr) (auto simp: opens_def)
    then show ?thesis using told_settled [OF k(1)] by (simp add: view_start_def fin)
  qed
qed

text \<open>One command: the client that reads its responses is in step again.\<close>

lemma dispatch_told:
  assumes sy: "synced env v s" and close: "cmd_name cmd = ''CLOSE'' \<Longrightarrow> ss_selected (dispatch env handlers cmd s) = None"
    and new: "said (dispatch env handlers cmd s) = said s @ new"
  shows "told env (Base (ss_service s) (said s)) (view_start cmd new v) (dispatch env handlers cmd s)" (is "told _ ?B _ ?s'")
proof (cases rule: dispatch_cases [of handlers cmd env s])
  case unknown
  then have "\<not> opens cmd new" using new by (auto simp: push_def opens_def)
  then show ?thesis using told_push [of env ?B v s] sy by (simp add: unknown(2) view_start_def synced_def)
next
  case (known h r s1)
  have t: "told env ?B v (timed env s)" "unsaid env ?B v (timed env s)" using sy by (simp_all add: synced_def unsaid_def)
  consider "cmd_name cmd \<notin> {''SELECT'', ''EXAMINE'', ''CLOSE''}" | "cmd_name cmd = ''CLOSE''"
    | ro where "cmd_name cmd \<in> {''SELECT'', ''EXAMINE''}" "h = select_mailbox ro"
  proof -
    have "h = select_mailbox False \<or> h = select_mailbox True" if "cmd_name cmd \<in> {''SELECT'', ''EXAMINE''}"
      using known(1) that by (auto simp: handlers_def handler_list_def select_cmd_def examine_cmd_def)
    then show ?thesis using that by blast
  qed
  then show ?thesis
  proof cases
    case 1
    then have "told env ?B v s1"
      using steady_handlers [OF handlers_mem [OF known(1)], of env cmd] t(1) known(2) unfolding steady_def io_keeps_def by (metis snd_conv)
    then show ?thesis using told_settled known(3) 1 by (simp add: view_start_def opens_def)
  next
    case 2
    then have hc: "h = close_with_expunge_cmd" using known(1) by (simp add: handlers_def handler_list_def)
    have "ss_selected s1 = None"
      using close [OF 2] by (cases r) (simp_all add: known(3) deferred_selected after_handler_selected)
    then have "told env ?B v s1" using heard_close [OF t(1), of cmd] known(2) hc by simp
    then show ?thesis using told_settled known(3) 2 by (simp add: view_start_def opens_def)
  next
    case 3
    then show ?thesis using select_told [OF t(2) _ 3(1) known(3)] known(2) new by simp
  qed
qed

text \<open>
  The histories of one session: its commands and other responses, what it writes to the client, and the work of
  other sessions on the service, in any order, with the view of a client that reads everything. A CLOSE that
  fails may have renumbered the view in silence, so histories end there.
\<close>

inductive history :: "'w session_env \<Rightarrow> 'w session \<Rightarrow> view \<Rightarrow> bool" for env where
  start: "healthy (se_service env) sv \<Longrightarrow> history env (new_session env sv red) []"
| others: "history env s v \<Longrightarrow> carried (se_service env) (ss_service s) sv \<Longrightarrow> history env (s\<lparr>ss_service := sv\<rparr>) v"
| says: "history env s v \<Longrightarrow> unnumbered r \<Longrightarrow> history env (push r s) v"
| writes: "history env s v \<Longrightarrow> history env (flush_out env s) v"
| obeys: "history env s v \<Longrightarrow> \<not> ss_closed s \<Longrightarrow> said (dispatch env handlers cmd s) = said s @ new \<Longrightarrow>
    (cmd_name cmd = ''CLOSE'' \<longrightarrow> ss_selected (dispatch env handlers cmd s) = None) \<Longrightarrow>
    history env (dispatch env handlers cmd s) (view_after cmd new v)"

lemma synced_step:
  assumes "synced env v s" and "\<And>B w. told env B w s \<Longrightarrow> told env B w s'" and "ss_deferred s' = ss_deferred s"
    and "ss_closed s' \<or> (\<exists>new. said s' = said s @ new \<and> list_all unnumbered new)"
  shows "synced env v s'"
proof -
  have t: "told env (Base (ss_service s) (said s)) v s'" "ss_deferred s' = []" using assms by (simp_all add: synced_def)
  show ?thesis
  proof (cases "ss_closed s'")
    case True
    then show ?thesis using t by (simp add: synced_def told_def healthy_carried)
  next
    case False
    then obtain new where new: "said s' = said s @ new" "list_all unnumbered new" using assms(4) by blast
    have "fold client_sees new v = v" using new(2) by (induction new) (simp_all add: unnumbered_facts)
    then show ?thesis using told_synced(1) [OF t(1) new(1) t(2)] by simp
  qed
qed

lemma history_synced: "history env s v \<Longrightarrow> synced env v s"
proof (induction rule: history.induct)
  case (start sv red)
  then show ?case by (simp add: synced_def told_def follows_def new_session_def healthy_carried)
next
  case (others s v sv)
  show ?case
    by (rule synced_step [OF others.IH], rule told_service [OF _ others.hyps(2)]) simp_all
next
  case (says s v r)
  then show ?case by (intro synced_step [OF says.IH] told_push) (auto simp: push_def)
next
  case (writes s v)
  then show ?case
    by (intro synced_step [OF writes.IH] told_flush)
       (auto simp: flush_out_def abort_def Let_def split: drain_outcome.split)
next
  case (obeys s v cmd new)
  have "ss_deferred s = []" using obeys.IH by (simp add: synced_def)
  then show ?case
    using told_synced(1) [OF dispatch_told [OF obeys.IH _ obeys.hyps(3)] obeys.hyps(3) dispatch_undeferred] obeys.hyps(4)
    by (simp add: view_after_def)
qed


section \<open>What a command does to the service\<close>

lemma agreeing: "\<exists>v. \<forall>sel. ss_selected s = Some sel \<longrightarrow> agrees v (sel_uids sel)"
  by (rule exI [of _ "case ss_selected s of None \<Rightarrow> [] | Some sel \<Rightarrow> map Some (sel_uids sel)"])
     (auto simp: agrees_def list_all2_map1 list_all2_refl)

text \<open>Some client is in step with the session after any handler, a failing CLOSE included.\<close>

lemma handler_view:
  assumes "(nm, h) \<in> set handler_list" and "told env (Base sv (said s)) v s" and "ss_deferred s = []"
  obtains w where "told env (Base sv (said s)) w (snd (h env cmd s))"
proof -
  consider "nm \<notin> {''SELECT'', ''EXAMINE'', ''CLOSE''}" | "nm = ''CLOSE''" | ro where "h = select_mailbox ro"
    using assms(1) by (auto simp: handler_list_def select_cmd_def examine_cmd_def)
  then show ?thesis
  proof cases
    case 1
    then have "told env (Base sv (said s)) v (snd (h env cmd s))"
      using steady_handlers [OF assms(1), of env cmd] assms(2) unfolding steady_def io_keeps_def by blast
    then show ?thesis by (rule that)
  next
    case 2
    then have "h = close_with_expunge_cmd" using assms(1) by (simp add: handler_list_def)
    moreover have "heard env (Base sv (said s)) (snd (close_with_expunge_cmd env cmd s))"
      using told_heard [OF assms(2)] heard_closing unfolding io_keeps_def by (metis base.sel(2))
    ultimately show ?thesis using that heard_told agreeing by metis
  next
    case 3
    obtain r s1 where h: "h env cmd s = (r, s1)" by fastforce
    have "unsaid env (Base sv (said s)) v s" using assms(2,3) by (simp add: unsaid_def)
    then have "lands (unsaid env (Base sv (said s)) v) (\<lambda>_. opened env (Base sv (said s))) (r, s1)"
      using select_opens [of env "Base sv (said s)" v ro cmd] h 3 unfolding leads_def by metis
    then show ?thesis using that by (cases r) (auto simp: h unsaid_def opened_def)
  qed
qed

lemma dispatch_view:
  assumes "synced env v s"
  obtains w where "told env (Base (ss_service s) (said s)) w (dispatch env handlers cmd s)"
    "ss_deferred (dispatch env handlers cmd s) = []"
proof (cases rule: dispatch_cases [of handlers cmd env s])
  case unknown
  have t: "told env (Base (ss_service s) (said s)) v s" "ss_deferred s = []" using assms by (simp_all add: synced_def)
  show ?thesis
    by (rule that [of v]) (use told_push [OF t(1)] t(2) in \<open>simp_all add: unknown(2) dispatch_undeferred\<close>, simp add: push_def)
next
  case (known h r s1)
  have "told env (Base (ss_service s) (said s)) v (timed env s)" "ss_deferred (timed env s) = []"
    using assms by (simp_all add: synced_def)
  then obtain w where "told env (Base (ss_service s) (said s)) w s1"
    using handler_view [OF handlers_mem [OF known(1)], of env "ss_service s" "timed env s" v cmd] known(2) by auto
  from told_settled [OF this] show ?thesis by (intro that [of w]) (simp_all only: known(3) deferred_done)
qed

lemma dispatch_carried:
  assumes "synced env v s"
  shows "carried (se_service env) (ss_service s) (ss_service (dispatch env handlers cmd s))"
  by (rule dispatch_view [OF assms, of cmd]) (simp add: told_def)

text \<open>What a command leaves: the connection is gone, or it has answered and a client is in step with it, namely the
  one that was and has read the answer, unless a CLOSE has failed.\<close>

lemma dispatch_next:
  assumes "synced env v s"
  shows "ss_closed (dispatch env handlers cmd s) \<or> (\<exists>new w. said (dispatch env handlers cmd s) = said s @ new
     \<and> synced env w (dispatch env handlers cmd s)
     \<and> ((cmd_name cmd = ''CLOSE'' \<longrightarrow> ss_selected (dispatch env handlers cmd s) = None) \<longrightarrow> w = view_after cmd new v))"
proof (cases "ss_closed (dispatch env handlers cmd s)")
  let ?s' = "dispatch env handlers cmd s"
  case False
  then have up: "\<not> ss_closed ?s'" by simp
  obtain w where w: "told env (Base (ss_service s) (said s)) w ?s'" "ss_deferred ?s' = []"
    by (rule dispatch_view [OF assms, of cmd])
  then obtain new where new: "said ?s' = said s @ new" using up by (auto simp: told_def follows_def)
  have "synced env (view_after cmd new v) ?s'" if "cmd_name cmd = ''CLOSE'' \<longrightarrow> ss_selected ?s' = None"
    using told_synced(1) [OF dispatch_told [OF assms _ new] new w(2)] that by (simp add: view_after_def)
  then show ?thesis using new told_synced(1) [OF w(1) new w(2)] by blast
qed simp

end
