(* ===== verification/Mailbox_Guarantees.thy ===== *)
theory Mailbox_Guarantees
  imports Mailbox_Sync
begin

text \<open>
  What the mailbox service asks of the API when it removes items, and a small concrete instance (an API
  that answers by method, a mail library of constants, an empty store) on which the guarantees of
  \<open>Mailbox_Sync\<close> are applied: their hypotheses hold there.
\<close>

subsection \<open>Removal is soft\<close>

definition logs_only :: "(http_request \<Rightarrow> bool) \<Rightarrow> ('w \<times> http_log list) service \<Rightarrow> bool" where
  "logs_only R s \<longleftrightarrow> (\<forall>q a. Sent q a \<in> set (snd (sv_world s)) \<longrightarrow> R q)"

lemma logs_only_env:
  assumes "cf_http cfg = recording env"
  shows "env_keeps (logs_only R) R (service_http cfg)"
  by (auto simp: env_keeps_def service_http_def assms recording_def logs_only_def Let_def split: prod.splits)

lemma logs_only_frame [simp]:
  "logs_only R (hold_labels cfg inbox mid l s) = logs_only R s" "logs_only R (unpin b k s) = logs_only R s"
  "logs_only R (bump b s) = logs_only R s"
  by (simp_all add: logs_only_def hold_labels_def unpin_def bump_def)

text \<open>The requests a removal may send for the given items.\<close>

definition removal_request :: "client \<Rightarrow> str \<Rightarrow> mailbox_kind \<Rightarrow> item set \<Rightarrow> http_request \<Rightarrow> bool" where
  "removal_request api inbox k items q \<longleftrightarrow> (\<exists>i \<in> items. case k of
     Messages \<Rightarrow> api_call api ''PATCH'' (message_path inbox (it_id i))
       (Some (JObj [(''add_labels'', JList [JStr ''trash''])])) q
   | DraftItems \<Rightarrow> api_call api ''GET'' (draft_path inbox (it_id i)) None q
       \<or> api_call api ''DELETE'' (draft_path inbox (it_id i)) None q)"

lemma remove_one_logs:
  assumes "cf_http cfg = recording env" and "i \<in> items"
  shows "io_keeps (logs_only (removal_request api inbox (md_kind mdef) items)) (remove_one cfg api inbox mdef i acc)"
proof -
  let ?L = "logs_only (removal_request api inbox (md_kind mdef) items)"
  note env = logs_only_env [OF assms(1), of "removal_request api inbox (md_kind mdef) items"]
  show ?thesis
  proof (cases "md_kind mdef")
    case Messages
    have "io_keeps ?L (update_labels api (service_http cfg) inbox (it_id i) [''trash''] [])"
      unfolding update_labels_def
      by (rule api_json_keeps [OF env]) (use assms(2) Messages in \<open>auto simp: removal_request_def\<close>)
    then have "io_keeps ?L (trash_message cfg api inbox i)"
      unfolding trash_message_def by (intro io_keeps_bind io_keeps_basic io_keeps_modify) simp_all
    then show ?thesis unfolding remove_one_def
      by (auto simp: Messages simp del: io_simps intro!: io_keeps_bind io_keeps_try)
  next
    case DraftItems
    have "io_keeps ?L (fetch_draft cfg api inbox (it_id i))"
      unfolding fetch_draft_def get_draft_def
      by (rule api_json_keeps [OF env]) (use assms(2) DraftItems in \<open>auto simp: removal_request_def\<close>)
    moreover have "io_keeps ?L (delete_draft api (service_http cfg) inbox (it_id i))"
      unfolding delete_draft_def
      by (intro io_keeps_then io_keeps_basic, rule api_request_keeps [OF env])
         (use assms(2) DraftItems in \<open>auto simp: removal_request_def\<close>)
    ultimately have "io_keeps ?L (remove_draft cfg api inbox mdef i)"
      unfolding remove_draft_def
      by (auto simp del: io_simps intro!: io_keeps_then io_keeps_bind io_keeps_modify)
    then show ?thesis unfolding remove_one_def
      by (auto simp: DraftItems simp del: io_simps intro!: io_keeps_bind io_keeps_try)
  qed
qed

fun sent_requests :: "http_log list \<Rightarrow> http_request list" where
  "sent_requests [] = []"
| "sent_requests (Sent q a # lg) = q # sent_requests lg"
| "sent_requests (Slept t d # lg) = sent_requests lg"

lemma set_sent_requests: "set (sent_requests lg) = {q. \<exists>a. Sent q a \<in> set lg}"
  by (induction lg rule: sent_requests.induct) auto


subsection \<open>A small instance\<close>

text \<open>An API that answers every request by its method, a mail library of constants, an empty service.\<close>

definition demo_json :: "bytes \<Rightarrow> json option" where
  "demo_json body = Some (JObj
     (if body = ''GET'' then [(''messages'', JList [JObj [(''message_id'', JStr ''m1''), (''size'', JInt 5),
        (''labels'', JList [JStr ''received''])]]), (''drafts'', JList []), (''message_id'', JStr ''m1''), (''size'', JInt 3),
        (''download_url'', JStr ''http://raw'')]
      else if body = ''PATCH'' then [] else [(''draft_id'', JStr ''d1'')]))"

definition demo_client :: client where
  "demo_client = \<lparr>cl_base = ''http://api'', cl_api_key = ''k'', cl_max_attempts = 1, cl_retry_budget = 0,
     cl_backoff_base = 0, cl_loads = demo_json, cl_dumps = (\<lambda>_. []), cl_repr = (\<lambda>_. [])\<rparr>"

definition demo_http :: "unit http_env" where
  "demo_http = \<lparr>he_request = (\<lambda>q w. (Inr \<lparr>rs_status = 200, rs_headers = [], rs_body = hr_method q\<rparr>, w)),
     he_time = (\<lambda>_. 0), he_sleep = (\<lambda>_ w. w), he_rng = (\<lambda>w. (0, w))\<rparr>"

definition demo_lib :: email_lib where
  "demo_lib = \<lparr>el_render = (\<lambda>_ t. Some t), el_sha256 = (\<lambda>_. replicate 16 (CHR ''0'')), el_format_date = (\<lambda>_. []),
     el_fromisoformat = (\<lambda>_. None), el_parse = (\<lambda>_. None), el_html_events = (\<lambda>_. []), el_decode = (\<lambda>_ _. undefined),
     el_repr = (\<lambda>_. [])\<rparr>"

definition demo_store_env :: store_env where
  "demo_store_env = \<lparr>se_clock = 7, se_now = ''t'', se_watermark_writable = True, se_db_writable = True, se_can_rename = True\<rparr>"

definition demo_cfg :: "unit service_cfg" where
  "demo_cfg = \<lparr>cf_http = demo_http, cf_fuel = 2, cf_lib = demo_lib, cf_store_env = (\<lambda>_. demo_store_env),
     cf_defs = mailboxes, cf_refresh = 15\<rparr>"

definition demo_service :: "unit service" where
  "demo_service = new_service () (empty_store None) (new_cache 100)"

lemma new_service_inv: "service_inv (new_service w (empty_store wm) c)"
  by (simp add: service_inv_def new_service_def pins_ok_def store_inv_def empty_store_def live_rows_def)

lemma demo_facts [simp]:
  "service_inv demo_service" "digest_ok (cf_lib demo_cfg)" "clock_monotonic (cf_http demo_cfg)"
  "lookup demo_cfg ''INBOX'' = Some inbox_box" "lookup demo_cfg ''Drafts'' = Some drafts_box"
  by (simp_all add: demo_service_def new_service_inv demo_cfg_def demo_lib_def digest_ok_def demo_http_def
      clock_monotonic_def lookup_def lookup_mailbox_def mailboxes_def py_upper_def up_char_def)

lemma demo_request:
  "with_retries demo_client (service_http demo_cfg) q s =
     (Inr \<lparr>rs_status = 200, rs_headers = [], rs_body = hr_method q\<rparr>, s)"
  by (simp add: with_retries_def retry_loop.simps service_http_def demo_cfg_def demo_http_def attempt_outcome_def)

lemma demo_call:
  "demo_json meth = Some (JObj d) \<Longrightarrow> meth \<noteq> [] \<Longrightarrow>
     api_json demo_client (service_http demo_cfg) meth path params body s = (Inr d, s)"
  by (simp add: api_json_def api_request_def io_bind_def demo_request Let_def) (simp add: demo_client_def)

definition demo_entry :: entry where
  "demo_entry = message_entry demo_lib ''m1'' {''received''} epoch (Some 5) []
     [(''message_id'', JStr ''m1''), (''size'', JInt 5), (''labels'', JList [JStr ''received''])]"

lemma demo_collect:
  "collect demo_cfg demo_client ''a@x'' inbox_box demo_service = (Inr [demo_entry], demo_service)"
proof -
  obtain d where d: "demo_json ''GET'' = Some (JObj d)" and
    items: "page_items ''messages'' d = Inr [JObj [(''message_id'', JStr ''m1''), (''size'', JInt 5), (''labels'', JList [JStr ''received''])]]"
    and last: "jget d ''next_page_token'' = JNull"
    by (simp add: demo_json_def page_items_def jget_def)
  have fuel: "cf_fuel demo_cfg = Suc 1" "cf_lib demo_cfg = demo_lib" by (simp_all add: demo_cfg_def)
  have msg: "collect_message demo_cfg ''a@x'' inbox_box
      [(''message_id'', JStr ''m1''), (''size'', JInt 5), (''labels'', JList [JStr ''received''])] ([], {}) demo_service
     = (Inr ([demo_entry], {''m1''}), demo_service)"
    by (simp add: collect_message_def fuel Let_def io_bind_def labels_of_def effective_labels_def demo_service_def new_service_def
        size_hint_of_def jget_def to_of_def inbox_box_def hidden_labels_def demo_entry_def parse_iso8601_def jor_def py_strip_def
        lstrip_by_def rstrip_by_def)
  show ?thesis
    by (simp add: collect_def inbox_box_def [THEN arg_cong, of md_kind] collect_messages_def list_messages_def io_bind_def fuel
        demo_call [OF d] items last yield_item_def msg)
qed

lemma finish_sync_total:
  assumes "service_inv s" and "listing_ok es"
  shows "\<exists>snap s'. finish_sync cfg inbox mdef es s = (Inr snap, s') \<and> sn_synced_at snap = now cfg s"
  by (rule finish_sync_ok [OF assms, of cfg inbox mdef]) blast

lemma sync_total:
  assumes "service_inv s" and "lookup cfg nm = Some mdef" and "collect cfg api inbox mdef s = (Inr es, s1)"
    and "service_inv s1" and "listing_ok es"
  shows "\<exists>snap s'. sync cfg api inbox nm True s = (Inr snap, s') \<and> sn_synced_at snap = now cfg s1"
  using finish_sync_total [OF assms(4,5)] by (simp add: sync_forced [OF assms(2)] do_sync_def assms(3))

theorem sync_shows_live_view_witness:
  "\<exists>snap s'. sync demo_cfg demo_client ''a@x'' ''INBOX'' True demo_service = (Inr snap, s')
     \<and> sorted_wrt (<) (snapshot_uids snap) \<and> shows_live (sv_store s') (Box ''a@x'' ''INBOX'') snap"
proof -
  have "listing_ok [demo_entry]" by (simp add: listing_ok_def demo_entry_def)
  then obtain snap s' where run: "sync demo_cfg demo_client ''a@x'' ''INBOX'' True demo_service = (Inr snap, s')"
    using sync_total [OF demo_facts(1,4) demo_collect demo_facts(1)] by blast
  then show ?thesis
    using sync_shows_live_view [OF demo_facts(1,2,4) run] by (auto simp: Let_def inbox_box_def)
qed

text \<open>The same API while it is down.\<close>

definition down_cfg :: "unit service_cfg" where
  "down_cfg = demo_cfg\<lparr>cf_http := demo_http\<lparr>he_request := (\<lambda>q w. (Inr \<lparr>rs_status = 503, rs_headers = [], rs_body = []\<rparr>, w))\<rparr>\<rparr>"

theorem failed_sync_changes_nothing_witness:
  "\<exists>e s'. sync down_cfg demo_client ''a@x'' ''INBOX'' True demo_service = (Inl e, s')
     \<and> sv_store s' = sv_store demo_service \<and> sv_latest s' = sv_latest demo_service"
proof -
  have n: "nat_str 503 = ''503''" by code_simp
  have req: "with_retries demo_client (service_http down_cfg) q s =
      (Inl (AgentMailError UnavailableError ''upstream unavailable (503)'' (Some 503) True), s)" for q s
    by (simp add: with_retries_def retry_loop.simps service_http_def down_cfg_def demo_cfg_def demo_http_def
        attempt_outcome_def classify_def demo_client_def Let_def n)
  have look: "lookup down_cfg ''INBOX'' = Some inbox_box" "digest_ok (cf_lib down_cfg)" "cf_fuel down_cfg = Suc 1"
    using demo_facts(2,4) by (simp_all add: lookup_def down_cfg_def) (simp add: demo_cfg_def)
  have "md_kind inbox_box = Messages" by (simp add: inbox_box_def)
  then have run: "sync down_cfg demo_client ''a@x'' ''INBOX'' True demo_service =
      (Inl (AgentMailError UnavailableError ''upstream unavailable (503)'' (Some 503) True), demo_service)"
    by (simp add: sync_forced [OF look(1)] do_sync_def collect_def collect_messages_def list_messages_def look
        api_json_def api_request_def Let_def io_bind_def req)
  then show ?thesis using failed_sync_changes_nothing [OF demo_facts(1) look(2) run] by blast
qed

lemma demo_collect_drafts:
  "collect demo_cfg demo_client ''a@x'' drafts_box s = (Inr [], s)"
proof -
  obtain d where d: "demo_json ''GET'' = Some (JObj d)" and items: "page_items ''drafts'' d = Inr []"
    and last: "jget d ''next_page_token'' = JNull"
    by (simp add: demo_json_def page_items_def jget_def)
  have "cf_fuel demo_cfg = Suc 1" "md_kind drafts_box = DraftItems" by (simp_all add: demo_cfg_def drafts_box_def)
  then show ?thesis
    by (simp add: collect_def collect_drafts_def list_drafts_def io_bind_def demo_call [OF d] items last)
qed

lemma record_created_total:
  assumes inv: "service_inv s" and "labels_of (cf_lib cfg) created = Inr l" and "to_of (cf_lib cfg) created = Inr t"
  shows "\<exists>r s'. record_created cfg inbox created did rendered s = (Inr r, s') \<and> sv_world s' = sv_world s"
proof -
  let ?b = "Box inbox ''Drafts''"
  define k where "k = content_key (cf_lib cfg) did rendered"
  define s1 where "s1 = s\<lparr>sv_cache := cache_put (cache_put (sv_cache s) (ckey inbox ''draftv''
      (did @ '':'' @ jtext (el_repr (cf_lib cfg)) created ''updated_at'')) rendered) (ckey inbox ''body'' k) rendered\<rparr>"
  have inv1: "service_inv s1" "store_inv (sv_store s1)" using inv by (simp_all add: s1_def) (simp add: service_inv_def)
  obtain m st where a: "allocate cfg ?b [(k, did)] s1 = (Inr m, s1\<lparr>sv_store := st\<rparr>)" "map_of m = live_of st ?b"
    "st = snd (ensure_uids (store_env_of cfg s1) (sv_store s1) ?b [(k, did)])"
    by (rule allocate_ok [OF inv1(1), of cfg ?b "[(k, did)]"])
  have "live_of st ?b k \<noteq> None" using store_uids.ensure_covers [OF inv1(2), of k "[(k, did)]"] a(3) by simp
  then obtain u where u: "uid_at m k = Inr u" using a(2) by (auto simp: uid_at_def)
  obtain vn st' where info: "service_info cfg inbox ''Drafts'' (s1\<lparr>sv_store := st\<rparr>) = (Inr vn, s1\<lparr>sv_store := st'\<rparr>)"
    by (cases "mailbox_info (store_env_of cfg (s1\<lparr>sv_store := st\<rparr>)) st ?b") (simp add: service_info_def)
  have w: "sv_world (bump b (pin cfg b' k' e x)) = sv_world x" for b b' k' e x by (simp add: bump_def pin_def Let_def)
  have "record_created cfg inbox created did rendered s = (Inr (fst vn, u), bump ?b (pin cfg ?b k
      (draft_entry (cf_lib cfg) inbox did k (parse_iso8601 (cf_lib cfg) (JStr (jtext (el_repr (cf_lib cfg)) created ''updated_at'')))
        (length rendered) l t created) (s1\<lparr>sv_store := st'\<rparr>)))"
    using a(1) info u unfolding record_created_def Let_def s1_def k_def
    by (simp add: io_then_def cache_ops io_bind_def assms(2,3))
  then show ?thesis by (simp add: w s1_def)
qed

definition demo_fields :: draft_fields where
  "demo_fields = \<lparr>df_to = [], df_cc = [], df_bcc = [], df_reply_to = [], df_subject = [], df_text = []\<rparr>"

theorem appended_draft_stays_visible_witness:
  "\<exists>v u s1 snap s2. append_draft demo_cfg demo_client ''a@x'' demo_fields None demo_service = (Inr (v, u), s1)
     \<and> sync demo_cfg demo_client ''a@x'' ''Drafts'' True s1 = (Inr snap, s2)
     \<and> u \<in> set (snapshot_uids snap) \<and> sn_uidvalidity snap = v"
proof -
  have nil: "listing_ok []" by (simp add: listing_ok_def)
  obtain sn0 s0 where s0: "sync demo_cfg demo_client ''a@x'' ''Drafts'' True demo_service = (Inr sn0, s0)"
    using sync_total [OF demo_facts(1,5) demo_collect_drafts demo_facts(1) nil] by blast
  have inv0: "service_inv s0" using service_inv_sync [OF demo_facts(1,2)] s0 by (metis snd_conv)
  let ?d = "[(''draft_id'', JStr ''d1'')]"
  have post: "demo_json ''POST'' = Some (JObj ?d)" by (simp add: demo_json_def)
  obtain r s1 where rec: "record_created demo_cfg ''a@x'' ?d ''d1'' [] s0 = (Inr r, s1)"
    using record_created_total [OF inv0, of demo_cfg ?d "{}" "[]" "''a@x''" "''d1''" "[]"]
    by (simp add: labels_of_def to_of_def) blast
  have lib: "cf_lib demo_cfg = demo_lib" by (simp add: demo_cfg_def)
  have "latest demo_cfg ''a@x'' ''Drafts'' demo_service = None"
    by (simp add: latest_def demo_service_def new_service_def split: option.splits)
  moreover have "render demo_cfg ?d ''a@x'' s0 = (Inr [], s0)"
    by (simp add: render_def lib render_draft_def Let_def replace_all.simps) (simp add: demo_lib_def)
  ultimately have app: "append_draft demo_cfg demo_client ''a@x'' demo_fields None demo_service = (Inr (fst r, snd r), s1)"
    by (simp add: append_draft_def Let_def sync_if_new_def io_then_def io_bind_def s0 create_draft_def demo_call [OF post] rec)
  have inv1: "service_inv s1" using append_draft_recorded [OF demo_facts(1,2) app] by simp
  obtain snap s2 where sync: "sync demo_cfg demo_client ''a@x'' ''Drafts'' True s1 = (Inr snap, s2)"
    and at: "sn_synced_at snap = now demo_cfg s1"
    using sync_total [OF inv1 demo_facts(5) demo_collect_drafts inv1 nil] by blast
  have "u \<in> set (snapshot_uids snap) \<and> sn_uidvalidity snap = v" if "r = (v, u)" for v u
    by (rule appended_draft_stays_visible [OF demo_facts(1,2,5) _ app [unfolded that fst_conv snd_conv] sync])
       (simp_all add: drafts_box_def at pin_ttl_def)
  then show ?thesis using app sync by (cases r) auto
qed

definition demo_item :: item where "demo_item = build_item demo_entry 1"

definition trashed_demo :: "unit service" where
  "trashed_demo = bump (Box ''a@x'' ''INBOX'') (hold_labels demo_cfg ''a@x'' ''m1'' {''received'', ''trash''} demo_service)"

lemma demo_expunge: "expunge_items demo_cfg demo_client ''a@x'' ''INBOX'' [demo_item] demo_service = (Inr [], trashed_demo)"
proof -
  have patch: "demo_json ''PATCH'' = Some (JObj [])" by (simp add: demo_json_def)
  have i: "it_id demo_item = ''m1''" "it_labels demo_item = {''received''}"
    by (simp_all add: demo_item_def build_item_def demo_entry_def message_entry_def)
  have "md_kind inbox_box = Messages" "md_name inbox_box = ''INBOX''" by (simp_all add: inbox_box_def)
  then show ?thesis
    by (simp add: expunge_items_def remove_one_def trash_message_def io_bind_def io_try_def io_then_def update_labels_def
        demo_call [OF patch] trashed_labels_def labels_of_def i trashed_demo_def insert_commute)
qed

theorem expunged_messages_stay_hidden_witness:
  "\<exists>s1 snap s2. expunge_items demo_cfg demo_client ''a@x'' ''INBOX'' [demo_item] demo_service = (Inr [], s1)
     \<and> sync demo_cfg demo_client ''a@x'' ''INBOX'' True s1 = (Inr snap, s2)
     \<and> list_all (\<lambda>j. it_key j \<noteq> it_id demo_item) (sn_items snap)"
proof -
  have inv: "service_inv trashed_demo" by (simp add: trashed_demo_def)
  have t: "now demo_cfg s = 0" for s by (simp add: now_def demo_cfg_def demo_http_def)
  obtain es s1 where col: "collect demo_cfg demo_client ''a@x'' inbox_box trashed_demo = (Inr es, s1)"
  proof -
    obtain d where d: "demo_json ''GET'' = Some (JObj d)" and
      items: "page_items ''messages'' d = Inr [JObj [(''message_id'', JStr ''m1''), (''size'', JInt 5), (''labels'', JList [JStr ''received''])]]"
      and last: "jget d ''next_page_token'' = JNull"
      by (simp add: demo_json_def page_items_def jget_def)
    have fuel: "cf_fuel demo_cfg = Suc 1" "md_kind inbox_box = Messages" by (simp_all add: demo_cfg_def inbox_box_def)
    have "fst (collect_message demo_cfg ''a@x'' inbox_box
        [(''message_id'', JStr ''m1''), (''size'', JInt 5), (''labels'', JList [JStr ''received''])] ([], {}) trashed_demo)
       = Inr ([], {''m1''})"
      by (simp add: collect_message_def Let_def io_bind_def labels_of_def effective_labels_def trashed_demo_def bump_def
          hold_labels_def t override_ttl_def inbox_box_def hidden_labels_def)
    then obtain s1 where "collect_message demo_cfg ''a@x'' inbox_box
        [(''message_id'', JStr ''m1''), (''size'', JInt 5), (''labels'', JList [JStr ''received''])] ([], {}) trashed_demo
       = (Inr ([], {''m1''}), s1)" by (metis prod.collapse)
    then show ?thesis
      by (intro that) (simp add: collect_def fuel collect_messages_def list_messages_def io_bind_def demo_call [OF d] items last
          yield_item_def)
  qed
  have "same_tables trashed_demo s1" "listing_ok es"
    using io_postD [OF collect_post [OF demo_facts(2), of trashed_demo] same_tables_refl col] by auto
  then obtain snap s2 where sync: "sync demo_cfg demo_client ''a@x'' ''INBOX'' True trashed_demo = (Inr snap, s2)"
    and at: "sn_synced_at snap = 0"
    using sync_total [OF inv demo_facts(4) col service_inv_tables [OF inv]] t by auto
  have "\<forall>j \<in> set (sn_items snap). it_key j \<noteq> it_id demo_item"
    by (rule expunged_messages_stay_hidden [OF demo_facts(1-4) _ _ demo_expunge _ _ sync])
       (simp_all add: inbox_box_def hidden_labels_def demo_service_def new_service_def at t override_ttl_def)
  then show ?thesis using demo_expunge sync by (auto simp: list_all_iff)
qed

definition recorded_cfg :: "(unit \<times> http_log list) service_cfg" where
  "recorded_cfg = \<lparr>cf_http = recording demo_http, cf_fuel = 2, cf_lib = demo_lib, cf_store_env = (\<lambda>_. demo_store_env),
     cf_defs = mailboxes, cf_refresh = 15\<rparr>"



end
