(* ===== verification/Session_Guarantees.thy ===== *)
theory Session_Guarantees
  imports Client_View Mailbox_Guarantees
begin

text \<open>
  Properties of whole sessions, over the handlers of \<open>Commands\<close> and the instance of the service in
  \<open>Mailbox_Guarantees\<close>.
\<close>

section \<open>An announcement at work\<close>

text \<open>A session that selected INBOX while it was empty, over the instance of the service that lists one message.\<close>

definition demo_view :: selected where
  "demo_view = \<lparr>sel_name = ''INBOX'', sel_read_only = False, sel_uids = [], sel_seq_of = Map.empty,
     sel_view_version = 0, sel_flags_seen = Map.empty\<rparr>"

definition demo_session :: "unit session_env \<Rightarrow> unit service \<Rightarrow> unit session" where
  "demo_session env sv = (new_session env sv [])\<lparr>ss_state := SelectedState, ss_inbox := Some ''a@x'',
     ss_selected := Some demo_view\<rparr>"

lemma demo_grown:
  assumes "sync demo_cfg demo_client ''a@x'' ''INBOX'' True demo_service = (Inr snap, sv)"
  shows "grown demo_cfg sv sv"
proof -
  have "grown demo_cfg demo_service demo_service"
    by (rule grown_refl) (simp_all add: service_good_def covers_def shown_def, simp add: demo_service_def new_service_def)
  then have "grown demo_cfg demo_service sv"
    using views.sync_kept [of demo_cfg demo_service demo_client "''a@x''" "''INBOX''" True] assms
    by (auto simp: io_keeps_def split: prod.splits dest!: spec)
  then show ?thesis by (simp add: grown_def)
qed

theorem announced_view_is_true_witness:
  "\<forall>env0 :: unit session_env. \<exists>sv sn out sel'.
     (let env = env0\<lparr>se_service := demo_cfg\<rparr> in
      snd (sync demo_cfg demo_client ''a@x'' ''INBOX'' True demo_service) = sv
      \<and> latest demo_cfg ''a@x'' ''INBOX'' sv = Some sn
      \<and> flush_pending env (demo_session env sv) = (demo_session env sv)\<lparr>ss_selected := Some sel', ss_out := out\<rparr>
      \<and> sensible out [] \<and> agrees (fold client_sees out []) (snapshot_uids sn))"
proof
  fix env0 :: "unit session_env"
  define env where "env = env0\<lparr>se_service := demo_cfg\<rparr>"
  have "listing_ok [demo_entry]" by (simp add: listing_ok_def demo_entry_def)
  then obtain snap sv where run: "sync demo_cfg demo_client ''a@x'' ''INBOX'' True demo_service = (Inr snap, sv)"
    using sync_total [OF demo_facts(1,4) demo_collect demo_facts(1)] by blast
  let ?s = "demo_session env sv"
  have env: "se_service env = demo_cfg" by (simp add: env_def)
  have sel: "ss_selected ?s = Some demo_view" "ss_inbox ?s = Some ''a@x''" "ss_service ?s = sv"
    by (simp_all add: demo_session_def new_session_def)
  obtain n U where sh: "shown sv (Box ''a@x'' ''INBOX'') = Some (n, U)"
    using sync_shows_view [OF demo_facts(1,2,4) run] by (auto simp: shown_def Let_def inbox_box_def)
  have cur: "view_current (se_service env) ?s"
    unfolding view_current_def view_of_def sel env using sh
    by (auto simp: demo_view_def inbox_box_def intro!: exI [of _ 0])
  have v: "agrees [] (sel_uids demo_view)" by (simp add: agrees_def demo_view_def)
  have same: "?s\<lparr>ss_service := sv\<rparr> = ?s" by (simp add: demo_session_def new_session_def)
  have g: "grown (se_service env) (ss_service ?s) sv" using demo_grown [OF run] by (simp only: env sel(3))
  have out: "ss_out ?s = []" "sel_name demo_view = ''INBOX''" by (simp_all add: demo_session_def new_session_def demo_view_def)
  from announced_view_is_true [OF cur sel(1,2) g v]
  show "\<exists>sv sn out sel'. (let env = env0\<lparr>se_service := demo_cfg\<rparr> in
      snd (sync demo_cfg demo_client ''a@x'' ''INBOX'' True demo_service) = sv
      \<and> latest demo_cfg ''a@x'' ''INBOX'' sv = Some sn
      \<and> flush_pending env (demo_session env sv) = (demo_session env sv)\<lparr>ss_selected := Some sel', ss_out := out\<rparr>
      \<and> sensible out [] \<and> agrees (fold client_sees out []) (snapshot_uids sn))"
    unfolding same env out append_Nil Let_def env_def [symmetric] using run by (metis (no_types, lifting) snd_conv)
qed

section \<open>A history\<close>

text \<open>A session over the instance that logs in and selects INBOX, which lists one message.\<close>

definition demo_env :: "unit session_env \<Rightarrow> unit session_env" where
  "demo_env env0 = env0\<lparr>se_service := demo_cfg, se_make_client := (\<lambda>_. demo_client), se_allowed := None,
     se_command_timeout := 30\<rparr>"

definition demo_login :: command where
  "demo_login = \<lparr>cmd_tag = ''a1'', cmd_name = ''LOGIN'', cmd_args = [Atom ''a@x'', Atom ''k'']\<rparr>"

definition demo_select :: command where
  "demo_select = \<lparr>cmd_tag = ''a2'', cmd_name = ''SELECT'', cmd_args = [Atom ''INBOX'']\<rparr>"

lemma demo_env_simps [simp]:
  "se_service (demo_env env0) = demo_cfg" "se_make_client (demo_env env0) = (\<lambda>_. demo_client)"
  "se_allowed (demo_env env0) = None" "se_command_timeout (demo_env env0) = 30"
  by (simp_all add: demo_env_def)

lemma demo_now [simp]: "now demo_cfg s = 0"
  by (simp add: now_def demo_cfg_def demo_http_def)

lemma demo_args:
  "arg_text demo_login 0 w = Inr ''a@x''" "arg_text demo_login 1 w = Inr ''k''" "arg_text demo_select 0 w = Inr ''INBOX''"
  "arg_text demo_login (Suc 0) w = Inr ''k''"
proof -
  have "utf8_ok ''a@x''" "utf8_ok ''k''" "utf8_ok ''INBOX''" "astring_bytes (Atom ''a@x'') = Inr ''a@x''"
    "astring_bytes (Atom ''k'') = Inr ''k''" "astring_bytes (Atom ''INBOX'') = Inr ''INBOX''" by code_simp+
  then show "arg_text demo_login 0 w = Inr ''a@x''" "arg_text demo_login 1 w = Inr ''k''"
    "arg_text demo_select 0 w = Inr ''INBOX''" "arg_text demo_login (Suc 0) w = Inr ''k''"
    by (simp_all add: arg_text_def demo_login_def demo_select_def)
qed

lemma demo_logged_in:
  fixes env0 :: "unit session_env" and s0 :: "unit session"
  defines "env \<equiv> demo_env env0"
  defines "s \<equiv> dispatch env handlers demo_login s0"
  assumes s0: "ss_state s0 = NotAuthenticated" "ss_selected s0 = None" "ss_closed s0 = False" "ss_deferred s0 = []"
  shows "ss_state s = Authenticated" "ss_api s = Some demo_client" "ss_inbox s = Some ''a@x''" "ss_service s = ss_service s0"
    "ss_selected s = None" "ss_closed s = False" "ss_deferred s = []" "\<exists>r. said s = said s0 @ [r]"
    "ss_api_key s = Some ''k''" "ss_redactor s = redactor_register ''k'' (ss_redactor s0)" "ss_parser s = ss_parser s0"
proof -
  obtain d where d: "demo_json ''GET'' = Some (JObj d)" "map_of d ''scope_type'' = None" "jget d ''inbox_id'' = JNull"
    by (simp add: demo_json_def jget_def)
  have e: "se_service env = demo_cfg" "se_make_client env = (\<lambda>_. demo_client)" "se_allowed env = None"
    "se_command_timeout env = 30" by (simp_all add: env_def)
  note call = demo_call [OF d(1)]
  have h: "handlers (cmd_name demo_login) = Some login_cmd" by (simp add: handlers_def handler_list_def demo_login_def)
  have p: "printable ''a@x''" "printable ''k''" "length (cmd_args demo_login) = 2" by code_simp+
  have me: "service_call env (auth_me demo_client (http_of env)) t = (Inr d, t)" if "ss_deadline t = 30" for t
    using that by (simp add: service_call_def auth_me_def http_of_def e call)
  have inbox: "service_call env (get_inbox demo_client (http_of env) u) t = (Inr d, t)" if "ss_deadline t = 30" for t u
    using that by (simp add: service_call_def get_inbox_def http_of_def e call)
  have sc: "check_scope env demo_client u d t = (Inr (), t)" if "ss_deadline t = 30" for t u
    by (simp add: check_scope_def Let_def scope_type_of_def d ensure_def io_then_def io_bind_def io_catch_def inbox [OF that])
  have "\<exists>r. s = (snd (set_credentials env ''a@x'' ''k'' (s0\<lparr>ss_deadline := 30\<rparr>)))\<lparr>ss_state := Authenticated, ss_out := ss_out s0 @ [r], ss_deferred := []\<rparr>"
    unfolding s_def dispatch_def h option.case Let_def
    by (simp add: login_cmd_def io_then_def io_bind_def demo_args p ensure_def s0 set_credentials_def Let_def
        e me sc say_def push_def drop_failed_login_def run_deferred_def) blast
  then show "ss_state s = Authenticated" "ss_api s = Some demo_client" "ss_inbox s = Some ''a@x''" "ss_service s = ss_service s0"
    "ss_selected s = None" "ss_closed s = False" "ss_deferred s = []" "\<exists>r. said s = said s0 @ [r]"
    "ss_api_key s = Some ''k''" "ss_redactor s = redactor_register ''k'' (ss_redactor s0)" "ss_parser s = ss_parser s0"
    by (auto simp: set_credentials_def s0 Let_def env_def)
qed

lemma demo_healthy: "healthy demo_cfg demo_service"
proof -
  have "grown demo_cfg demo_service demo_service"
    by (rule grown_refl) (simp_all add: service_good_def covers_def shown_def, simp add: demo_service_def new_service_def)
  moreover have "keyed demo_service" by (simp add: keyed_def keyed_box_def demo_service_def new_service_def)
  moreover have "table_ok demo_cfg"
    by (auto simp: table_ok_def lookup_def lookup_mailbox_def demo_cfg_def mailboxes_def inbox_box_def drafts_box_def sent_box_def
        trash_box_def spam_box_def py_upper_def up_char_def split: if_splits)
  ultimately show ?thesis by (simp add: healthy_def carried_def)
qed

lemma demo_selected:
  fixes env0 :: "unit session_env"
  defines "env \<equiv> demo_env env0"
  assumes s: "ss_state s = Authenticated" "ss_api s = Some demo_client" "ss_inbox s = Some ''a@x''" "ss_service s = demo_service"
    "ss_closed s = False" "ss_deferred s = []"
  obtains sel new where "ss_selected (dispatch env handlers demo_select s) = Some sel" "said (dispatch env handlers demo_select s) = said s @ new"
    "ss_inbox (dispatch env handlers demo_select s) = Some ''a@x''" "ss_closed (dispatch env handlers demo_select s) = False"
    "ss_state (dispatch env handlers demo_select s) = SelectedState"
proof -
  have e: "se_service env = demo_cfg" "se_command_timeout env = 30" by (simp_all add: env_def)
  have "listing_ok [demo_entry]" by (simp add: listing_ok_def demo_entry_def)
  then obtain snap sv where run: "sync demo_cfg demo_client ''a@x'' ''INBOX'' True demo_service = (Inr snap, sv)"
    using sync_total [OF demo_facts(1,4) demo_collect demo_facts(1)] by blast
  have h: "handlers (cmd_name demo_select) = Some select_cmd" by (simp add: handlers_def handler_list_def demo_select_def)
  have l: "length (cmd_args demo_select) = 1" "md_name inbox_box = ''INBOX''" by (simp_all add: demo_select_def inbox_box_def)
  have "\<exists>sel new. dispatch env handlers demo_select s =
      s\<lparr>ss_deadline := 30, ss_service := sv, ss_selected := Some sel, ss_state := SelectedState, ss_out := ss_out s @ new,
        ss_deferred := []\<rparr>"
  proof -
    have pushes: "push r (fold push rs s') = s'\<lparr>ss_out := ss_out s' @ rs @ [r]\<rparr>" for r rs and s' :: "unit session"
      by (induction rs arbitrary: s') (simp_all add: push_def)
    show ?thesis
      unfolding dispatch_def h option.case Let_def
      by (simp add: select_cmd_def select_mailbox_def io_then_def io_bind_def require_state_def s demo_args l ensure_def deselect_def e
          need_api_def service_call_def run say_all_fold say_def pushes apply_snapshot_def Let_def drop_failed_login_def run_deferred_def)
        blast
  qed
  then show thesis using that s by auto
qed


section \<open>A CLOSE that fails\<close>

text \<open>C40: A CLOSE that cannot remove all it should refuses with NO and leaves the mailbox selected, but has already
  dropped from the view, without an EXPUNGE, every message that the new listing no longer shows: the only
  response is the tagged NO, and a client that was in step before has lost the message numbers.\<close>

theorem failed_close_renumbers:
  assumes s: "ss_state s = SelectedState" "ss_selected s = Some sel" "ss_api s = Some api" "ss_inbox s = Some inbox" "ss_deferred s = []"
    and box: "lookup (se_service env) (sel_name sel) = Some mdef" "\<not> sel_read_only sel" "flag_deleted \<in> set (md_permanent_flags mdef)"
    and marked: "finite (session_deleted env s)" "session_deleted env s \<noteq> {}" "latest (se_service env) inbox (sel_name sel) (ss_service s) = Some sn0"
    and removal: "expunge_items (se_service env) api inbox (sel_name sel) (sequence_items sn0 (sorted_list_of_set (session_deleted env s)))
        (ss_service s) = (Inr errors, sv1)" "errors \<noteq> []"
    and relisting: "sync (se_service env) api inbox (sel_name sel) True sv1 = (Inr snap, sv2)"
        "latest (se_service env) inbox (sel_name sel) sv2 = Some sn" "u \<in> set (sel_uids sel)" "u \<notin> set (snapshot_uids sn)"
    and in_time: "now (se_service env) sv1 \<le> now (se_service env) (ss_service s) + se_command_timeout env"
        "now (se_service env) sv2 \<le> now (se_service env) (ss_service s) + se_command_timeout env"
    and cmd: "cmd_name cmd = ''CLOSE''" and v: "agrees v (sel_uids sel)"
  shows "\<exists>sel' refusal. ss_selected (dispatch env handlers cmd s) = Some sel' \<and> ss_state (dispatch env handlers cmd s) = SelectedState
    \<and> said (dispatch env handlers cmd s) = said s @ [Tagged (cmd_tag cmd) ''NO'' refusal (Some ''UNAVAILABLE'')]
    \<and> sel_uids sel' = filter (\<lambda>u. u \<in> set (snapshot_uids sn)) (sel_uids sel)
    \<and> \<not> agrees (view_after cmd [Tagged (cmd_tag cmd) ''NO'' refusal (Some ''UNAVAILABLE'')] v) (sel_uids sel')"
proof -
  let ?deadline = "now (se_service env) (ss_service s) + se_command_timeout env"
  let ?uids = "filter (\<lambda>u. u \<in> set (snapshot_uids sn)) (sel_uids sel)"
  define sel' where "sel' = sel\<lparr>sel_uids := ?uids, sel_seq_of := sequence_map ?uids, sel_view_version := sn_version sn\<rparr>"
  define refusal where "refusal = nat_str (length errors) @ '' item(s) could not be removed; try again''"
  define s0 where "s0 = s\<lparr>ss_deadline := ?deadline\<rparr>"
  have s0: "ss_state s0 = SelectedState" "ss_selected s0 = Some sel" "ss_api s0 = Some api" "ss_inbox s0 = Some inbox"
    "ss_service s0 = ss_service s" "ss_deadline s0 = ?deadline" "session_deleted env s0 = session_deleted env s"
    by (simp_all add: s0_def s session_deleted_def)
  have doomed: "sorted_list_of_set (session_deleted env s) \<noteq> []" using marked by simp
  have h: "handlers (cmd_name cmd) = Some close_with_expunge_cmd" by (simp add: cmd handlers_def handler_list_def)
  have em: "expunge_marked env api inbox (sel_name sel) (sorted_list_of_set (session_deleted env s)) True s0
      = (Inl (no refusal (Some ''UNAVAILABLE'')), s0\<lparr>ss_service := sv2, ss_selected := Some sel'\<rparr>)"
    using in_time removal(2)
    by (simp add: expunge_marked_def io_then_def io_bind_def service_call_def s0 marked(3) removal(1) relisting(1,2) prune_view_def
        ensure_def Let_def by_uid_dom sel'_def refusal_def del: not_None_eq)
  have "expunge_deleted env None True s0 = (Inl (no refusal (Some ''UNAVAILABLE'')), s0\<lparr>ss_service := sv2, ss_selected := Some sel'\<rparr>)"
    using doomed by (simp add: expunge_deleted_def io_bind_def io_then_def require_selected_def need_api_def s0 box ensure_def Let_def em)
  then have "close_with_expunge_cmd env cmd s0 = (Inl (no refusal (Some ''UNAVAILABLE'')), s0\<lparr>ss_service := sv2, ss_selected := Some sel'\<rparr>)"
    using marked(2) by (simp add: close_with_expunge_cmd_def io_bind_def io_then_def require_selected_def s0 box(2) io_when_def)
  then have d: "dispatch env handlers cmd s = push (Tagged (cmd_tag cmd) ''NO'' refusal (Some ''UNAVAILABLE''))
      (s0\<lparr>ss_service := sv2, ss_selected := Some sel'\<rparr>)"
    using s(1,5) by (simp add: dispatch_def h s0_def [symmetric] no_def conclude_def failure_reply_def Let_def drop_failed_login_def push_def
        run_deferred_def s0) (simp add: s0_def)
  have "length ?uids < length (sel_uids sel)" using relisting(3,4) by (rule length_filter_less)
  moreover have "length v = length (sel_uids sel)" by (rule agrees_length [OF v])
  ultimately have "\<not> agrees v (sel_uids sel')" using agrees_length by (fastforce simp: sel'_def)
  moreover have "view_after cmd [Tagged (cmd_tag cmd) ''NO'' refusal (Some ''UNAVAILABLE'')] v = v"
    by (simp add: view_after_def view_start_def opens_def cmd)
  ultimately show ?thesis
    by (intro exI [of _ sel'] exI [of _ refusal]) (simp add: d push_def s0_def s(1) sel'_def)
qed

text \<open>A draft that was edited upstream after the client marked its listed version: that version is not removed, and
  the new listing does not show it any more.\<close>

definition edited_box :: box where "edited_box = Box ''a@x'' ''Drafts''"

definition edited_item :: item where
  "edited_item = \<lparr>it_uid = 1, it_key = ''d1#old'', it_id = ''d1'', it_flags = {}, it_date = epoch, it_size_hint = None,
     it_labels = {}, it_from = [], it_to = [], it_subject = []\<rparr>"

definition edited_snapshot :: snapshot where
  "edited_snapshot = \<lparr>sn_inbox = ''a@x'', sn_name = ''Drafts'', sn_uidvalidity = 7, sn_uidnext = 2, sn_items = [edited_item],
     sn_version = 1, sn_synced_at = 0\<rparr>"

definition edited_service :: "unit service" where
  "edited_service = demo_service\<lparr>sv_latest := (\<lambda>_. None)(edited_box := Some edited_snapshot),
     sv_store := (empty_store (Some ''7''))\<lparr>mboxes := [edited_box \<mapsto> (7, 2)], marks := {(edited_box, 1)},
       rows := [\<lparr>r_box = edited_box, r_uid = 1, r_key = ''d1#old'', r_id = ''d1'', r_first_seen = ''t'', r_vanished = None\<rparr>]\<rparr>\<rparr>"

definition edited_session :: "unit session_env \<Rightarrow> unit session" where
  "edited_session env = (new_session env edited_service [])\<lparr>ss_state := SelectedState, ss_inbox := Some ''a@x'', ss_api := Some demo_client,
     ss_selected := Some \<lparr>sel_name = ''Drafts'', sel_read_only = False, sel_uids = [1], sel_seq_of = sequence_map [1],
       sel_view_version = 1, sel_flags_seen = Map.empty\<rparr>\<rparr>"

lemma edited_inv: "service_inv edited_service"
  by (simp add: service_inv_def edited_service_def demo_service_def new_service_def pins_ok_def store_inv_def empty_store_def live_rows_def
      row_live_def mailbox_ok_def snapshot_ok_def edited_snapshot_def edited_item_def edited_box_def snapshot_uids_def owner_of_def
      uidnext_of_def validity_of_def)

lemma edited_refused:
  obtains e where "expunge_items demo_cfg demo_client ''a@x'' ''Drafts'' [edited_item] edited_service = (Inr [e], edited_service)"
proof -
  obtain d where d: "demo_json ''GET'' = Some (JObj d)" by (simp add: demo_json_def)
  have key: "content_key (cf_lib demo_cfg) ''d1'' b \<noteq> ''d1#old''" for b
    by (simp add: content_key_def demo_cfg_def demo_lib_def) (simp add: numeral_eq_Suc)
  have kind: "md_kind drafts_box = DraftItems" by (simp add: drafts_box_def)
  obtain r where r: "Mailbox_Service.render demo_cfg d ''a@x'' edited_service = (r, edited_service)"
    by (cases "render_draft (cf_lib demo_cfg) d ''a@x''") (simp_all add: Mailbox_Service.render_def)
  obtain e where "remove_draft demo_cfg demo_client ''a@x'' drafts_box edited_item edited_service = (Inl e, edited_service)"
    by (cases r) (simp_all add: remove_draft_def fetch_draft_def get_draft_def io_bind_def demo_call [OF d] r edited_item_def key)
  then show thesis
    by (intro that) (simp add: expunge_items_def remove_one_def kind io_bind_def io_try_def io_then_def)
qed

theorem failed_close_renumbers_witness:
  "\<forall>env0 :: unit session_env. let env = demo_env env0; s = edited_session env; cmd = \<lparr>cmd_tag = ''a3'', cmd_name = ''CLOSE'', cmd_args = []\<rparr> in
     \<exists>sel' refusal. ss_selected (dispatch env handlers cmd s) = Some sel' \<and> sel_uids sel' = []
       \<and> said (dispatch env handlers cmd s) = said s @ [Tagged ''a3'' ''NO'' refusal (Some ''UNAVAILABLE'')]"
proof -
  have "\<exists>sel' refusal. ss_selected (dispatch env handlers cmd s) = Some sel' \<and> sel_uids sel' = []
       \<and> said (dispatch env handlers cmd s) = said s @ [Tagged ''a3'' ''NO'' refusal (Some ''UNAVAILABLE'')]"
    if e: "env = demo_env env0" "s = edited_session env" "cmd = \<lparr>cmd_tag = ''a3'', cmd_name = ''CLOSE'', cmd_args = []\<rparr>"
    for env0 env s cmd
  proof -
    let ?sel = "\<lparr>sel_name = ''Drafts'', sel_read_only = False, sel_uids = [1], sel_seq_of = sequence_map [1],
       sel_view_version = 1, sel_flags_seen = Map.empty\<rparr>"
    have env: "se_service env = demo_cfg" "se_command_timeout env = 30" by (simp_all add: e)
    have s: "ss_state s = SelectedState" "ss_selected s = Some ?sel" "ss_api s = Some demo_client" "ss_inbox s = Some ''a@x''"
      "ss_deferred s = []" "ss_service s = edited_service" by (simp_all add: e edited_session_def new_session_def)
    have box: "lookup (se_service env) (sel_name ?sel) = Some drafts_box" "\<not> sel_read_only ?sel" "md_name drafts_box = ''Drafts''"
      "flag_deleted \<in> set (md_permanent_flags drafts_box)" by (simp_all add: env) (simp_all add: drafts_box_def draft_permanent_def)
    have marked: "session_deleted env s = {1}"
      by (auto simp: session_deleted_def s env service_deleted_def box(3) deleted_uids_def edited_service_def edited_box_def image_iff)
    have l: "latest (se_service env) ''a@x'' (sel_name ?sel) (ss_service s) = Some edited_snapshot"
      by (simp add: latest_def env s box(3) edited_service_def edited_box_def)
    have items: "sequence_items edited_snapshot (sorted_list_of_set (session_deleted env s)) = [edited_item]"
      by (simp add: marked sequence_items_def by_uid_def edited_snapshot_def edited_item_def List.map_filter_def)
    obtain er where er: "expunge_items demo_cfg demo_client ''a@x'' ''Drafts'' [edited_item] edited_service = (Inr [er], edited_service)"
      by (rule edited_refused)
    have nil: "listing_ok []" by (simp add: listing_ok_def)
    obtain snap where fin: "finish_sync demo_cfg ''a@x'' drafts_box [] edited_service = (Inr snap, (snd (apply_pins demo_cfg edited_box [] edited_service))
        \<lparr>sv_store := synced_store demo_cfg edited_box [] edited_service,
         sv_versions := (sv_versions edited_service)(edited_box := sv_versions edited_service edited_box + 1),
         sv_latest := (sv_latest edited_service)(edited_box \<mapsto> snap)\<rparr>)"
      and none: "set (sn_items snap) = set (items_for (synced_store demo_cfg edited_box [] edited_service) edited_box (fst (apply_pins demo_cfg edited_box [] edited_service)))"
      using finish_sync_ok [OF edited_inv nil, of demo_cfg "''a@x''" drafts_box] unfolding box(3) edited_box_def [symmetric] by blast
    have "fst (apply_pins demo_cfg edited_box [] edited_service) = []"
      by (simp add: apply_pins_def edited_service_def demo_service_def new_service_def)
    then have gone: "sn_items snap = []" using none by (simp add: items_for_def)
    obtain sv2 where sync: "sync demo_cfg demo_client ''a@x'' ''Drafts'' True edited_service = (Inr snap, sv2)" "sv_latest sv2 edited_box = Some snap"
      using fin by (simp add: sync_forced [OF demo_facts(5)] do_sync_def io_bind_def demo_collect_drafts)
    have l2: "latest (se_service env) ''a@x'' (sel_name ?sel) sv2 = Some snap"
      using sync(2) by (simp add: latest_def env box(3) edited_box_def)
    have c: "cmd_name cmd = ''CLOSE''" "cmd_tag cmd = ''a3''" by (simp_all add: e)
    have fin: "finite (session_deleted env s)" "session_deleted env s \<noteq> {}" by (simp_all add: marked)
    have t: "now (se_service env) sv \<le> now (se_service env) (ss_service s) + se_command_timeout env" for sv by (simp add: env)
    have v: "agrees [Some 1] (sel_uids ?sel)" by (simp add: agrees_def)
    have er': "expunge_items (se_service env) demo_client ''a@x'' (sel_name ?sel) (sequence_items edited_snapshot (sorted_list_of_set (session_deleted env s)))
        (ss_service s) = (Inr [er], edited_service)" using er by (simp only: items env s(6) selected.select_convs)
    have sync': "sync (se_service env) demo_client ''a@x'' (sel_name ?sel) True edited_service = (Inr snap, sv2)" using sync(1) by (simp add: env)
    have u: "1 \<in> set (sel_uids ?sel)" "1 \<notin> set (snapshot_uids snap)" by (simp_all add: snapshot_uids_def gone)
    from failed_close_renumbers [OF s(1-5) box(1,2,4) fin l er' _ sync' l2 u t t c(1) v]
    show ?thesis by (auto simp: c(2) snapshot_uids_def gone)
  qed
  then show ?thesis by (simp add: Let_def)
qed

end
