(* ===== verification/Sync_Coalescing.thy ===== *)
theory Sync_Coalescing
  imports Gateway_Prelude
begin

text \<open>
  How concurrent callers of \<open>MailboxService.sync\<close> share listings (\<open>sync\<close> and \<open>_join\<close> of \<open>imapgw/mailbox.py\<close>),
  for one mailbox. A state machine: between two \<open>await\<close>s a caller's code runs without interruption, so a step
  is one such piece of code, a mutation of the mailbox (which raises its generation), or the end of a listing.
  Clients and tasks are numbers; a task remembers the generation at which it really started, which the code
  does not store, to state freshness.

  The lemmas show that a forced sync only returns a listing that started after every mutation made before the
  call, that an authentication failure is reported only to the owner of the credentials, and that no caller
  waits for more than three listings.
\<close>

subsection \<open>State\<close>

datatype sync_outcome = Synced | AuthFailed | OtherFailed

record task =
  tk_owner :: nat
  tk_started :: nat
  tk_outcome :: "sync_outcome option"

text \<open>Where a caller is: behind a listing that is too old, in \<open>_join\<close>, behind a listing of its own, or done
  (with the task whose outcome it got, or with the snapshot it found fresh enough).\<close>

datatype phase = AwaitStale nat | AwaitJoin nat | AwaitOwn nat | Done nat sync_outcome | Fresh

record caller =
  ca_client :: nat
  ca_force :: bool
  ca_gen :: nat
  ca_phase :: phase

record coalescer =
  co_gen :: nat
  co_tasks :: "task list"
  co_inflight :: "(nat \<times> nat \<times> nat) option"
  co_callers :: "caller list"

definition idle :: coalescer where
  "idle = \<lparr>co_gen = 0, co_tasks = [], co_inflight = None, co_callers = []\<rparr>"

definition done_task :: "coalescer \<Rightarrow> nat \<Rightarrow> sync_outcome option" where
  "done_task s t = (if t < length (co_tasks s) then tk_outcome (co_tasks s ! t) else None)"

subsection \<open>The code between two awaits\<close>

text \<open>A new listing: \<open>create_task\<close> with an entry in \<open>_inflight\<close>, or the direct call in \<open>_join\<close>.\<close>

definition new_task :: "nat \<Rightarrow> coalescer \<Rightarrow> nat \<times> coalescer" where
  "new_task client s =
     (length (co_tasks s), s\<lparr>co_tasks := co_tasks s @ [\<lparr>tk_owner = client, tk_started = co_gen s, tk_outcome = None\<rparr>]\<rparr>)"

definition start_task :: "nat \<Rightarrow> nat \<Rightarrow> coalescer \<Rightarrow> phase \<times> coalescer" where
  "start_task client generation s = (case new_task client s of
     (t, s') \<Rightarrow> (AwaitOwn t, s'\<lparr>co_inflight := Some (t, generation, client)\<rparr>))"

text \<open>\<open>sync\<close> up to its first await; \<open>fresh\<close> says that the latest snapshot is within the refresh interval.\<close>

definition begin_sync :: "nat \<Rightarrow> bool \<Rightarrow> bool \<Rightarrow> coalescer \<Rightarrow> phase \<times> coalescer" where
  "begin_sync client force fresh s =
     (if \<not> force \<and> fresh then (Fresh, s)
      else (case co_inflight s of
          Some (t, started_gen, owner) \<Rightarrow>
            if co_gen s \<le> started_gen \<or> \<not> force then (AwaitJoin t, s) else (AwaitStale t, s)
        | None \<Rightarrow> start_task client (co_gen s) s))"

text \<open>After the wait for a listing that was too old.\<close>

definition after_stale :: "caller \<Rightarrow> coalescer \<Rightarrow> phase \<times> coalescer" where
  "after_stale c s = (case co_inflight s of
     Some (t, started_gen, owner) \<Rightarrow>
       if ca_gen c \<le> started_gen then (AwaitJoin t, s) else start_task (ca_client c) (ca_gen c) s
   | None \<Rightarrow> start_task (ca_client c) (ca_gen c) s)"

text \<open>The end of \<open>_join\<close>.\<close>

definition after_join :: "caller \<Rightarrow> nat \<Rightarrow> sync_outcome \<Rightarrow> coalescer \<Rightarrow> phase \<times> coalescer" where
  "after_join c t r s =
     (if r = AuthFailed \<and> tk_owner (co_tasks s ! t) \<noteq> ca_client c
      then (case new_task (ca_client c) s of (t', s') \<Rightarrow> (AwaitOwn t', s'))
      else (Done t r, s))"

fun resume :: "caller \<Rightarrow> coalescer \<Rightarrow> (phase \<times> coalescer) option" where
  "resume c s = (case ca_phase c of
     AwaitStale t \<Rightarrow> map_option (\<lambda>_. after_stale c s) (done_task s t)
   | AwaitJoin t \<Rightarrow> map_option (\<lambda>r. after_join c t r s) (done_task s t)
   | AwaitOwn t \<Rightarrow> map_option (\<lambda>r. (Done t r, s)) (done_task s t)
   | _ \<Rightarrow> None)"

text \<open>The end of a listing, with the callback \<open>_done\<close>.\<close>

definition finish_task :: "nat \<Rightarrow> sync_outcome \<Rightarrow> coalescer \<Rightarrow> coalescer" where
  "finish_task t r s =
     s\<lparr>co_tasks := (co_tasks s)[t := (co_tasks s ! t)\<lparr>tk_outcome := Some r\<rparr>],
       co_inflight := (case co_inflight s of Some (t', g, ow) \<Rightarrow> if t' = t then None else co_inflight s | None \<Rightarrow> None)\<rparr>"

inductive co_step :: "coalescer \<Rightarrow> coalescer \<Rightarrow> bool" where
  mutate: "co_step s (s\<lparr>co_gen := co_gen s + 1\<rparr>)"
| call: "begin_sync client force fresh s = (ph, s') \<Longrightarrow>
    co_step s (s'\<lparr>co_callers := co_callers s' @ [\<lparr>ca_client = client, ca_force = force, ca_gen = co_gen s, ca_phase = ph\<rparr>]\<rparr>)"
| finish: "t < length (co_tasks s) \<Longrightarrow> tk_outcome (co_tasks s ! t) = None \<Longrightarrow> co_step s (finish_task t r s)"
| resumed: "i < length (co_callers s) \<Longrightarrow> resume (co_callers s ! i) s = Some (ph, s') \<Longrightarrow>
    co_step s (s'\<lparr>co_callers := (co_callers s')[i := (co_callers s ! i)\<lparr>ca_phase := ph\<rparr>]\<rparr>)"

inductive_cases co_stepE: "co_step s s'"

inductive reachable :: "coalescer \<Rightarrow> bool" where
  start: "reachable idle"
| step: "reachable s \<Longrightarrow> co_step s s' \<Longrightarrow> reachable s'"

subsection \<open>The invariant\<close>

text \<open>What a caller may rely on in each phase.\<close>

definition fresh_for :: "coalescer \<Rightarrow> caller \<Rightarrow> nat \<Rightarrow> bool" where
  "fresh_for s c t \<longleftrightarrow> t < length (co_tasks s) \<and> (ca_force c \<longrightarrow> ca_gen c \<le> tk_started (co_tasks s ! t))"

fun phase_ok :: "coalescer \<Rightarrow> caller \<Rightarrow> phase \<Rightarrow> bool" where
  "phase_ok s c (AwaitStale t) = (t < length (co_tasks s))"
| "phase_ok s c (AwaitJoin t) = fresh_for s c t"
| "phase_ok s c (AwaitOwn t) = (fresh_for s c t \<and> tk_owner (co_tasks s ! t) = ca_client c)"
| "phase_ok s c (Done t r) = (fresh_for s c t \<and> tk_outcome (co_tasks s ! t) = Some r
     \<and> (r = AuthFailed \<longrightarrow> tk_owner (co_tasks s ! t) = ca_client c))"
| "phase_ok s c Fresh = (\<not> ca_force c)"

definition inflight_ok :: "coalescer \<Rightarrow> bool" where
  "inflight_ok s = (case co_inflight s of
     None \<Rightarrow> True
   | Some (t, g, ow) \<Rightarrow> t < length (co_tasks s) \<and> g \<le> tk_started (co_tasks s ! t) \<and> tk_owner (co_tasks s ! t) = ow
        \<and> tk_outcome (co_tasks s ! t) = None)"

definition co_inv :: "coalescer \<Rightarrow> bool" where
  "co_inv s \<longleftrightarrow> inflight_ok s \<and> (\<forall>tk \<in> set (co_tasks s). tk_started tk \<le> co_gen s)
     \<and> (\<forall>c \<in> set (co_callers s). ca_gen c \<le> co_gen s \<and> phase_ok s c (ca_phase c))"

text \<open>Tasks only gain an outcome.\<close>

definition tasks_le :: "coalescer \<Rightarrow> coalescer \<Rightarrow> bool" where
  "tasks_le s s' \<longleftrightarrow> length (co_tasks s) \<le> length (co_tasks s') \<and> (\<forall>t < length (co_tasks s).
     tk_owner (co_tasks s' ! t) = tk_owner (co_tasks s ! t) \<and> tk_started (co_tasks s' ! t) = tk_started (co_tasks s ! t)
     \<and> (tk_outcome (co_tasks s ! t) \<noteq> None \<longrightarrow> tk_outcome (co_tasks s' ! t) = tk_outcome (co_tasks s ! t)))"

lemma phase_ok_le: "phase_ok s c ph \<Longrightarrow> tasks_le s s' \<Longrightarrow> phase_ok s' c ph"
  by (cases ph) (auto simp: fresh_for_def tasks_le_def)

lemma phase_ok_phase [simp]: "phase_ok s (c\<lparr>ca_phase := ph'\<rparr>) ph = phase_ok s c ph"
  by (cases ph) (simp_all add: fresh_for_def)

lemma tasks_le_refl [simp]: "tasks_le s s"
  by (simp add: tasks_le_def)

lemma new_task_facts:
  assumes "new_task client s = (t, s')"
  shows "t = length (co_tasks s)" "tasks_le s s'" "co_gen s' = co_gen s" "co_inflight s' = co_inflight s"
    "co_callers s' = co_callers s" "co_tasks s' = co_tasks s @ [\<lparr>tk_owner = client, tk_started = co_gen s, tk_outcome = None\<rparr>]"
  using assms by (auto simp: new_task_def tasks_le_def nth_append)

text \<open>What a piece of a caller's code keeps and gives.\<close>

definition piece_ok :: "coalescer \<Rightarrow> caller \<Rightarrow> phase \<times> coalescer \<Rightarrow> bool" where
  "piece_ok s c res \<longleftrightarrow> tasks_le s (snd res) \<and> co_gen (snd res) = co_gen s \<and> co_callers (snd res) = co_callers s
     \<and> inflight_ok (snd res) \<and> (\<forall>tk \<in> set (co_tasks (snd res)). tk_started tk \<le> co_gen s) \<and> phase_ok (snd res) c (fst res)"

lemma piece_same:
  "co_inv s \<Longrightarrow> phase_ok s c ph \<Longrightarrow> piece_ok s c (ph, s)"
  by (simp add: piece_ok_def co_inv_def)

lemma piece_start:
  assumes "co_inv s" and "ca_gen c \<le> co_gen s"
  shows "piece_ok s c (start_task (ca_client c) (ca_gen c) s)"
  using assms
  by (auto simp: start_task_def new_task_def piece_ok_def co_inv_def inflight_ok_def tasks_le_def fresh_for_def nth_append)

lemma piece_begin:
  assumes "co_inv s" and "c = \<lparr>ca_client = client, ca_force = force, ca_gen = co_gen s, ca_phase = ph\<rparr>"
  shows "piece_ok s c (begin_sync client force fresh s)"
proof (cases "co_inflight s")
  case None
  then show ?thesis using piece_start [OF assms(1), of c] piece_same [OF assms(1), of c Fresh] assms(2)
    by (simp add: begin_sync_def)
next
  case (Some e)
  then obtain t g ow where e: "co_inflight s = Some (t, g, ow)" by (cases e) auto
  have "t < length (co_tasks s)" "g \<le> tk_started (co_tasks s ! t)" using assms(1) e by (auto simp: co_inv_def inflight_ok_def)
  then show ?thesis using piece_same [OF assms(1)] e assms(2) by (simp add: begin_sync_def fresh_for_def)
qed

lemma piece_stale:
  assumes "co_inv s" and "ca_gen c \<le> co_gen s"
  shows "piece_ok s c (after_stale c s)"
proof (cases "co_inflight s")
  case None
  then show ?thesis using piece_start [OF assms] by (simp add: after_stale_def)
next
  case (Some e)
  then obtain t g ow where e: "co_inflight s = Some (t, g, ow)" by (cases e) auto
  have "t < length (co_tasks s)" "g \<le> tk_started (co_tasks s ! t)" using assms(1) e by (auto simp: co_inv_def inflight_ok_def)
  then show ?thesis using piece_same [OF assms(1)] piece_start [OF assms] e by (simp add: after_stale_def fresh_for_def)
qed

lemma piece_join:
  assumes "co_inv s" and "ca_gen c \<le> co_gen s" and "phase_ok s c (AwaitJoin t)" and "done_task s t = Some r"
  shows "piece_ok s c (after_join c t r s)"
proof (cases "r = AuthFailed \<and> tk_owner (co_tasks s ! t) \<noteq> ca_client c")
  case True
  then show ?thesis using assms(1,2)
    by (auto simp: after_join_def new_task_def piece_ok_def co_inv_def inflight_ok_def tasks_le_def fresh_for_def nth_append
        split: option.splits prod.splits)
next
  case False
  then show ?thesis using assms piece_same [OF assms(1)]
    by (auto simp: after_join_def fresh_for_def done_task_def split: if_splits)
qed

lemma piece_resume:
  assumes "co_inv s" and "c \<in> set (co_callers s)" and "resume c s = Some res"
  shows "piece_ok s c res"
proof -
  have c: "ca_gen c \<le> co_gen s" "phase_ok s c (ca_phase c)" using assms(1,2) by (auto simp: co_inv_def)
  show ?thesis
    using assms(1,3) c piece_stale [OF assms(1) c(1)] piece_join [OF assms(1) c(1)] piece_same [OF assms(1)]
    by (auto simp: done_task_def split: phase.splits if_splits)
qed

lemma co_inv_step:
  assumes "co_inv s" and "co_step s s'"
  shows "co_inv s'"
  using assms(2)
proof (cases rule: co_step.cases)
  case mutate
  have "phase_ok s' c ph" if "phase_ok s c ph" for c ph
    using that by (rule phase_ok_le) (simp add: mutate tasks_le_def)
  then show ?thesis using assms(1) mutate by (fastforce simp: co_inv_def inflight_ok_def split: option.splits prod.splits)
next
  case (call client force fresh ph s1)
  let ?c = "\<lparr>ca_client = client, ca_force = force, ca_gen = co_gen s, ca_phase = ph\<rparr>"
  have p: "piece_ok s ?c (ph, s1)" using piece_begin [OF assms(1), of ?c client force ph fresh] call by simp
  have "phase_ok s' c q" if "phase_ok s1 c q" for c q
    using that by (rule phase_ok_le) (simp add: call tasks_le_def)
  then show ?thesis
    using p assms(1) call phase_ok_le unfolding piece_ok_def co_inv_def
    by (auto simp: inflight_ok_def split: option.splits prod.splits)
next
  case (finish t r)
  have le: "tasks_le s s'" using finish by (auto simp: finish_task_def tasks_le_def nth_list_update)
  have "inflight_ok s'"
    using assms(1) finish
    by (auto simp: co_inv_def inflight_ok_def finish_task_def nth_list_update split: option.splits prod.splits if_splits)
  moreover have "\<forall>tk \<in> set (co_tasks s'). tk_started tk \<le> co_gen s'"
    using assms(1) finish nth_mem [of t "co_tasks s"]
    by (auto simp: co_inv_def finish_task_def dest!: set_update_subset_insert [THEN subsetD])
  ultimately show ?thesis
    using assms(1) phase_ok_le [OF _ le] finish by (auto simp: co_inv_def finish_task_def)
next
  case (resumed i ph s1)
  let ?c = "co_callers s ! i"
  have mem: "?c \<in> set (co_callers s)" using resumed by simp
  have p: "piece_ok s ?c (ph, s1)" using piece_resume [OF assms(1) mem] resumed by simp
  have q: "phase_ok s' c q" if "phase_ok s1 c q" for c q
    using that by (rule phase_ok_le) (simp add: resumed tasks_le_def)
  have "ca_gen c \<le> co_gen s' \<and> phase_ok s' c (ca_phase c)" if "c \<in> set (co_callers s')" for c
  proof -
    have "c \<in> insert (?c\<lparr>ca_phase := ph\<rparr>) (set (co_callers s))"
      using that p resumed set_update_subset_insert [of "co_callers s" i "?c\<lparr>ca_phase := ph\<rparr>"] by (auto simp: piece_ok_def)
    then show ?thesis
      using assms(1) mem p q phase_ok_le resumed unfolding piece_ok_def co_inv_def by auto
  qed
  then show ?thesis using p resumed unfolding piece_ok_def co_inv_def
    by (auto simp: inflight_ok_def split: option.splits prod.splits)
qed

lemma co_inv_reachable: "reachable s \<Longrightarrow> co_inv s"
  by (induction rule: reachable.induct) (simp add: co_inv_def idle_def inflight_ok_def, rule co_inv_step)

subsection \<open>Properties\<close>

text \<open>C33: A sync that was forced is fresh: whatever way callers, mutations and listings interleave, the listing
  whose outcome a forced caller gets started at the generation of its call or a later one, so after every
  mutation made before the call; and an authentication failure is reported only to a caller whose own client
  made the listing.\<close>

theorem forced_sync_is_fresh:
  assumes "reachable s" and "c \<in> set (co_callers s)" and "ca_phase c = Done t r"
  shows "t < length (co_tasks s) \<and> tk_outcome (co_tasks s ! t) = Some r
    \<and> (ca_force c \<longrightarrow> ca_gen c \<le> tk_started (co_tasks s ! t))
    \<and> (r = AuthFailed \<longrightarrow> tk_owner (co_tasks s ! t) = ca_client c)"
  using co_inv_reachable [OF assms(1)] assms(2,3) by (auto simp: co_inv_def fresh_for_def)

text \<open>Client 1 asks, a mutation follows, client 2 asks: it waits for the old listing and then starts its own.\<close>

definition called :: "nat \<Rightarrow> bool \<Rightarrow> bool \<Rightarrow> coalescer \<Rightarrow> coalescer" where
  "called client force fresh s = (case begin_sync client force fresh s of (ph, s') \<Rightarrow>
     s'\<lparr>co_callers := co_callers s' @ [\<lparr>ca_client = client, ca_force = force, ca_gen = co_gen s, ca_phase = ph\<rparr>]\<rparr>)"

definition went_on :: "nat \<Rightarrow> coalescer \<Rightarrow> coalescer" where
  "went_on i s = (case resume (co_callers s ! i) s of
     Some (ph, s') \<Rightarrow> s'\<lparr>co_callers := (co_callers s')[i := (co_callers s ! i)\<lparr>ca_phase := ph\<rparr>]\<rparr>
   | None \<Rightarrow> s)"

definition mutated :: "coalescer \<Rightarrow> coalescer" where
  "mutated s = s\<lparr>co_gen := co_gen s + 1\<rparr>"

lemma reachable_steps:
  assumes "reachable s"
  shows "reachable (called client force fresh s)" and "reachable (mutated s)"
    and "i < length (co_callers s) \<Longrightarrow> reachable (went_on i s)"
    and "done_task s t = None \<Longrightarrow> t < length (co_tasks s) \<Longrightarrow> reachable (finish_task t r s)"
proof -
  show "reachable (called client force fresh s)"
    using assms co_step.call reachable.step unfolding called_def by (metis (no_types, lifting) case_prod_beta prod.collapse)
  show "reachable (mutated s)" unfolding mutated_def by (rule reachable.step [OF assms co_step.mutate])
  show "reachable (went_on i s)" if "i < length (co_callers s)"
    using assms that co_step.resumed reachable.step unfolding went_on_def by (auto simp del: resume.simps split: option.split)
  show "reachable (finish_task t r s)" if "done_task s t = None" "t < length (co_tasks s)"
    using assms that co_step.finish reachable.step by (simp add: done_task_def)
qed

definition two_asked :: coalescer where
  "two_asked = called 2 True False (mutated (called 1 True False idle))"

definition two_answered :: coalescer where
  "two_answered = went_on 1 (finish_task 1 Synced (went_on 1 (finish_task 0 Synced two_asked)))"

lemma two_answered_reachable: "reachable two_answered"
proof -
  have a: "reachable two_asked" unfolding two_asked_def by (intro reachable_steps reachable.start)
  have "done_task two_asked 0 = None" "0 < length (co_tasks two_asked)" by code_simp+
  note b = reachable_steps(4) [OF a this, of Synced]
  have "1 < length (co_callers (finish_task 0 Synced two_asked))" by code_simp
  note c = reachable_steps(3) [OF b this]
  have "done_task (went_on 1 (finish_task 0 Synced two_asked)) 1 = None"
    "1 < length (co_tasks (went_on 1 (finish_task 0 Synced two_asked)))" by code_simp+
  note d = reachable_steps(4) [OF c this, of Synced]
  have "1 < length (co_callers (finish_task 1 Synced (went_on 1 (finish_task 0 Synced two_asked))))" by code_simp
  then show ?thesis unfolding two_answered_def by (rule reachable_steps(3) [OF d])
qed

theorem forced_sync_is_fresh_witness:
  "reachable two_answered \<and> co_callers two_answered ! 1 = \<lparr>ca_client = 2, ca_force = True, ca_gen = 1, ca_phase = Done 1 Synced\<rparr>
   \<and> 1 \<le> tk_started (co_tasks two_answered ! 1)"
proof -
  have n: "1 < length (co_callers two_answered)" by code_simp
  have c: "co_callers two_answered ! 1 = \<lparr>ca_client = 2, ca_force = True, ca_gen = 1, ca_phase = Done 1 Synced\<rparr>" by code_simp
  have p: "ca_phase (co_callers two_answered ! 1) = Done 1 Synced" unfolding c by simp
  show ?thesis
    using forced_sync_is_fresh [OF two_answered_reachable nth_mem [OF n] p] two_answered_reachable unfolding c by simp
qed

text \<open>How many listings a caller may still wait for.\<close>

fun waits_left :: "phase \<Rightarrow> nat" where
  "waits_left (AwaitStale t) = 3"
| "waits_left (AwaitJoin t) = 2"
| "waits_left (AwaitOwn t) = 1"
| "waits_left _ = 0"

fun awaited :: "phase \<Rightarrow> nat option" where
  "awaited (AwaitStale t) = Some t"
| "awaited (AwaitJoin t) = Some t"
| "awaited (AwaitOwn t) = Some t"
| "awaited _ = None"

lemma start_task_phase: "fst (start_task client g s) = AwaitOwn (length (co_tasks s))"
  by (simp add: start_task_def new_task_def)

text \<open>C34: No caller of sync waits for ever: a waiting caller waits for a listing that exists; once that listing has
  ended the caller can go on; and each time it goes on, the number of listings it may still wait for, three
  at most, gets smaller. So if every listing ends, every sync returns.\<close>

theorem sync_callers_finish:
  assumes "reachable s" and "c \<in> set (co_callers s)" and "awaited (ca_phase c) = Some t"
  shows "t < length (co_tasks s) \<and> (tk_outcome (co_tasks s ! t) \<noteq> None \<longleftrightarrow> resume c s \<noteq> None)
    \<and> waits_left (ca_phase c) \<le> 3 \<and> (\<forall>ph s'. resume c s = Some (ph, s') \<longrightarrow> waits_left ph < waits_left (ca_phase c))"
proof -
  have ok: "phase_ok s c (ca_phase c)" using co_inv_reachable [OF assms(1)] assms(2) by (simp add: co_inv_def)
  then have t: "t < length (co_tasks s)" using assms(3) by (cases "ca_phase c") (auto simp: fresh_for_def)
  have stale: "waits_left (fst (after_stale c s)) \<le> 2"
    by (auto simp: after_stale_def start_task_phase split: option.splits prod.splits)
  have join: "waits_left (fst (after_join c u r s)) \<le> 1" for u r
    by (auto simp: after_join_def new_task_def)
  have "waits_left ph < waits_left (ca_phase c)" if run: "resume c s = Some (ph, s')" for ph s'
  proof (cases "ca_phase c")
    case (AwaitStale u)
    then show ?thesis using run stale by auto
  next
    case (AwaitJoin u)
    then obtain r where "after_join c u r s = (ph, s')" using run by auto
    then show ?thesis using join [of u r] AwaitJoin by simp
  next
    case (AwaitOwn u)
    then show ?thesis using run by auto
  qed (use assms(3) in simp_all)
  moreover have "tk_outcome (co_tasks s ! t) \<noteq> None \<longleftrightarrow> resume c s \<noteq> None"
    using assms(3) t by (cases "ca_phase c") (auto simp: done_task_def)
  moreover have "waits_left (ca_phase c) \<le> 3" by (cases "ca_phase c") auto
  ultimately show ?thesis using t by blast
qed

theorem sync_callers_finish_witness:
  "reachable two_asked \<and> awaited (ca_phase (co_callers two_asked ! 1)) = Some 0
   \<and> tk_outcome (co_tasks two_asked ! 0) = None \<and> resume (co_callers two_asked ! 1) two_asked = None"
proof -
  have r: "reachable two_asked" unfolding two_asked_def by (intro reachable_steps reachable.start)
  have n: "1 < length (co_callers two_asked)" and a: "awaited (ca_phase (co_callers two_asked ! 1)) = Some 0" by code_simp+
  have o: "tk_outcome (co_tasks two_asked ! 0) = None" by code_simp
  show ?thesis using sync_callers_finish [OF r nth_mem [OF n] a] r a o by blast
qed

end
