(* ===== verification/Traffic.thy ===== *)
theory Traffic
  imports Mailbox_Views
begin

text \<open>
  What the operations of the mailbox service do to what outlives them: to the world outside they send requests of
  one API client for one inbox, and on the store they run operations on the mailboxes of that inbox. \<open>reaches\<close> is
  the relation between two states of the service that such requests and operations connect; it is a further
  instance of the interface \<open>service_law\<close>, with the sync shown separately.
\<close>

text \<open>Operations of the store as the service issues them for an inbox.\<close>

fun issued :: "'w service_cfg \<Rightarrow> str \<Rightarrow> store_op \<Rightarrow> bool" where
  "issued cfg inbox (OpInfo e b) \<longleftrightarrow> box_inbox b = inbox \<and> e \<in> range (cf_store_env cfg)"
| "issued cfg inbox (OpEnsure e b ks) \<longleftrightarrow> box_inbox b = inbox \<and> e \<in> range (cf_store_env cfg)"
| "issued cfg inbox (OpTombstone e b present) \<longleftrightarrow> box_inbox b = inbox \<and> e \<in> range (cf_store_env cfg)"
| "issued cfg inbox (OpMark b us v) \<longleftrightarrow> box_inbox b = inbox"

definition store_reaches :: "(store_op \<Rightarrow> bool) \<Rightarrow> store \<Rightarrow> store \<Rightarrow> bool" where
  "store_reaches I st st' \<longleftrightarrow> (\<exists>ops. list_all I ops \<and> st' = store_run st ops)"

lemma store_reaches_refl [simp]: "store_reaches I st st"
  unfolding store_reaches_def by (rule exI [of _ "[]"]) simp

lemma store_reaches_trans: "store_reaches I a b \<Longrightarrow> store_reaches I b c \<Longrightarrow> store_reaches I a c"
proof -
  assume "store_reaches I a b" "store_reaches I b c"
  then obtain xs ys where "list_all I xs" "b = store_run a xs" "list_all I ys" "c = store_run b ys"
    by (auto simp: store_reaches_def)
  then show ?thesis unfolding store_reaches_def by (intro exI [of _ "xs @ ys"]) simp
qed

lemma store_reaches_step: "I x \<Longrightarrow> store_reaches I st (store_step st x)"
  unfolding store_reaches_def by (rule exI [of _ "[x]"]) simp

lemma store_reaches_mono: "store_reaches I st st' \<Longrightarrow> (\<And>x. I x \<Longrightarrow> J x) \<Longrightarrow> store_reaches J st st'"
  unfolding store_reaches_def by (auto simp: list_all_iff)

text \<open>Whatever the requests of \<open>api\<close>, its clock and its random source keep of the world, is kept.\<close>

definition world_reaches :: "'w service_cfg \<Rightarrow> client \<Rightarrow> str \<Rightarrow> 'w \<Rightarrow> 'w \<Rightarrow> bool" where
  "world_reaches cfg api inbox w w' \<longleftrightarrow> (\<forall>Q. env_keeps Q (modest api inbox) (cf_http cfg) \<longrightarrow> Q w \<longrightarrow> Q w')"

lemma world_reaches_refl [simp]: "world_reaches cfg api inbox w w"
  by (simp add: world_reaches_def)

lemma world_reaches_trans: "world_reaches cfg api inbox a b \<Longrightarrow> world_reaches cfg api inbox b c \<Longrightarrow> world_reaches cfg api inbox a c"
  unfolding world_reaches_def by blast

definition reaches :: "'w service_cfg \<Rightarrow> client \<Rightarrow> str \<Rightarrow> 'w service \<Rightarrow> 'w service \<Rightarrow> bool" where
  "reaches cfg api inbox s s' \<longleftrightarrow> world_reaches cfg api inbox (sv_world s) (sv_world s') \<and> store_reaches (issued cfg inbox) (sv_store s) (sv_store s')"

lemma reaches_refl [simp]: "reaches cfg api inbox s s"
  by (simp add: reaches_def)

lemma reaches_trans: "reaches cfg api inbox s s' \<Longrightarrow> reaches cfg api inbox s' s'' \<Longrightarrow> reaches cfg api inbox s s''"
  using world_reaches_trans [of cfg api inbox "sv_world s" "sv_world s'" "sv_world s''"]
    store_reaches_trans [of "issued cfg inbox" "sv_store s" "sv_store s'" "sv_store s''"] by (simp add: reaches_def)

lemma reachesD:
  assumes "reaches cfg api inbox s s'" and "env_keeps Q (modest api inbox) (cf_http cfg)" and "Q (sv_world s)"
  shows "Q (sv_world s')"
proof -
  have "world_reaches cfg api inbox (sv_world s) (sv_world s')" using assms(1) by (simp add: reaches_def)
  then show ?thesis using assms(2,3) unfolding world_reaches_def by blast
qed

lemma reaches_stored: "reaches cfg api inbox s s' \<Longrightarrow> store_reaches (issued cfg inbox) (sv_store s) (sv_store s')"
  by (simp add: reaches_def)

lemma reaches_frame:
  "reaches cfg api inbox s s' \<Longrightarrow> sv_world s'' = sv_world s' \<Longrightarrow> sv_store s'' = sv_store s' \<Longrightarrow> reaches cfg api inbox s s''"
  by (simp add: reaches_def)

lemma reaches_op:
  "reaches cfg api inbox s s' \<Longrightarrow> issued cfg inbox x \<Longrightarrow> reaches cfg api inbox s (s'\<lparr>sv_store := store_step (sv_store s') x\<rparr>)"
  using store_reaches_step [of "issued cfg inbox" x "sv_store s'"] store_reaches_trans by (auto simp: reaches_def)

lemma reaches_http: "env_keeps (reaches cfg api inbox s) (modest api inbox) (service_http cfg)"
proof -
  have "reaches cfg api inbox s (s'\<lparr>sv_world := w\<rparr>)"
    if "reaches cfg api inbox s s'" "\<And>Q. env_keeps Q (modest api inbox) (cf_http cfg) \<Longrightarrow> Q (sv_world s') \<Longrightarrow> Q w" for s' w
    using that unfolding reaches_def world_reaches_def by auto
  then show ?thesis
    by (auto simp: env_keeps_def service_http_def Let_def split: prod.split) (metis snd_conv)+
qed

lemma reaches_modify:
  "(\<And>s. sv_world (f s) = sv_world s) \<Longrightarrow> (\<And>s. sv_store (f s) = sv_store s) \<Longrightarrow> io_keeps (reaches cfg api inbox s0) (io_modify f)"
  by (simp add: io_keeps_def reaches_def)

lemma reaches_step:
  "(\<And>s. sv_world (snd (f s)) = sv_world s) \<Longrightarrow> (\<And>s. sv_store (snd (f s)) = sv_store s) \<Longrightarrow> io_keeps (reaches cfg api inbox s0) (io_step f)"
  by (simp add: io_keeps_def reaches_def)

text \<open>The statements on the store.\<close>

lemma reaches_statement:
  "(\<And>s. snd (m s) = s\<lparr>sv_store := store_step (sv_store s) (x s)\<rparr>) \<Longrightarrow> (\<And>s. issued cfg inbox (x s)) \<Longrightarrow> io_keeps (reaches cfg api inbox s0) m"
  by (simp add: io_keeps_def reaches_op)

lemma reaches_allocate: "io_keeps (reaches cfg api inbox s0) (allocate cfg (Box inbox nm) ks)"
  by (rule reaches_statement [where x = "\<lambda>s. OpEnsure (store_env_of cfg s) (Box inbox nm) ks"])
     (simp_all add: allocate_def store_env_of_def split: prod.split sum.split)

lemma reaches_info: "io_keeps (reaches cfg api inbox s0) (service_info cfg inbox nm)"
  by (rule reaches_statement [where x = "\<lambda>s. OpInfo (store_env_of cfg s) (Box inbox nm)"])
     (simp_all add: service_info_def store_env_of_def split: prod.split)

lemma reaches_retire:
  assumes "finite present"
  shows "io_keeps (reaches cfg api inbox s0) (io_modify (retire_missing cfg (Box inbox nm) present))"
proof -
  obtain ks where "set ks = present" using finite_list [OF assms] by blast
  then show ?thesis
    by (intro reaches_statement [where x = "\<lambda>s. OpTombstone (store_env_of cfg s) (Box inbox nm) ks"])
       (simp_all add: retire_missing_def store_env_of_def)
qed

lemma reaches_mark: "reaches cfg api inbox s0 s \<Longrightarrow> reaches cfg api inbox s0 (s\<lparr>sv_store := set_deleted (sv_store s) (Box inbox nm) us v\<rparr>)"
  using reaches_op [of cfg api inbox s0 s "OpMark (Box inbox nm) us v"] by simp

text \<open>A sync.\<close>

lemma reaches_cache: "io_keeps (reaches cfg api inbox s0) (cache_read k)" "io_keeps (reaches cfg api inbox s0) (cache_write k v)"
  unfolding cache_read_def cache_write_def by (rule reaches_step reaches_modify; simp split: prod.split)+

lemma reaches_collect: "io_keeps (reaches cfg api inbox s0) (collect cfg api inbox mdef)"
proof -
  have labels: "io_keeps (reaches cfg api inbox s0) (io_step (effective_labels cfg inbox mid listed))" for mid listed
    by (rule reaches_step) (simp_all add: effective_labels_def split: option.split prod.split)
  have message: "io_keeps (reaches cfg api inbox s0) (collect_message cfg inbox mdef m acc)" for m acc
    unfolding collect_message_def Let_def by (auto simp del: io_simps intro!: io_keeps_bind labels)
  have "io_keeps (reaches cfg api inbox s0) (render_cached cfg api inbox did u)" for did u
    unfolding render_cached_def Let_def
    by (auto simp del: io_simps intro!: io_keeps_bind io_keeps_then io_keeps_try reaches_cache
        fetch_draft_keeps reaches_http split: option.split sum.split)
  then have draft: "io_keeps (reaches cfg api inbox s0) (collect_draft cfg api inbox d acc)" for d acc
    unfolding collect_draft_def Let_def
    by (auto simp del: io_simps intro!: io_keeps_bind io_keeps_then reaches_cache split: option.split)
  show ?thesis
    unfolding collect_def collect_messages_def collect_drafts_def
    by (auto simp del: io_simps intro!: io_keeps_bind client_listings_keep reaches_http message draft
        split: mailbox_kind.split)
qed

lemma reaches_do_sync: "io_keeps (reaches cfg api inbox s0) (do_sync cfg api inbox mdef)"
  unfolding do_sync_def finish_sync_def Let_def
  by (auto simp del: io_simps simp: apply_pins_def Let_def
      intro!: io_keeps_bind io_keeps_then reaches_collect reaches_allocate reaches_info reaches_retire reaches_step)

interpretation outgoing: service_law cfg api inbox "reaches cfg api inbox s0" for cfg api inbox s0
proof (unfold_locales, goal_cases)
  case 1
  show ?case by (rule reaches_http)
next
  case (5 s nm us v)
  then show ?case by (rule reaches_mark)
next
  case (8 nm ks)
  show ?case by (rule reaches_allocate)
next
  case (9 nm)
  show ?case by (rule reaches_info)
next
  case (11 s nm mdef)
  then show ?case using reaches_do_sync [of cfg api inbox s0 mdef] unfolding io_keeps_def by blast
qed (erule reaches_frame; simp add: pin_def unpin_def replace_item_def Let_def split: option.split)+

section \<open>The operations\<close>

text \<open>An operation whose only effect on the world are requests of the client.\<close>

definition roams :: "'w service_cfg \<Rightarrow> client \<Rightarrow> str \<Rightarrow> ('w, 'a) service_io \<Rightarrow> bool" where
  "roams cfg api inbox m \<longleftrightarrow> (\<forall>s. reaches cfg api inbox s (snd (m s)))"

named_theorems roaming \<open>operations of the service that reach the world through the client only\<close>

lemma roamsI: "(\<And>s0. io_keeps (reaches cfg api inbox s0) m) \<Longrightarrow> roams cfg api inbox m"
  by (simp add: roams_def io_keeps_def)

lemma roams_operations [roaming]:
  "roams cfg api inbox (sync cfg api inbox nm force)" "roams cfg api inbox (append_draft cfg api inbox df cid)"
  "roams cfg api inbox (expunge_items cfg api inbox nm items)" "roams cfg api inbox (raw_bytes cfg api inbox nm i)"
  "roams cfg api inbox (size_of cfg api inbox nm i)" "roams cfg api inbox (service_info cfg inbox nm)"
  by (rule roamsI, rule outgoing.sync_kept outgoing.append_kept outgoing.expunge_kept outgoing.raw_bytes_kept
      outgoing.size_of_kept outgoing.infos)+

lemma roams_requests [roaming]:
  "roams cfg api inbox (auth_me api (service_http cfg))" "roams cfg api inbox (get_inbox api (service_http cfg) inbox)"
  by (rule roamsI, rule client_calls_keep [OF reaches_http])+

lemma roams_set_flag [roaming]: "roams cfg api inbox (set_flag cfg api inbox nm i flag value)"
proof (rule roamsI)
  show "io_keeps (reaches cfg api inbox s0) (set_flag cfg api inbox nm i flag value)" for s0
    unfolding set_flag_def Let_def
    by (auto simp del: io_simps simp: replace_item_def hold_labels_def split: option.split
        intro!: io_keeps_bind io_keeps_then outgoing.api_calls reaches_modify)
qed

lemma roams_copy [roaming]: "roams cfg api inbox (copy_to_trash cfg api inbox nm items)"
proof (rule roamsI)
  fix s0
  have "io_keeps (reaches cfg api inbox s0) (trash_one cfg api inbox trash i acc)" for trash i acc
    unfolding trash_one_def Let_def
    by (auto simp del: io_simps simp: pin_def hold_labels_def Let_def
        intro!: io_keeps_bind io_keeps_then outgoing.api_calls outgoing.allocates reaches_modify)
  then show "io_keeps (reaches cfg api inbox s0) (copy_to_trash cfg api inbox nm items)"
    unfolding copy_to_trash_def
    by (auto simp del: io_simps simp: bump_def split: option.split
        intro!: io_keeps_bind io_keeps_then io_keeps_when io_keeps_fold outgoing.sync_if_new_kept reaches_modify)
qed

end
