(* ===== verification/Session_Frame.thy ===== *)
theory Session_Frame
  imports Commands Traffic
begin

text \<open>
  Properties of a session that survive every command: the interface \<open>session_frame\<close> lists the elementary changes a
  handler makes to its session, and its lemmas carry a property that survives them through every handler but
  LOGIN; \<open>session_login\<close> adds what LOGIN needs and goes on to whole commands. The service changes only by what the
  requests of a client for an inbox reach, and these pairs are those the property allows (\<open>ours\<close>).
\<close>

section \<open>Properties the handlers leave alone\<close>

locale session_frame =
  fixes env :: "'w session_env" and ours :: "client \<Rightarrow> str \<Rightarrow> bool" and P :: "'w session \<Rightarrow> bool"
  assumes holds: "P s \<Longrightarrow> ss_api s = Some api \<Longrightarrow> ss_inbox s = Some inbox \<Longrightarrow> ours api inbox"
    and owes: "P s \<Longrightarrow> task \<in> set (ss_deferred s) \<Longrightarrow> ours (fst task) (snd task)"
    and service: "P s \<Longrightarrow> ours api inbox \<Longrightarrow> reaches (se_service env) api inbox (ss_service s) sv \<Longrightarrow> P (s\<lparr>ss_service := sv\<rparr>)"
    and out: "P s \<Longrightarrow> P (s\<lparr>ss_out := rs\<rparr>)"
    and sent: "P s \<Longrightarrow> P (s\<lparr>ss_sent := rs\<rparr>)"
    and selection: "P s \<Longrightarrow> P (s\<lparr>ss_selected := x\<rparr>)"
    and deferral: "P s \<Longrightarrow> \<forall>task \<in> set ts. ours (fst task) (snd task) \<Longrightarrow> P (s\<lparr>ss_deferred := ts\<rparr>)"
    and closing: "P s \<Longrightarrow> P (s\<lparr>ss_closed := b\<rparr>)"
    and advance: "st \<noteq> NotAuthenticated \<Longrightarrow> P s \<Longrightarrow> P (s\<lparr>ss_state := st\<rparr>)"
    and timing: "P s \<Longrightarrow> P (s\<lparr>ss_deadline := t\<rparr>)"
    and assembling: "P s \<Longrightarrow> P (s\<lparr>ss_assembly_deadline := d\<rparr>)"
    and parsing: "P s \<Longrightarrow> P (s\<lparr>ss_parser := p\<rparr>)"
begin

lemmas updates = out sent selection closing advance timing assembling parsing

lemma pushed: "P s \<Longrightarrow> P (push r s)"
  by (simp add: push_def out)

lemma flushed: "P s \<Longrightarrow> P (flush_out env s)"
proof -
  assume P: "P s"
  have "s\<lparr>ss_out := [], ss_sent := ss_sent s @ ss_out s\<rparr> = (s\<lparr>ss_out := []\<rparr>)\<lparr>ss_sent := ss_sent s @ ss_out s\<rparr>" by simp
  then have "P (s\<lparr>ss_out := [], ss_sent := ss_sent s @ ss_out s\<rparr>)" using P out sent by metis
  then have "P (s\<lparr>ss_out := [], ss_sent := ss_sent s @ ss_out s, ss_closed := True, ss_state := Logout\<rparr>)"
    using closing advance [of Logout] by (metis state.distinct(5))
  then show ?thesis
    using P \<open>P (s\<lparr>ss_out := [], ss_sent := ss_sent s @ ss_out s\<rparr>)\<close>
    by (simp add: flush_out_def abort_def Let_def out split: drain_outcome.split)
qed

lemma announced: "P s \<Longrightarrow> P (flush_pending env s)"
proof -
  assume P: "P s"
  have "P (s\<lparr>ss_selected := x, ss_out := rs\<rparr>)" for x rs using out [OF selection [OF P]] by simp
  then show ?thesis using P by (simp add: flush_pending_def split: option.split prod.split)
qed

lemma view_changes: "P s \<Longrightarrow> P (record_flags u fs s)" "P s \<Longrightarrow> P (prune_view env inbox nm s)"
  by (auto simp: record_flags_def prune_view_def Let_def selection split: option.split)

lemma state_changes: "P s \<Longrightarrow> P (deselect s)" "P s \<Longrightarrow> P (apply_snapshot env inbox sn ro s)"
proof -
  have two: "P s \<Longrightarrow> st \<noteq> NotAuthenticated \<Longrightarrow> P (s\<lparr>ss_selected := x, ss_state := st\<rparr>)" for s st x
    using advance [OF _ selection] by simp
  show "P s \<Longrightarrow> P (deselect s)" by (simp add: deselect_def two)
  show "P s \<Longrightarrow> P (apply_snapshot env inbox sn ro s)" by (simp add: apply_snapshot_def Let_def two)
qed

lemma parts:
  "io_keeps P (say r)" "io_keeps P (ensure b e)" "io_keeps P (ok_reply cmd label)" "io_keeps P (require_state sts)"
  "io_keeps P require_selected"
  "io_keeps P (io_modify (flush_pending env))" "io_keeps P (io_modify (flush_out env))"
  "io_keeps P (io_modify (record_flags u fs))" "io_keeps P (io_modify (prune_view env inbox nm))"
  "io_keeps P (io_modify deselect)" "io_keeps P (io_modify (apply_snapshot env inbox sn ro))"
  by (auto simp: say_def ensure_def ok_reply_def require_state_def require_selected_def io_keeps_def pushed flushed announced view_changes state_changes updates
      split: prod.split option.split)

lemma called: "ours api inbox \<Longrightarrow> roams (se_service env) api inbox m \<Longrightarrow> io_keeps P (service_call env m)"
  by (auto simp: io_keeps_def service_call_def roams_def split: prod.split) (metis service snd_conv)+

lemma stepped: "ours api inbox \<Longrightarrow> roams (se_service env) api inbox m \<Longrightarrow> io_keeps P (on_service_step m)"
  by (auto simp: io_keeps_def on_service_step_def roams_def split: prod.split) (metis service snd_conv)+

lemma marked: "ours api inbox \<Longrightarrow> io_keeps P (on_service (service_set_deleted (se_service env) inbox nm us v))"
proof -
  assume "ours api inbox"
  moreover have "reaches (se_service env) api inbox s (service_set_deleted (se_service env) inbox nm us v s)" for s
    by (rule outgoing.deleted_kept [OF reaches_refl])
  ultimately show ?thesis by (auto simp: on_service_def io_keeps_def intro: service)
qed

lemma with_api: "(\<And>api inbox. ours api inbox \<Longrightarrow> io_keeps P (f (api, inbox))) \<Longrightarrow> io_keeps P (io_bind need_api f)"
  by (auto simp: io_keeps_def io_bind_def need_api_def holds split: option.split)

lemma deferred: "ours (fst task) (snd task) \<Longrightarrow> io_keeps P (io_modify (defer_work task))"
  using owes by (fastforce simp: io_keeps_def defer_work_def intro!: deferral)

lemma said_all: "io_keeps P (say_all rs)"
  unfolding say_all_def by (intro io_keeps_fold parts)

lemma skipped: "io_keeps P m \<Longrightarrow> io_keeps P (skip_vanished m)"
  unfolding skip_vanished_def by (intro io_keeps_catch io_keeps_bind) auto

lemma mapped: "(\<And>x. x \<in> set xs \<Longrightarrow> io_keeps P (f x)) \<Longrightarrow> io_keeps P (io_map f xs)"
  unfolding io_map_def by (intro io_keeps_fold io_keeps_bind) auto

end
section \<open>The handlers\<close>

context session_frame
begin

lemma refreshed: "io_keeps P (refresh_selected env)"
proof -
  have "io_keeps P (io_then (service_call env (sync (se_service env) api inbox nm True)) (io_modify (flush_pending env)))"
    if "ours api inbox" for api inbox nm
    by (intro io_keeps_then parts called [OF that] roaming)
  then show ?thesis using holds by (auto simp: refresh_selected_def io_keeps_def split: state.split option.split)
qed

lemma scope_checked: "ours api userid \<Longrightarrow> io_keeps P (check_scope env api userid identity)"
  unfolding check_scope_def refuse_invisible_def Let_def http_of_def
  by (auto simp del: io_simps intro!: io_keeps_then io_keeps_catch parts called roaming
      split: cmd_error.split api_error.split)

lemma arguments_listed: "io_keeps P (list_args label cmd)"
  unfolding list_args_def Let_def by (auto simp del: io_simps intro!: io_keeps_bind io_keeps_then parts)

lemma helpers:
  assumes "ours api inbox"
  shows "io_keeps P (current_snapshot env api inbox nm)" and "io_keeps P (fetch_part env api inbox nm deleted u i raw a)"
    and "io_keeps P (mark_seen env api inbox nm sets i)"
  unfolding current_snapshot_def fetch_part_def tell_flags_def mark_seen_def Let_def
  by (auto simp del: io_simps intro!: io_keeps_bind io_keeps_then io_keeps_catch parts called [OF assms] roaming
      split: cmd_error.split api_error.split option.split)

lemma fetched:
  assumes "ours api inbox"
  shows "io_keeps P (fetch_one env api inbox nm attrs sets deleted sn target)"
proof -
  have "io_keeps P (fetch_item env api inbox nm attrs sets deleted u i)" for u i
    unfolding fetch_item_def tell_flags_def
    by (auto simp del: io_simps intro!: io_keeps_bind io_keeps_then mapped helpers [OF assms] parts called [OF assms] roaming
        split: prod.split)
  then show ?thesis unfolding fetch_one_def
    by (auto simp del: io_simps intro!: io_keeps_bind skipped io_keeps_then parts split: prod.split option.split)
qed

lemma evaluated:
  assumes "\<And>i. io_keeps P (sc_raw ctx i)" and "\<And>i. io_keeps P (sc_size ctx i)"
  shows "io_keeps P (evaluate lib ctx c i seq)" and "io_keeps P (eval_and lib ctx cs i seq)"
proof -
  have "io_keeps P (eval_date lib ctx nm d i)" "io_keeps P (eval_text lib ctx nm n i)" "io_keeps P (eval_header lib ctx nm n i)"
    for nm d n i
    unfolding eval_date_def eval_text_def eval_header_def Let_def
    using assms by (auto simp del: io_simps intro!: io_keeps_bind split: option.split)
  then show "io_keeps P (evaluate lib ctx c i seq)" and "io_keeps P (eval_and lib ctx cs i seq)"
    using assms
    by (induction lib ctx c i seq and lib ctx cs i seq rule: evaluate_eval_and.induct)
       (auto simp del: io_simps intro!: io_keeps_bind)
qed

lemma searched:
  assumes "ours api inbox"
  shows "io_keeps P (search_one env (search_context env api inbox sel deleted) crit uid_mode sn target hits)"
  unfolding search_one_def
  by (auto simp del: io_simps intro!: io_keeps_bind skipped evaluated parts called [OF assms] roaming
      simp: search_context_def split: prod.split option.split)

lemma stored:
  assumes "ours api inbox"
  shows "io_keeps P (store_one env api inbox nm uid_mode silent mode flags permanent sn target deleted)"
proof -
  have "io_keeps P (store_flag env api inbox nm u current wanted flag acc)" for u current wanted flag acc
    unfolding store_flag_def Let_def
    by (auto simp del: io_simps intro!: io_keeps_bind io_keeps_then parts called [OF assms] roaming marked [OF assms]
        split: prod.split)
  then show ?thesis unfolding store_one_def Let_def
    by (auto simp del: io_simps intro!: io_keeps_bind io_keeps_fold io_keeps_then io_keeps_when parts called [OF assms] roaming
        split: prod.split option.split)
qed

lemma expunged: "io_keeps P (expunge_deleted env only silent)"
proof -
  have "io_keeps P (expunge_marked env api inbox nm doomed silent)" if "ours api inbox" for api inbox nm doomed
    unfolding expunge_marked_def
    by (auto simp del: io_simps intro!: io_keeps_bind io_keeps_then parts called [OF that] roaming)
  then show ?thesis unfolding expunge_deleted_def Let_def
    by (auto simp del: io_simps intro!: with_api io_keeps_bind io_keeps_then parts helpers split: prod.split option.split)
qed

lemmas frame_intros = with_api io_keeps_bind io_keeps_then io_keeps_when io_keeps_fold parts helpers said_all

lemma simple_handlers:
  "io_keeps P (capability_cmd env cmd)" "io_keeps P (noop_cmd env cmd)" "io_keeps P (unsupported_cmd msg env cmd)"
  "io_keeps P (list_cmd env cmd)" "io_keeps P (lsub_cmd env cmd)" "io_keeps P (id_cmd env cmd)"
  "io_keeps P (namespace_cmd env cmd)" "io_keeps P (subscribe_cmd env cmd)" "io_keeps P (check_cmd env cmd)"
  unfolding capability_cmd_def noop_cmd_def unsupported_cmd_def list_cmd_def lsub_cmd_def id_cmd_def namespace_cmd_def
    subscribe_cmd_def check_cmd_def Let_def
  by (auto simp del: io_simps intro!: frame_intros refreshed arguments_listed split: prod.split option.split if_splits)

lemma listing_handlers:
  "io_keeps P (status_cmd env cmd)" "io_keeps P (append_cmd env cmd)" "io_keeps P (select_mailbox ro env cmd)"
  unfolding status_cmd_def append_cmd_def select_mailbox_def Let_def
  by (auto simp del: io_simps intro!: frame_intros called roaming deferred split: prod.split option.split if_splits)

lemma logged_out: "io_keeps P (logout_cmd env cmd)"
  unfolding logout_cmd_def by (intro io_keeps_then io_keeps_modify parts advance) simp

lemma message_handlers:
  "io_keeps P (run_fetch uid_mode args env cmd)" "io_keeps P (run_search uid_mode args env cmd)"
  "io_keeps P (run_store uid_mode args env cmd)" "io_keeps P (run_uid_expunge args env cmd)"
  "io_keeps P (run_copy uid_mode moving args env cmd)" "io_keeps P (expunge_cmd env cmd)"
  "io_keeps P (close_with_expunge_cmd env cmd)"
  unfolding run_fetch_def run_search_def run_store_def run_uid_expunge_def run_copy_def expunge_cmd_def
    close_with_expunge_cmd_def Let_def
  by (auto simp del: io_simps intro!: frame_intros fetched searched stored expunged called stepped roaming split: prod.split option.split)

lemma uid_handler: "io_keeps P (uid_cmd env cmd)"
  unfolding uid_cmd_def uid_handlers_def
  by (auto simp del: io_simps intro!: frame_intros message_handlers split: option.split if_splits)

lemma all_handlers:
  assumes "(nm, h) \<in> set handler_list" and "nm \<noteq> ''LOGIN''"
  shows "io_keeps P (h env cmd)"
  using assms unfolding handler_list_def list.set insert_iff empty_iff prod.inject
  by (elim disjE conjE; simp add: simple_handlers listing_handlers logged_out message_handlers uid_handler select_cmd_def examine_cmd_def
      fetch_cmd_def search_cmd_def store_cmd_def copy_cmd_def move_cmd_def)

lemma concluded: "P s \<Longrightarrow> P (conclude env cmd e s)"
  by (simp add: conclude_def pushed advance split: prod.split)

lemma followed_up: "P s \<Longrightarrow> P (run_deferred env s)"
proof -
  assume P: "P s"
  have step: "P (run_followup env t s')" if "P s'" "ours (fst t) (snd t)" for t s'
  proof -
    have "reaches (se_service env) (fst t) (snd t) (ss_service s') (snd (sync (se_service env) (fst t) (snd t) ''Drafts'' True (ss_service s')))"
      using roams_operations(1) unfolding roams_def by blast
    then show ?thesis using that service by (simp add: run_followup_def)
  qed
  have "P (fold (run_followup env) ts s')" if "P s'" "\<forall>t \<in> set ts. ours (fst t) (snd t)" for ts s'
    using that by (induction ts arbitrary: s') (simp_all add: step)
  then show ?thesis using P owes deferral [of s "[]"] by (simp add: run_deferred_def Let_def flushed announced)
qed

end

section \<open>LOGIN and whole commands\<close>

text \<open>The inboxes a client may log in to.\<close>

definition permitted :: "'w session_env \<Rightarrow> str \<Rightarrow> bool" where
  "permitted env inbox \<longleftrightarrow> (case se_allowed env of None \<Rightarrow> True | Some a \<Rightarrow> a = [] \<or> inbox = a)"

lemma after_check: "(b \<Longrightarrow> io_keeps P m) \<Longrightarrow> io_keeps P (io_then (ensure b e) m)"
  by (cases b) (simp_all add: io_keeps_def io_then_def io_bind_def ensure_def)

locale session_login = session_frame +
  assumes taken: "P s \<Longrightarrow> permitted env inbox \<Longrightarrow> P (snd (set_credentials env inbox key s))"
    and dropped: "P s \<Longrightarrow> P (clear_credentials s)"
begin

lemma with_credentials:
  assumes "permitted env inbox" and "\<And>api. ours api inbox \<Longrightarrow> io_keeps P (f api)"
  shows "io_keeps P (io_bind (io_step (set_credentials env inbox key)) f)"
  unfolding io_keeps_def
proof (intro allI impI)
  fix s assume "P s"
  then have P: "P (snd (set_credentials env inbox key s))" by (rule taken [OF _ assms(1)])
  then have "ours (fst (set_credentials env inbox key s)) inbox" by (rule holds) (simp_all add: set_credentials_def Let_def)
  then show "P (snd (io_bind (io_step (set_credentials env inbox key)) f s))"
    using assms(2) P by (simp add: io_bind_def io_keeps_def split: prod.split)
qed

lemma logged_in: "io_keeps P (login_cmd env cmd)"
proof -
  have "io_keeps P (io_bind (service_call env (auth_me api (http_of env))) (\<lambda>identity.
      io_then (check_scope env api userid identity) (io_then (io_modify (\<lambda>s. s\<lparr>ss_state := Authenticated\<rparr>)) (say r))))"
    if "ours api userid" for api userid r
    unfolding http_of_def
    by (auto simp del: io_simps intro!: io_keeps_bind io_keeps_then io_keeps_modify parts called [OF that] roaming
        scope_checked [OF that] advance)
  then have rest: "io_keeps P (io_bind (io_step (set_credentials env userid password)) (\<lambda>api.
      io_bind (service_call env (auth_me api (http_of env))) (\<lambda>identity.
        io_then (check_scope env api userid identity) (io_then (io_modify (\<lambda>s. s\<lparr>ss_state := Authenticated\<rparr>)) (say r)))))"
    if "permitted env userid" for userid password r
    by (intro with_credentials that)
  show ?thesis
    unfolding login_cmd_def permitted_def [symmetric]
    by (rule io_keeps_bind, rule io_keeps_basic, (rule after_check)+, rule io_keeps_bind, rule io_keeps_basic,
        rule io_keeps_bind, rule io_keeps_basic, (rule after_check)+, rule rest)
qed

lemma handled_by: "(nm, h) \<in> set handler_list \<Longrightarrow> io_keeps P (h env cmd)"
proof (cases "nm = ''LOGIN''")
  case True
  moreover assume "(nm, h) \<in> set handler_list"
  ultimately have "h = login_cmd" by (simp add: handler_list_def)
  then show ?thesis by (simp add: logged_in)
qed (rule all_handlers)

lemma dispatched: "P s \<Longrightarrow> P (dispatch env handlers cmd s)"
proof -
  assume P: "P s"
  show ?thesis
  proof (cases rule: dispatch_cases [of handlers cmd env s])
    case unknown
    then show ?thesis using P by (simp add: pushed)
  next
    case (known h r s1)
    have "(cmd_name cmd, h) \<in> set handler_list" using known(1) by (simp add: handlers_def map_of_SomeD)
    then have "P s1" using handled_by [of "cmd_name cmd" h cmd] timing [OF P] known(2) unfolding io_keeps_def by (metis snd_conv)
    then have "P (concluded env cmd (r, s1))" by (cases r) (simp_all add: concluded)
    then show ?thesis unfolding known(3) by (intro followed_up) (simp add: drop_failed_login_def dropped)
  qed
qed

lemma event_handled: "P s \<Longrightarrow> P (handle_event env handlers ev s)"
  by (auto simp: handle_event_def Let_def dispatched pushed advance split: event.split option.split list.split)

lemma hung_up: "P s \<Longrightarrow> P (close_session env s)"
proof -
  have "s\<lparr>ss_closed := True, ss_state := Logout\<rparr> = (s\<lparr>ss_closed := True\<rparr>)\<lparr>ss_state := Logout\<rparr>" for s :: "'a session" by simp
  then have "P (s\<lparr>ss_closed := True, ss_state := Logout\<rparr>)" if "P s" for s
    using advance [OF _ closing [OF that], of Logout] by simp
  then show "P s \<Longrightarrow> P (close_session env s)" by (simp add: close_session_def dropped flushed)
qed

end

end
