(* ===== verification/Credentials.thy ===== *)
theory Credentials
  imports Session_Frame
begin

text \<open>
  Who holds which API key: two instances of \<open>session_frame\<close>, the credentials and the state before LOGIN. The lemmas
  show that a session outside a command holds a key exactly when it has a client, that a failed LOGIN leaves
  none, and that the shared redactor changes by the keys a session takes and gives back.
\<close>

section \<open>The keys of a session\<close>

definition credentials :: "'w session \<Rightarrow> str option \<times> client option \<times> redactor" where
  "credentials s = (ss_api_key s, ss_api s, ss_redactor s)"

interpretation same_keys: session_frame env "\<lambda>_ _. True" "\<lambda>s. credentials s = K"
  for env and K :: "str option \<times> client option \<times> redactor"
  by unfold_locales (simp_all add: credentials_def)

interpretation locked: session_frame env "\<lambda>_ _. True" "\<lambda>s. ss_state s = NotAuthenticated \<longrightarrow> ss_api_key s = None"
  for env
  by unfold_locales simp_all

text \<open>Between two commands.\<close>

definition holder_ok :: "'w session \<Rightarrow> bool" where
  "holder_ok s \<longleftrightarrow> (ss_api_key s = None \<longleftrightarrow> ss_api s = None) \<and> ss_api_key s \<noteq> Some []
     \<and> (ss_state s = NotAuthenticated \<longrightarrow> ss_api_key s = None)"

definition own_keys :: "'w session \<Rightarrow> str multiset" where
  "own_keys s = (case ss_api_key s of None \<Rightarrow> {#} | Some k \<Rightarrow> {#k#})"

text \<open>The redactor went from counting the keys of the session before, beside others, to those after.\<close>

definition recounted :: "'w session \<Rightarrow> 'w session \<Rightarrow> bool" where
  "recounted s s' \<longleftrightarrow> redactor_ok (ss_redactor s')
     \<and> redactor_bag (ss_redactor s') + own_keys s = redactor_bag (ss_redactor s) + own_keys s'"

lemma recounted_refl: "redactor_ok (ss_redactor s) \<Longrightarrow> credentials s' = credentials s \<Longrightarrow> recounted s s'"
  by (simp add: recounted_def credentials_def own_keys_def)

lemma recounted_trans: "recounted a b \<Longrightarrow> recounted b c \<Longrightarrow> recounted a c"
  unfolding recounted_def multiset_eq_iff
proof (intro conjI allI; elim conjE)
  fix x
  assume "\<forall>x. count (redactor_bag (ss_redactor b) + own_keys a) x = count (redactor_bag (ss_redactor a) + own_keys b) x"
    and "\<forall>x. count (redactor_bag (ss_redactor c) + own_keys b) x = count (redactor_bag (ss_redactor b) + own_keys c) x"
  from this [THEN spec [of _ x]]
  show "count (redactor_bag (ss_redactor c) + own_keys a) x = count (redactor_bag (ss_redactor a) + own_keys c) x"
    by simp
qed

lemma credentials_frame [simp]:
  "credentials (push r s) = credentials s" "credentials (flush_out env s) = credentials s"
  "credentials (conclude env cmd e s) = credentials s" "credentials (run_deferred env s) = credentials s"
  using same_keys.pushed [of s "credentials s"] same_keys.flushed [of s "credentials s"]
    same_keys.concluded [of s "credentials s"] same_keys.followed_up [of s "credentials s"] by simp_all

text \<open>Giving the key back.\<close>

lemma cleared:
  assumes "redactor_ok (ss_redactor s)" and "ss_api_key s \<noteq> Some []" and "own_keys s \<subseteq># redactor_bag (ss_redactor s)"
  shows "recounted s (clear_credentials s)" and "own_keys (clear_credentials s) = {#}" and "holder_ok (clear_credentials s)"
proof -
  show "own_keys (clear_credentials s) = {#}" "holder_ok (clear_credentials s)"
    by (simp_all add: clear_credentials_def own_keys_def Let_def holder_ok_def)
  show "recounted s (clear_credentials s)"
  proof (cases "ss_api_key s")
    case None
    then show ?thesis using assms(1) by (simp add: recounted_def own_keys_def clear_credentials_def)
  next
    case (Some k)
    then have "k \<in># redactor_bag (ss_redactor s)" "k \<noteq> []" using assms(2,3) by (auto simp: own_keys_def)
    then show ?thesis
      using assms(1) Some by (simp add: recounted_def own_keys_def clear_credentials_def Let_def redactor.unregister_ok redactor.unregister_bag)
  qed
qed

section \<open>LOGIN\<close>

lemma guard_runs:
  "io_then (ensure b e) m s = (if b then m s else (Inl e, s))"
  "io_bind (io_lift r) f s = (case r of Inl e \<Rightarrow> (Inl e, s) | Inr x \<Rightarrow> f x s)"
  "io_bind (io_get g) f s = f (g s) s" "io_bind (io_step h) f s = f (fst (h s)) (snd (h s))"
  by (simp_all add: io_then_def io_bind_def ensure_def split: prod.split sum.split)

lemma login_credentials:
  fixes s :: "'w session"
  assumes "holder_ok s"
  obtains "credentials (snd (login_cmd env cmd s)) = credentials s"
      "ss_state (snd (login_cmd env cmd s)) = NotAuthenticated \<longrightarrow> ss_api_key s = None"
  | userid key where "key \<noteq> []" "ss_api_key s = None"
      "credentials (snd (login_cmd env cmd s)) = credentials (snd (set_credentials env userid key s))"
proof -
  define rest where "rest api userid = io_bind (service_call env (auth_me api (http_of env))) (\<lambda>identity.
       io_then (check_scope env api userid identity)
       (io_then (io_modify (\<lambda>s. s\<lparr>ss_state := Authenticated\<rparr>))
         (say (Tagged (cmd_tag cmd) ''OK'' ''LOGIN completed''
            (Some (''CAPABILITY '' @ join_with '' '' capabilities))))))" for api userid
  have keep: "io_keeps (\<lambda>s. credentials s = K) (rest api userid :: ('w, unit) session_io)" for api userid K
    unfolding rest_def http_of_def
    by (intro io_keeps_bind io_keeps_then io_keeps_modify same_keys.parts same_keys.advance
        same_keys.called [OF TrueI roams_requests(1)] same_keys.scope_checked) simp_all
  then have kept: "credentials (snd (rest api userid s')) = credentials s'" for api userid and s' :: "'w session"
    by (simp add: io_keeps_def)
  have "snd (login_cmd env cmd s) = s \<or> (\<exists>userid key. ss_state s = NotAuthenticated \<and> key \<noteq> [] \<and>
       snd (login_cmd env cmd s) = snd (rest (fst (set_credentials env userid key s)) userid (snd (set_credentials env userid key s))))"
    unfolding login_cmd_def rest_def [symmetric] guard_runs
    by (auto simp: printable_def split: sum.split)
  then consider "snd (login_cmd env cmd s) = s"
    | userid key where "ss_state s = NotAuthenticated" "key \<noteq> []"
       "snd (login_cmd env cmd s) = snd (rest (fst (set_credentials env userid key s)) userid (snd (set_credentials env userid key s)))"
    by blast
  then show ?thesis
  proof cases
    case 1
    then show ?thesis using assms that(1) by (simp add: holder_ok_def)
  next
    case 2
    then show ?thesis using assms that(2) kept by (simp add: holder_ok_def)
  qed
qed

section \<open>A command\<close>

lemma recounted_holds: "recounted s s' \<Longrightarrow> own_keys s \<subseteq># redactor_bag (ss_redactor s) \<Longrightarrow> own_keys s' \<subseteq># redactor_bag (ss_redactor s')"
  unfolding recounted_def by (metis mset_subset_eq_add_left mset_subset_eq_mono_add_left_cancel subset_mset.add_diff_inverse union_assoc union_commute)

lemma same_holder:
  "holder_ok s \<Longrightarrow> credentials s' = credentials s \<Longrightarrow> (ss_state s' = NotAuthenticated \<Longrightarrow> ss_api_key s = None) \<Longrightarrow> holder_ok s'"
  by (auto simp: holder_ok_def credentials_def)

lemma after_deferred: "holder_ok s \<Longrightarrow> holder_ok (run_deferred env s)"
  using locked.followed_up [of s env] same_holder [of s "run_deferred env s"] credentials_frame(4) [of env s]
  by (auto simp: holder_ok_def credentials_def)

text \<open>A handler leaves the credentials alone, or is a LOGIN that has taken a key.\<close>

lemma handler_credentials:
  assumes ok: "holder_ok s" and hd: "handlers (cmd_name cmd) = Some h" and run: "h env cmd (timed env s) = (r, s1)"
  obtains "credentials s1 = credentials s" "ss_state s1 = NotAuthenticated \<longrightarrow> ss_api_key s = None"
  | userid key where "key \<noteq> []" "ss_api_key s = None" "credentials s1 = credentials (snd (set_credentials env userid key (timed env s)))"
proof (cases "cmd_name cmd = ''LOGIN''")
  case True
  then have "h = login_cmd" using hd by (simp add: handlers_def handler_list_def)
  moreover have "holder_ok (timed env s)" "credentials (timed env s) = credentials s"
    using ok by (simp_all add: holder_ok_def credentials_def)
  ultimately show ?thesis using login_credentials [of "timed env s" env cmd] that run by auto
next
  case False
  have mem: "(cmd_name cmd, h) \<in> set handler_list" using hd by (simp add: handlers_def map_of_SomeD)
  have "credentials (snd (h env cmd (timed env s))) = credentials s"
    using same_keys.all_handlers [OF mem False, of "credentials s" env cmd] by (simp add: io_keeps_def credentials_def)
  moreover have "ss_state (snd (h env cmd (timed env s))) = NotAuthenticated \<longrightarrow> ss_api_key (snd (h env cmd (timed env s))) = None"
    using locked.all_handlers [OF mem False, of env cmd] ok by (simp add: io_keeps_def holder_ok_def)
  ultimately show ?thesis using that(1) run by (simp add: credentials_def)
qed

text \<open>A session that has taken a key keeps it with its client, or gives it back when the LOGIN has failed.\<close>

lemma login_settled:
  assumes red: "redactor_ok (ss_redactor s)" and own: "own_keys s \<subseteq># redactor_bag (ss_redactor s)"
    and key: "key \<noteq> []" "ss_api_key s = None"
    and c: "ss_api_key s2 = Some key" "ss_api s2 \<noteq> None" "ss_redactor s2 = redactor_register key (ss_redactor s)"
  shows "holder_ok (drop_failed_login s2) \<and> recounted s (drop_failed_login s2)"
proof -
  have r2: "recounted s s2"
    using key red c by (simp add: recounted_def own_keys_def redactor.register_ok redactor.register_bag)
  have "recounted s2 (clear_credentials s2)" "holder_ok (clear_credentials s2)"
    using cleared [of s2] r2 key(1) c(1) recounted_holds [OF r2 own] by (simp_all add: recounted_def)
  then show ?thesis
    using r2 c key(1) recounted_trans [OF r2] by (simp add: drop_failed_login_def holder_ok_def)
qed

text \<open>A command, LOGIN included, leaves a session that holds its key exactly when it has a client, and the redactor
  counting it.\<close>

lemma dispatch_credentials:
  assumes ok: "holder_ok s" and red: "redactor_ok (ss_redactor s)" and own: "own_keys s \<subseteq># redactor_bag (ss_redactor s)"
  shows "holder_ok (dispatch env handlers cmd s)" and "recounted s (dispatch env handlers cmd s)"
proof -
  let ?s' = "dispatch env handlers cmd s"
  have "holder_ok ?s' \<and> recounted s ?s'"
  proof (cases rule: dispatch_cases [of handlers cmd env s])
    case unknown
    moreover have "holder_ok (push r s)" for r using ok by (simp add: holder_ok_def push_def)
    ultimately show ?thesis using red by (simp add: recounted_refl)
  next
    case (known h r s1)
    let ?s2 = "concluded env cmd (r, s1)"
    have s2: "credentials ?s2 = credentials s1" by (cases r) simp_all
    have st: "ss_state ?s2 = NotAuthenticated \<Longrightarrow> ss_state s1 = NotAuthenticated"
      by (cases r) (auto simp: conclude_def push_def split: prod.splits if_splits)
    have "holder_ok (drop_failed_login ?s2) \<and> recounted s (drop_failed_login ?s2)"
    proof (cases rule: handler_credentials [OF ok known(1,2)])
      case 1
      have c: "credentials ?s2 = credentials s" using 1(1) s2 by simp
      have "holder_ok ?s2" by (rule same_holder [OF ok c]) (use st 1 in \<open>auto simp: credentials_def\<close>)
      moreover from this have "drop_failed_login ?s2 = ?s2" by (auto simp: drop_failed_login_def holder_ok_def)
      ultimately show ?thesis using recounted_refl [OF red c] by simp
    next
      case (2 userid key)
      show ?thesis by (rule login_settled [OF red own 2(1,2)])
          (use 2(3) s2 in \<open>simp_all add: credentials_def set_credentials_def Let_def\<close>)
    qed
    then show ?thesis
      using after_deferred recounted_refl recounted_trans known(3) by (metis credentials_frame(4) recounted_def)
  qed
  then show "holder_ok ?s'" "recounted s ?s'" by simp_all
qed

lemma event_credentials:
  assumes ok: "holder_ok s" and red: "redactor_ok (ss_redactor s)" and "own_keys s \<subseteq># redactor_bag (ss_redactor s)"
  shows "holder_ok (handle_event env handlers ev s)" and "recounted s (handle_event env handlers ev s)"
proof -
  have "holder_ok (handle_event env handlers ev s) \<and> recounted s (handle_event env handlers ev s)"
  proof (cases "\<exists>cmd. ev = Command cmd")
    case True
    then show ?thesis using dispatch_credentials [OF assms] by (auto simp: handle_event_def)
  next
    case False
    then have "credentials (handle_event env handlers ev s) = credentials s"
      "ss_state (handle_event env handlers ev s) = NotAuthenticated \<Longrightarrow> ss_state s = NotAuthenticated"
      by (cases ev; auto simp: handle_event_def credentials_def push_def Let_def split: if_splits)+
    then show ?thesis using same_holder [OF ok] ok recounted_refl [OF red] by (auto simp: holder_ok_def)
  qed
  then show "holder_ok (handle_event env handlers ev s)" "recounted s (handle_event env handlers ev s)" by simp_all
qed

end
