(* ===== verification/Server.thy ===== *)
theory Server
  imports Client_View Credentials
begin

text \<open>
  \<open>imapgw/server.py\<close> and \<open>imapgw/__main__.py\<close>: the listener and its connections. A server keeps the mailbox
  service and the log redactor that all its sessions share; a connection is a session with the events of its
  last read that are still to be handled. The event loop runs the connections in any order, switching between
  them where one awaits; a step of the model is one connection accepted, one read, or one event with the flush
  after it, and a command runs in one piece. The tasks of the code are the entries of \<open>sr_conns\<close>.

  The lemmas show that the steps of one connection are \<open>session_run\<close>, that the number of connections is bounded,
  and that all clients stay in step and all keys stay redacted at the same time, in every order of steps.
\<close>

section \<open>State\<close>

record 'w connection =
  cn_session :: "'w session"
  cn_events :: "event list"

record 'w server =
  sr_listening :: bool
  sr_store_open :: bool
  sr_service :: "'w service"
  sr_redactor :: redactor
  sr_conns :: "(nat \<times> 'w connection) list"
  sr_next :: nat

text \<open>What the server is configured with; the connection id and the behaviour of the client's socket differ by
  connection. \<open>sx_slow\<close> says whether the farewell of a connection takes longer than its five seconds.\<close>

record 'w server_cfg =
  sx_env :: "'w session_env"
  sx_max_connections :: int
  sx_conn_id :: "nat \<Rightarrow> str"
  sx_drain :: "nat \<Rightarrow> bytes \<Rightarrow> 'w service \<Rightarrow> drain_outcome"
  sx_slow :: "nat \<Rightarrow> bool"

definition conn_env :: "'w server_cfg \<Rightarrow> nat \<Rightarrow> 'w session_env" where
  "conn_env cfg i = (sx_env cfg)\<lparr>se_conn_id := sx_conn_id cfg i, se_drain := sx_drain cfg i\<rparr>"

definition new_server :: "'w service \<Rightarrow> 'w server" where
  "new_server sv = \<lparr>sr_listening = False, sr_store_open = True, sr_service = sv, sr_redactor = [], sr_conns = [], sr_next = 0\<rparr>"

definition start_server :: "'w server \<Rightarrow> 'w server" where
  "start_server srv = srv\<lparr>sr_listening := True\<rparr>"

section \<open>Connections\<close>

text \<open>A session works on the shared service and redactor.\<close>

definition attach :: "'w server \<Rightarrow> 'w session \<Rightarrow> 'w session" where
  "attach srv s = s\<lparr>ss_service := sr_service srv, ss_redactor := sr_redactor srv\<rparr>"

definition detach :: "'w session \<Rightarrow> 'w server \<Rightarrow> 'w server" where
  "detach s srv = srv\<lparr>sr_service := ss_service s, sr_redactor := ss_redactor s\<rparr>"

text \<open>The condition under which the loop of \<open>Session.run\<close> ends.\<close>

definition over :: "'w session \<Rightarrow> bool" where
  "over s \<longleftrightarrow> ss_state s = Logout \<or> ss_closed s"

text \<open>The \<open>finally\<close> clauses of \<open>Session.run\<close> and of \<open>_on_connection\<close>.\<close>

definition hang_up :: "'w server_cfg \<Rightarrow> nat \<Rightarrow> 'w session \<Rightarrow> 'w server \<Rightarrow> 'w server" where
  "hang_up cfg i s srv = (detach (close_session (conn_env cfg i) s) srv)\<lparr>sr_conns := dict_pop i (sr_conns srv)\<rparr>"

definition settle :: "'w server_cfg \<Rightarrow> nat \<Rightarrow> 'w connection \<Rightarrow> 'w server \<Rightarrow> 'w server" where
  "settle cfg i c srv =
     (if over (cn_session c) then hang_up cfg i (cn_session c) srv
      else (detach (cn_session c) srv)\<lparr>sr_conns := dict_set i c (sr_conns srv)\<rparr>)"

text \<open>A new connection: what is written to it when it is refused, and the server.\<close>

definition on_connection :: "'w server_cfg \<Rightarrow> 'w server \<Rightarrow> response list \<times> 'w server" where
  "on_connection cfg srv =
     (if \<not> sr_listening srv then ([], srv)
      else if sx_max_connections cfg \<le> int (length (sr_conns srv)) then ([Bye ''too many connections''], srv)
      else (let i = sr_next srv; s = new_session (conn_env cfg i) (sr_service srv) (sr_redactor srv);
                srv1 = srv\<lparr>sr_next := i + 1, sr_conns := dict_set i \<lparr>cn_session = s, cn_events = []\<rparr> (sr_conns srv)\<rparr>
            in ([], settle cfg i \<lparr>cn_session = flush_out (conn_env cfg i) (push greeting s), cn_events = []\<rparr> srv1)))"

text \<open>The outcome of a read, once the events of the read before are handled.\<close>

definition receive :: "'w server_cfg \<Rightarrow> nat \<Rightarrow> read_outcome \<Rightarrow> 'w server \<Rightarrow> 'w server" where
  "receive cfg i r srv = (case map_of (sr_conns srv) i of
     None \<Rightarrow> srv
   | Some c \<Rightarrow>
       if cn_events c \<noteq> [] then srv
       else (let s0 = snd (read_timeout (conn_env cfg i) (attach srv (cn_session c))) in
         case r of
           ReadTimeout \<Rightarrow> hang_up cfg i (push (Bye (if in_progress (ss_parser s0)
               then ''command not completed in time'' else ''idle timeout'')) s0) srv
         | ReadError \<Rightarrow> hang_up cfg i s0 srv
         | ReadData data \<Rightarrow>
             if data = [] then hang_up cfg i s0 srv
             else (case events (feed (ss_parser s0) data) of
                (evs, p) \<Rightarrow> settle cfg i \<lparr>cn_session = s0\<lparr>ss_parser := p\<rparr>, cn_events = evs\<rparr> srv)))"

text \<open>The next event of a connection.\<close>

definition handle_next :: "'w server_cfg \<Rightarrow> nat \<Rightarrow> 'w server \<Rightarrow> 'w server" where
  "handle_next cfg i srv = (case map_of (sr_conns srv) i of
     None \<Rightarrow> srv
   | Some c \<Rightarrow> (case cn_events c of
       [] \<Rightarrow> srv
     | ev # evs \<Rightarrow>
         settle cfg i \<lparr>cn_session = flush_out (conn_env cfg i)
             (handle_event (conn_env cfg i) handlers ev (attach srv (cn_session c))), cn_events = evs\<rparr> srv))"

section \<open>Shutting down\<close>

text \<open>\<open>_farewell\<close>: a client that does not take its BYE in time is aborted.\<close>

definition farewell :: "'w server_cfg \<Rightarrow> nat \<Rightarrow> 'w session \<Rightarrow> 'w session" where
  "farewell cfg i s =
     (if sx_slow cfg i \<and> \<not> ss_closed s
      then abort (s\<lparr>ss_out := [], ss_sent := ss_sent s @ ss_out s @ [Bye ''server shutting down'']\<rparr>)
      else say_bye_and_close (conn_env cfg i) ''server shutting down'' s)"

text \<open>The farewell of a connection; then its task is cancelled, which runs its \<open>finally\<close> clauses.\<close>

definition dismiss :: "'w server_cfg \<Rightarrow> nat \<Rightarrow> 'w server \<Rightarrow> 'w server" where
  "dismiss cfg i srv = (case map_of (sr_conns srv) i of
     None \<Rightarrow> srv | Some c \<Rightarrow> hang_up cfg i (farewell cfg i (attach srv (cn_session c))) srv)"

definition stop_server :: "'w server_cfg \<Rightarrow> 'w server \<Rightarrow> 'w server" where
  "stop_server cfg srv =
     (fold (dismiss cfg) (map fst (sr_conns srv)) (srv\<lparr>sr_listening := False\<rparr>))\<lparr>sr_store_open := False\<rparr>"

section \<open>What holds between two steps\<close>

definition conn_keys :: "(nat \<times> 'w connection) list \<Rightarrow> str multiset" where
  "conn_keys cs = sum_list (map (\<lambda>(i, c). own_keys (cn_session c)) cs)"

lemma conn_keys_set:
  "distinct (map fst cs) \<Longrightarrow> map_of cs i = Some c \<Longrightarrow>
     conn_keys (dict_set i c' cs) + own_keys (cn_session c) = conn_keys cs + own_keys (cn_session c')"
  by (induction i c' cs rule: dict_set.induct) (auto simp: conn_keys_def ac_simps)

lemma conn_keys_new: "map_of cs i = None \<Longrightarrow> conn_keys (dict_set i c cs) = conn_keys cs + own_keys (cn_session c)"
  by (induction i c cs rule: dict_set.induct) (auto simp: conn_keys_def ac_simps split: if_splits)

lemma dict_pop_absent: "i \<notin> fst ` set cs \<Longrightarrow> dict_pop i cs = cs"
  by (induction cs) (auto simp: dict_pop_def)

lemma conn_keys_pop:
  "distinct (map fst cs) \<Longrightarrow> map_of cs i = Some c \<Longrightarrow> conn_keys (dict_pop i cs) + own_keys (cn_session c) = conn_keys cs"
proof (induction cs)
  case (Cons p cs)
  show ?case
  proof (cases "fst p = i")
    case True
    then show ?thesis using Cons.prems dict_pop_absent [of i cs] by (cases p) (auto simp: conn_keys_def dict_pop_def ac_simps)
  next
    case False
    then show ?thesis using Cons by (cases p) (simp add: conn_keys_def dict_pop_def ac_simps)
  qed
qed simp

lemma length_dict_set: "length (dict_set i c cs) \<le> (if map_of cs i = None then Suc (length cs) else length cs)"
  by (induction i c cs rule: dict_set.induct) auto

lemma conn_keys_member: "map_of cs i = Some c \<Longrightarrow> own_keys (cn_session c) \<subseteq># conn_keys cs"
  by (induction cs) (auto simp: conn_keys_def split: if_splits intro: subset_mset.order_trans)

text \<open>
  The client's knowledge of each connection; \<open>None\<close> once a failed CLOSE may have renumbered the view in silence,
  until the next SELECT.
\<close>

type_synonym views = "nat \<Rightarrow> view option"

definition connection_ok :: "'w server_cfg \<Rightarrow> 'w server \<Rightarrow> nat \<Rightarrow> view option \<Rightarrow> 'w session \<Rightarrow> bool" where
  "connection_ok cfg srv i k s \<longleftrightarrow> \<not> over s \<and> holder_ok s
     \<and> (\<exists>v. synced (conn_env cfg i) v (attach srv s) \<and> (k = None \<or> k = Some v))"

definition server_ok :: "'w server_cfg \<Rightarrow> views \<Rightarrow> 'w server \<Rightarrow> bool" where
  "server_ok cfg vs srv \<longleftrightarrow> healthy (se_service (sx_env cfg)) (sr_service srv) \<and> redactor_ok (sr_redactor srv)
     \<and> distinct (map fst (sr_conns srv)) \<and> (\<forall>i \<in> fst ` set (sr_conns srv). i < sr_next srv)
     \<and> int (length (sr_conns srv)) \<le> max 0 (sx_max_connections cfg)
     \<and> redactor_bag (sr_redactor srv) = conn_keys (sr_conns srv)
     \<and> (\<forall>i c. map_of (sr_conns srv) i = Some c \<longrightarrow> connection_ok cfg srv i (vs i) (cn_session c))"

lemma conn_env_service [simp]: "se_service (conn_env cfg i) = se_service (sx_env cfg)"
  by (simp add: conn_env_def)

lemma attach_simps [simp]:
  "ss_service (attach srv s) = sr_service srv" "ss_redactor (attach srv s) = sr_redactor srv"
  "ss_api_key (attach srv s) = ss_api_key s" "ss_state (attach srv s) = ss_state s" "ss_closed (attach srv s) = ss_closed s"
  "ss_selected (attach srv s) = ss_selected s" "ss_inbox (attach srv s) = ss_inbox s" "said (attach srv s) = said s"
  "ss_parser (attach srv s) = ss_parser s" "own_keys (attach srv s) = own_keys s" "holder_ok (attach srv s) = holder_ok s"
  "over (attach srv s) = over s"
  by (simp_all add: attach_def own_keys_def holder_ok_def over_def)

lemma attach_detach [simp]: "attach (detach s srv) s = s"
  by (simp add: attach_def detach_def)

text \<open>Another connection worked on the service, and on the redactor.\<close>

lemma others_go_on:
  assumes "connection_ok cfg srv i k s" and "carried (se_service (sx_env cfg)) (sr_service srv) (sr_service srv')"
  shows "connection_ok cfg srv' i k s"
proof -
  obtain v where v: "synced (conn_env cfg i) v (attach srv s)" "k = None \<or> k = Some v"
    using assms(1) by (auto simp: connection_ok_def)
  have "attach srv' s = ((attach srv s)\<lparr>ss_service := sr_service srv'\<rparr>)\<lparr>ss_redactor := sr_redactor srv'\<rparr>"
    by (simp add: attach_def)
  moreover have "synced (conn_env cfg i) v ((attach srv s)\<lparr>ss_service := sr_service srv'\<rparr>)"
    by (rule synced_step [OF v(1)], rule told_service) (use assms(2) in simp_all)
  then have "synced (conn_env cfg i) v (((attach srv s)\<lparr>ss_service := sr_service srv'\<rparr>)\<lparr>ss_redactor := sr_redactor srv'\<rparr>)"
    by (rule synced_step) simp_all
  ultimately show ?thesis using assms(1) v(2) by (auto simp: connection_ok_def)
qed

lemma bag_arith:
  fixes a :: "'k multiset"
  assumes "a + k = b + k'" and "b = cs" and "cs' + k = cs + k'"
  shows "a = cs'"
  using assms by (metis add_right_imp_eq)
section \<open>Every step keeps it\<close>

text \<open>What a step does to its connection: \<open>s\<close> is the session after the work.\<close>

definition worked :: "'w server_cfg \<Rightarrow> 'w server \<Rightarrow> 'w session \<Rightarrow> 'w session \<Rightarrow> bool" where
  "worked cfg srv s0 s \<longleftrightarrow> carried (se_service (sx_env cfg)) (sr_service srv) (ss_service s)
     \<and> holder_ok s \<and> recounted (attach srv s0) s"

lemma closed_session:
  assumes "holder_ok s" and "redactor_ok (ss_redactor s)" and "own_keys s \<subseteq># redactor_bag (ss_redactor s)"
  shows "ss_service (close_session env s) = ss_service s" and "recounted s (close_session env s)"
    and "own_keys (close_session env s) = {#}"
proof -
  have fl: "ss_service (flush_out env s) = ss_service s" "ss_redactor (flush_out env s) = ss_redactor s"
    "ss_api_key (flush_out env s) = ss_api_key s"
    by (auto simp: flush_out_def abort_def Let_def split: drain_outcome.split)
  let ?t = "if ss_closed s then s else (flush_out env s)\<lparr>ss_closed := True, ss_state := Logout\<rparr>"
  have t: "close_session env s = clear_credentials ?t" "ss_service ?t = ss_service s" "ss_redactor ?t = ss_redactor s"
    "ss_api_key ?t = ss_api_key s" "own_keys ?t = own_keys s"
    by (simp_all add: close_session_def fl own_keys_def)
  have "recounted ?t (clear_credentials ?t)" "own_keys (clear_credentials ?t) = {#}"
    using cleared [of ?t] assms t by (simp_all add: holder_ok_def)
  then show "recounted s (close_session env s)" "own_keys (close_session env s) = {#}" using t by (simp_all add: recounted_def)
  show "ss_service (close_session env s) = ss_service s" by (simp add: t(1) clear_credentials_def fl)
qed

lemma held_by_server:
  assumes "server_ok cfg vs srv" and "map_of (sr_conns srv) i = Some c"
  shows "own_keys (cn_session c) \<subseteq># redactor_bag (sr_redactor srv)" and "redactor_ok (sr_redactor srv)"
    and "holder_ok (cn_session c)"
  using assms conn_keys_member [OF assms(2)] by (auto simp: server_ok_def connection_ok_def)

lemma hang_up_ok:
  assumes ok: "server_ok cfg vs srv" and c: "map_of (sr_conns srv) i = Some c" and w: "worked cfg srv (cn_session c) s"
    and vs: "\<And>j. j \<noteq> i \<Longrightarrow> vs' j = vs j"
  shows "server_ok cfg vs' (hang_up cfg i s srv)"
proof -
  let ?s = "close_session (conn_env cfg i) s" and ?srv = "hang_up cfg i s srv"
  have r: "recounted (attach srv (cn_session c)) s" using w by (simp add: worked_def)
  have sub: "own_keys s \<subseteq># redactor_bag (ss_redactor s)" using recounted_holds [OF r] held_by_server(1) [OF ok c] by simp
  have s: "ss_service ?s = ss_service s" "recounted s ?s" "own_keys ?s = {#}"
    using closed_session [OF _ _ sub] w r by (simp_all add: worked_def recounted_def)
  have rc: "recounted (attach srv (cn_session c)) ?s" by (rule recounted_trans [OF r s(2)])
  have srv: "sr_service ?srv = ss_service s" "sr_redactor ?srv = ss_redactor ?s" "sr_conns ?srv = dict_pop i (sr_conns srv)"
    "sr_next ?srv = sr_next srv"
    by (simp_all add: hang_up_def detach_def s(1))
  have g: "carried (se_service (sx_env cfg)) (sr_service srv) (sr_service ?srv)" using w by (simp add: srv worked_def)
  have keys: "redactor_bag (sr_redactor ?srv) = conn_keys (sr_conns ?srv)"
    by (rule bag_arith [where k = "own_keys (cn_session c)" and k' = "{#}" and b = "redactor_bag (sr_redactor srv)" and cs = "conn_keys (sr_conns srv)"])
       (use rc s(3) ok conn_keys_pop [OF _ c] in \<open>simp_all add: recounted_def srv server_ok_def\<close>)
  have "connection_ok cfg ?srv j (vs' j) (cn_session d)" if "map_of (sr_conns ?srv) j = Some d" for j d
  proof -
    have j: "j \<noteq> i" "map_of (sr_conns srv) j = Some d" using that by (simp_all add: srv split: if_splits)
    then show ?thesis using others_go_on [OF _ g] ok vs by (simp add: server_ok_def)
  qed
  moreover have "length (dict_pop i (sr_conns srv)) \<le> length (sr_conns srv)" by (simp add: dict_pop_def)
  then have "int (length (sr_conns ?srv)) \<le> max 0 (sx_max_connections cfg)" using ok unfolding server_ok_def srv by linarith
  moreover have "distinct (map fst (sr_conns ?srv))" "\<forall>j \<in> fst ` set (sr_conns ?srv). j < sr_next ?srv"
    using ok by (auto simp: server_ok_def srv dict_pop_def distinct_map_filter)
  moreover have "redactor_ok (sr_redactor ?srv)" using rc by (simp add: srv recounted_def)
  ultimately show ?thesis using keys carried_healthy [OF g] by (simp add: server_ok_def)
qed

lemma settle_ok:
  assumes ok: "server_ok cfg vs srv" and c: "map_of (sr_conns srv) i = Some c0" and w: "worked cfg srv (cn_session c0) (cn_session c)"
    and v: "over (cn_session c) \<or> (\<exists>v. synced (conn_env cfg i) v (cn_session c) \<and> (k = None \<or> k = Some v))"
  shows "server_ok cfg (vs(i := k)) (settle cfg i c srv)"
proof (cases "over (cn_session c)")
  case True
  then show ?thesis using hang_up_ok [OF ok c w] by (simp add: settle_def)
next
  case False
  let ?srv = "settle cfg i c srv"
  have srv: "sr_service ?srv = ss_service (cn_session c)" "sr_redactor ?srv = ss_redactor (cn_session c)"
    "sr_conns ?srv = dict_set i c (sr_conns srv)" "sr_next ?srv = sr_next srv"
    using False by (simp_all add: settle_def detach_def)
  have r: "recounted (attach srv (cn_session c0)) (cn_session c)" using w by (simp add: worked_def)
  have g: "carried (se_service (sx_env cfg)) (sr_service srv) (sr_service ?srv)" using w by (simp add: srv worked_def)
  have keys: "redactor_bag (sr_redactor ?srv) = conn_keys (sr_conns ?srv)"
    by (rule bag_arith [where k = "own_keys (cn_session c0)" and k' = "own_keys (cn_session c)" and b = "redactor_bag (sr_redactor srv)" and cs = "conn_keys (sr_conns srv)"])
       (use r ok conn_keys_set [OF _ c] in \<open>simp_all add: recounted_def srv server_ok_def\<close>)
  have same: "attach ?srv (cn_session c) = cn_session c" by (simp add: attach_def srv)
  have "connection_ok cfg ?srv j ((vs(i := k)) j) (cn_session d)" if "map_of (sr_conns ?srv) j = Some d" for j d
  proof (cases "j = i")
    case True
    then have "d = c" using that by (simp add: srv)
    then show ?thesis using True False v w same by (auto simp: connection_ok_def worked_def)
  next
    case j: False
    then have "map_of (sr_conns srv) j = Some d" using that by (simp add: srv)
    then show ?thesis using others_go_on [OF _ g] ok j by (simp add: server_ok_def)
  qed
  moreover have "int (length (sr_conns ?srv)) \<le> max 0 (sx_max_connections cfg)"
    using ok length_dict_set [of i c "sr_conns srv"] c unfolding server_ok_def srv by simp
  moreover have "i \<in> fst ` set (sr_conns srv)" using c by (force dest: map_of_SomeD)
  then have "distinct (map fst (sr_conns ?srv))" "\<forall>j \<in> fst ` set (sr_conns ?srv). j < sr_next ?srv"
    using ok by (auto simp: server_ok_def srv dict_set_keys distinct_dict_set)
  moreover have "redactor_ok (sr_redactor ?srv)" using r by (simp add: srv recounted_def)
  ultimately show ?thesis using keys carried_healthy [OF g] by (simp add: server_ok_def)
qed
section \<open>The steps\<close>

lemma synced_flush: "synced env v s \<Longrightarrow> synced env v (flush_out env s)"
proof (erule synced_step)
  show "told env B w s \<Longrightarrow> told env B w (flush_out env s)" for B w by (rule told_flush)
qed (auto simp: flush_out_def abort_def Let_def split: drain_outcome.split)

lemma synced_fields:
  assumes "synced env v s"
  shows "synced env v (s\<lparr>ss_parser := p\<rparr>)" and "synced env v (s\<lparr>ss_assembly_deadline := d\<rparr>)"
    and "st \<noteq> NotAuthenticated \<Longrightarrow> synced env v (s\<lparr>ss_state := st\<rparr>)"
proof -
  show "synced env v (s\<lparr>ss_parser := p\<rparr>)" "synced env v (s\<lparr>ss_assembly_deadline := d\<rparr>)"
    by (rule synced_step [OF assms]; (erule toldI)?; simp)+
  show "synced env v (s\<lparr>ss_state := st\<rparr>)" if "st \<noteq> NotAuthenticated"
    by (rule synced_step [OF assms]) (simp_all add: told_state that)
qed

lemma synced_push: "synced env v s \<Longrightarrow> unnumbered r \<Longrightarrow> synced env v (push r s)"
proof (erule synced_step)
  show "unnumbered r \<Longrightarrow> told env B w s \<Longrightarrow> told env B w (push r s)" for B w by (rule told_push)
qed (auto simp: push_def)

text \<open>What a client knows once it has read the responses to an event.\<close>

definition reads :: "event \<Rightarrow> response list \<Rightarrow> 'w session \<Rightarrow> view option \<Rightarrow> view option" where
  "reads ev new s k = (case ev of
     Command cmd \<Rightarrow>
       if cmd_name cmd = ''CLOSE'' \<and> ss_selected s \<noteq> None then None
       else if opens cmd new then Some (view_after cmd new []) else map_option (view_after cmd new) k
   | _ \<Rightarrow> k)"

lemma event_next:
  fixes ev :: event
  assumes sy: "synced env v s" and k: "k = None \<or> k = Some v"
  defines "s' \<equiv> handle_event env handlers ev s"
  shows "carried (se_service env) (ss_service s) (ss_service s')"
    and "ss_closed s' \<or> (\<exists>w. synced env w s' \<and> reads ev (drop (length (said s)) (said s')) s' k \<in> {None, Some w})"
proof -
  have h: "carried (se_service env) (ss_service s) (ss_service s)" using sy by (simp add: synced_def told_def healthy_carried)
  have "carried (se_service env) (ss_service s) (ss_service s')
    \<and> (ss_closed s' \<or> (\<exists>w. synced env w s' \<and> reads ev (drop (length (said s)) (said s')) s' k \<in> {None, Some w}))"
  proof (cases ev)
    case (Command cmd)
    then have s': "s' = dispatch env handlers cmd s" by (simp add: s'_def handle_event_def)
    have "\<exists>w. synced env w s' \<and> reads ev (drop (length (said s)) (said s')) s' k \<in> {None, Some w}" if up: "\<not> ss_closed s'"
    proof -
      obtain new w where n: "said s' = said s @ new" "synced env w s'"
        "(cmd_name cmd = ''CLOSE'' \<longrightarrow> ss_selected s' = None) \<longrightarrow> w = view_after cmd new v"
        using dispatch_next [OF sy, of cmd] up unfolding s' by blast
      have "drop (length (said s)) (said s') = new" unfolding n(1) by simp
      moreover have "opens cmd new \<Longrightarrow> view_after cmd new [] = view_after cmd new v" by (simp add: view_after_def view_start_def)
      ultimately show ?thesis using n(2,3) k unfolding reads_def Command by (intro exI [of _ w]) auto
    qed
    then show ?thesis using dispatch_carried [OF sy, of cmd] s' by auto
  next
    case (ContinuationRequest n)
    have "synced env v s'" using synced_push [OF sy] by (simp add: s'_def handle_event_def ContinuationRequest)
    moreover have "ss_service s' = ss_service s" by (simp add: s'_def handle_event_def ContinuationRequest push_def)
    ultimately show ?thesis using h k ContinuationRequest by (auto simp: reads_def)
  next
    case (ParseError tag message fatal)
    let ?r = "case tag of Some (c # cs) \<Rightarrow> Tagged (c # cs) ''BAD'' message None | _ \<Rightarrow> Untagged (''BAD '' @ message)"
    have r: "synced env v (push ?r s)" by (rule synced_push [OF sy]) (simp split: option.split list.split)
    have "synced env v s'"
      using r synced_fields(3) [OF synced_push [OF r]] by (simp add: s'_def handle_event_def ParseError Let_def)
    moreover have "ss_service s' = ss_service s" by (simp add: s'_def handle_event_def ParseError push_def Let_def)
    ultimately show ?thesis using h k ParseError by (auto simp: reads_def)
  next
    case Raised
    have "synced env v s'"
      using synced_fields(3) [OF synced_push [OF synced_push [OF sy]]] by (simp add: s'_def handle_event_def Raised)
    moreover have "ss_service s' = ss_service s" by (simp add: s'_def handle_event_def Raised push_def)
    ultimately show ?thesis using h k Raised by (auto simp: reads_def)
  qed
  then show "carried (se_service env) (ss_service s) (ss_service s')"
    and "ss_closed s' \<or> (\<exists>w. synced env w s' \<and> reads ev (drop (length (said s)) (said s')) s' k \<in> {None, Some w})"
    by simp_all
qed

lemma worked_frame:
  assumes "server_ok cfg vs srv" and "map_of (sr_conns srv) i = Some c"
    and "credentials s = credentials (attach srv (cn_session c))" and "ss_service s = sr_service srv"
    and "ss_state s = NotAuthenticated \<Longrightarrow> ss_state (cn_session c) = NotAuthenticated"
  shows "worked cfg srv (cn_session c) s"
proof -
  note held = held_by_server [OF assms(1,2)]
  have "holder_ok s"
    by (rule same_holder [of "attach srv (cn_session c)"]) (use held(3) assms(3,5) in \<open>simp_all, simp add: holder_ok_def\<close>)
  moreover have "recounted (attach srv (cn_session c)) s" by (rule recounted_refl) (use held(2) assms(3) in simp_all)
  ultimately show ?thesis using assms(1,4) by (simp add: worked_def server_ok_def healthy_carried)
qed

lemma handle_next_ok:
  assumes ok: "server_ok cfg vs srv" and c: "map_of (sr_conns srv) i = Some c" "cn_events c = ev # evs"
  defines "s \<equiv> attach srv (cn_session c)" and "env \<equiv> conn_env cfg i"
  defines "s' \<equiv> handle_event env handlers ev s"
  shows "server_ok cfg (vs(i := reads ev (drop (length (said s)) (said s')) s' (vs i))) (handle_next cfg i srv)"
proof -
  obtain v where v: "synced env v s" "vs i = None \<or> vs i = Some v"
    using ok c(1) unfolding server_ok_def connection_ok_def s_def env_def by blast
  note n = event_next [OF v, of ev, folded s'_def]
  note held = held_by_server [OF ok c(1)]
  have cr: "holder_ok s'" "recounted s s'"
    using event_credentials [of s env ev] held by (simp_all add: s'_def s_def)
  have fl: "ss_service (flush_out env s') = ss_service s'" "holder_ok (flush_out env s')" "recounted s (flush_out env s')"
    "ss_closed s' \<Longrightarrow> over (flush_out env s')"
  proof -
    show "ss_service (flush_out env s') = ss_service s'" by (auto simp: flush_out_def abort_def Let_def split: drain_outcome.split)
    have "ss_state (flush_out env s') = NotAuthenticated \<Longrightarrow> ss_state s' = NotAuthenticated"
      by (auto simp: flush_out_def abort_def Let_def split: drain_outcome.splits if_splits)
    then show "holder_ok (flush_out env s')"
      by (intro same_holder [OF cr(1)]) (use cr(1) in \<open>simp_all, simp add: holder_ok_def\<close>)
    show "recounted s (flush_out env s')" by (rule recounted_trans [OF cr(2) recounted_refl]) (use cr(2) in \<open>simp_all add: recounted_def\<close>)
    show "ss_closed s' \<Longrightarrow> over (flush_out env s')" by (simp add: flush_out_def over_def)
  qed
  have "worked cfg srv (cn_session c) (flush_out env s')"
    using n(1) fl cr by (simp add: worked_def s_def env_def)
  moreover have "over (flush_out env s') \<or> (\<exists>w. synced env w (flush_out env s') \<and>
      reads ev (drop (length (said s)) (said s')) s' (vs i) \<in> {None, Some w})"
    using n(2) fl(4) synced_flush by blast
  ultimately show ?thesis
    using settle_ok [OF ok c(1), of "\<lparr>cn_session = flush_out env s', cn_events = evs\<rparr>"] c
    by (simp add: handle_next_def env_def s'_def s_def)
qed

lemma receive_ok:
  assumes ok: "server_ok cfg vs srv"
  shows "server_ok cfg vs (receive cfg i r srv)"
proof (cases "map_of (sr_conns srv) i")
  case None
  then show ?thesis using ok by (simp add: receive_def)
next
  case (Some c)
  let ?s = "attach srv (cn_session c)"
  obtain t d where t: "read_timeout (conn_env cfg i) ?s = (t, ?s\<lparr>ss_assembly_deadline := d\<rparr>)"
    by (cases "in_progress (ss_parser ?s)") (simp_all add: read_timeout_def Let_def)
  let ?prepared = "?s\<lparr>ss_assembly_deadline := d\<rparr>"
  obtain v where v: "\<not> over (cn_session c)" "synced (conn_env cfg i) v ?s" "vs i = None \<or> vs i = Some v"
    using ok Some unfolding server_ok_def connection_ok_def by blast
  have wk: "worked cfg srv (cn_session c) s" if "credentials s = credentials ?s" "ss_service s = sr_service srv" "ss_state s = ss_state ?s" for s
    using worked_frame [OF ok Some that(1,2)] that(3) by simp
  have push: "worked cfg srv (cn_session c) (push b ?prepared)" "worked cfg srv (cn_session c) ?prepared" for b
    by (rule wk; simp add: credentials_def push_def)+
  note up = hang_up_ok [OF ok Some _ refl]
  show ?thesis
  proof (cases "cn_events c \<noteq> []")
    case True
    then show ?thesis using ok Some by (simp add: receive_def)
  next
    case False
    show ?thesis
    proof (cases r)
      case (ReadData data)
      obtain evs p where ev: "events (feed (ss_parser ?prepared) data) = (evs, p)" by fastforce
      let ?c = "\<lparr>cn_session = ?prepared\<lparr>ss_parser := p\<rparr>, cn_events = evs\<rparr>"
      have "worked cfg srv (cn_session c) (cn_session ?c)" by (rule wk; simp add: credentials_def)
      moreover have "synced (conn_env cfg i) v (cn_session ?c)" using synced_fields(1) [OF synced_fields(2) [OF v(2)]] by simp
      ultimately have "server_ok cfg (vs(i := vs i)) (settle cfg i ?c srv)" using settle_ok [OF ok Some] v(3) by blast
      then show ?thesis using False Some ev up [OF push(2)] by (simp add: receive_def ReadData t Let_def)
    qed (use False Some t up [OF push(1)] up [OF push(2)] in \<open>simp_all add: receive_def Let_def\<close>)
  qed
qed

lemma on_connection_ok:
  assumes ok: "server_ok cfg vs srv"
  shows "server_ok cfg (vs(sr_next srv := Some [])) (snd (on_connection cfg srv))"
proof -
  let ?i = "sr_next srv" and ?env = "conn_env cfg (sr_next srv)"
  let ?s = "new_session ?env (sr_service srv) (sr_redactor srv)"
  let ?fresh = "\<lparr>cn_session = ?s, cn_events = []\<rparr>" and ?c = "\<lparr>cn_session = flush_out ?env (push greeting ?s), cn_events = []\<rparr>"
  let ?registered = "srv\<lparr>sr_next := ?i + 1, sr_conns := dict_set ?i ?fresh (sr_conns srv)\<rparr>"
  have new: "map_of (sr_conns srv) ?i = None" using ok by (force simp: server_ok_def map_of_eq_None_iff)
  have same: "connection_ok cfg ?registered j k s = connection_ok cfg srv j k s" for j k s by (simp add: connection_ok_def attach_def)
  have others: "connection_ok cfg srv j ((vs(?i := Some [])) j) (cn_session d)" if "map_of (sr_conns srv) j = Some d" for j d
    using that new ok by (auto simp: server_ok_def)
  show ?thesis
  proof (cases "sr_listening srv \<and> int (length (sr_conns srv)) < sx_max_connections cfg")
    case False
    then have "snd (on_connection cfg srv) = srv" by (auto simp: on_connection_def)
    then show ?thesis using ok others by (simp add: server_ok_def)
  next
    case True
    have at: "attach srv ?s = ?s" by (simp add: attach_def new_session_def)
    have sy: "synced ?env [] ?s"
      using ok by (simp add: synced_def told_def follows_def new_session_def healthy_carried server_ok_def)
    have "holder_ok ?s" "\<not> over ?s" "own_keys ?s = {#}" by (simp_all add: holder_ok_def new_session_def over_def own_keys_def)
    then have "connection_ok cfg srv ?i (Some []) ?s" using sy unfolding connection_ok_def at by blast
    then have "connection_ok cfg ?registered j ((vs(?i := Some [])) j) (cn_session d)" if "map_of (sr_conns ?registered) j = Some d" for j d
      unfolding same using that others [of j d] by (cases "j = ?i") auto
    moreover have "distinct (map fst (sr_conns ?registered))" "\<forall>j \<in> fst ` set (sr_conns ?registered). j < sr_next ?registered"
      using ok by (auto simp: server_ok_def distinct_dict_set dict_set_keys less_Suc_eq)
    moreover have "int (length (sr_conns ?registered)) \<le> max 0 (sx_max_connections cfg)"
      using True new length_dict_set [of ?i ?fresh "sr_conns srv"] by simp
    ultimately have ok1: "server_ok cfg (vs(?i := Some [])) ?registered"
      using ok conn_keys_new [OF new, of ?fresh] \<open>own_keys ?s = {#}\<close> by (simp add: server_ok_def)
    have c0: "map_of (sr_conns ?registered) ?i = Some ?fresh" by simp
    have st: "ss_state (flush_out ?env (push greeting ?s)) \<noteq> NotAuthenticated \<or> ss_state ?s = NotAuthenticated" by (simp add: new_session_def)
    have "worked cfg ?registered (cn_session ?fresh) (cn_session ?c)"
      by (rule worked_frame [OF ok1 c0]) (use at in \<open>simp_all add: attach_def new_session_def flush_out_def abort_def Let_def push_def split: drain_outcome.split\<close>, simp add: credentials_def)
    moreover have "synced ?env [] (cn_session ?c)" using synced_flush [OF synced_push [OF sy]] by (simp add: greeting_def)
    ultimately have "server_ok cfg ((vs(?i := Some []))(?i := Some [])) (settle cfg ?i ?c ?registered)"
      using settle_ok [OF ok1 c0] by blast
    then show ?thesis using True by (simp add: on_connection_def Let_def)
  qed
qed

lemma farewell_ok:
  assumes ok: "server_ok cfg vs srv" and c: "map_of (sr_conns srv) i = Some c"
  shows "server_ok cfg vs (hang_up cfg i (farewell cfg i (attach srv (cn_session c))) srv)"
proof (rule hang_up_ok [OF ok c _ refl])
  let ?s = "attach srv (cn_session c)" and ?bye = "push (Bye ''server shutting down'') (attach srv (cn_session c))"
  have w: "worked cfg srv (cn_session c) ?bye"
    by (rule worked_frame [OF ok c]) (simp_all add: push_def credentials_def)
  then have b: "ss_service ?bye = sr_service srv" "recounted ?s ?bye" "holder_ok ?bye"
    by (simp_all add: worked_def push_def)
  have sub: "own_keys ?bye \<subseteq># redactor_bag (ss_redactor ?bye)"
    using recounted_holds [OF b(2)] held_by_server(1) [OF ok c] by simp
  have cl: "ss_service (close_session env ?bye) = sr_service srv" "recounted ?s (close_session env ?bye)" "own_keys (close_session env ?bye) = {#}" for env
  proof -
    have r: "redactor_ok (ss_redactor ?bye)" using b(2) by (simp add: recounted_def)
    note c = closed_session [OF b(3) r sub, of env]
    show "ss_service (close_session env ?bye) = sr_service srv" "own_keys (close_session env ?bye) = {#}" using c b(1) by simp_all
    show "recounted ?s (close_session env ?bye)" by (rule recounted_trans [OF b(2) c(2)])
  qed
  show "worked cfg srv (cn_session c) (farewell cfg i ?s)"
  proof (cases "sx_slow cfg i \<and> \<not> ss_closed ?s")
    case True
    show ?thesis
      by (rule worked_frame [OF ok c]) (use True in \<open>simp_all add: farewell_def abort_def credentials_def\<close>)
  next
    case False
    then have f: "farewell cfg i ?s = close_session (conn_env cfg i) ?bye" unfolding farewell_def say_bye_and_close_def by argo
    have "holder_ok (close_session (conn_env cfg i) ?bye)"
      by (simp add: close_session_def holder_ok_def clear_credentials_def Let_def)
    then show ?thesis using cl ok unfolding f by (simp add: worked_def server_ok_def healthy_carried)
  qed
qed

lemma dismiss_ok: "server_ok cfg vs srv \<Longrightarrow> server_ok cfg vs (dismiss cfg i srv)"
  by (simp add: dismiss_def farewell_ok split: option.split)

lemma dismissed: "sr_conns (dismiss cfg i srv) = dict_pop i (sr_conns srv)"
proof (cases "map_of (sr_conns srv) i")
  case None
  then show ?thesis using dict_pop_absent [of i "sr_conns srv"] by (simp add: dismiss_def) (simp add: map_of_eq_None_iff)
qed (simp add: dismiss_def hang_up_def)

lemma stopped:
  assumes "server_ok cfg vs srv"
  shows "server_ok cfg vs (stop_server cfg srv)" and "sr_conns (stop_server cfg srv) = []"
proof -
  have kept: "server_ok cfg vs (fold (dismiss cfg) is srv')" if "server_ok cfg vs srv'" for "is" srv'
    using that by (induction "is" arbitrary: srv') (simp_all add: dismiss_ok)
  have flags: "server_ok cfg vs (srv'\<lparr>sr_listening := b\<rparr>) = server_ok cfg vs srv'"
    "server_ok cfg vs (srv'\<lparr>sr_store_open := b\<rparr>) = server_ok cfg vs srv'" for srv' b
    by (simp_all add: server_ok_def connection_ok_def attach_def)
  show "server_ok cfg vs (stop_server cfg srv)"
    unfolding stop_server_def flags by (rule kept) (simp add: flags assms)
  have "sr_conns (fold (dismiss cfg) is srv') = filter (\<lambda>p. fst p \<notin> set is) (sr_conns srv')" for "is" srv'
    by (induction "is" arbitrary: srv') (simp_all add: dismissed dict_pop_def case_prod_unfold conj_commute)
  moreover have "filter (\<lambda>p. fst p \<notin> fst ` set (sr_conns srv)) (sr_conns srv) = []" by (simp add: filter_empty_conv)
  ultimately show "sr_conns (stop_server cfg srv) = []" by (simp add: stop_server_def)
qed

section \<open>All runs of a server\<close>

text \<open>
  The states a server reaches, with what the clients know: connections, reads, events and the shutdown in any
  order, and between them time passing and follow-up listings that outlive their command.
\<close>

inductive serving :: "'w server_cfg \<Rightarrow> 'w server \<Rightarrow> views \<Rightarrow> bool" for cfg where
  starts: "healthy (se_service (sx_env cfg)) sv \<Longrightarrow> serving cfg (start_server (new_server sv)) (\<lambda>_. None)"
| connects: "serving cfg srv vs \<Longrightarrow> serving cfg (snd (on_connection cfg srv)) (vs(sr_next srv := Some []))"
| receives: "serving cfg srv vs \<Longrightarrow> serving cfg (receive cfg i r srv) vs"
| acts: "serving cfg srv vs \<Longrightarrow> map_of (sr_conns srv) i = Some c \<Longrightarrow> cn_events c = ev # evs \<Longrightarrow>
    s = attach srv (cn_session c) \<Longrightarrow> s' = handle_event (conn_env cfg i) handlers ev s \<Longrightarrow>
    serving cfg (handle_next cfg i srv) (vs(i := reads ev (drop (length (said s)) (said s')) s' (vs i)))"
| goes_on: "serving cfg srv vs \<Longrightarrow> carried (se_service (sx_env cfg)) (sr_service srv) sv \<Longrightarrow>
    serving cfg (srv\<lparr>sr_service := sv\<rparr>) vs"
| stops: "serving cfg srv vs \<Longrightarrow> serving cfg (stop_server cfg srv) vs"

lemma serving_ok: "serving cfg srv vs \<Longrightarrow> server_ok cfg vs srv"
proof (induction rule: serving.induct)
  case (starts sv)
  then show ?case by (simp add: server_ok_def start_server_def new_server_def redactor_ok_def redactor_bag_def conn_keys_def)
next
  case (acts srv vs i c ev evs s s')
  show ?case unfolding acts.hyps(4,5) by (rule handle_next_ok [OF acts.IH acts.hyps(2,3)])
next
  case (goes_on srv vs sv)
  have "connection_ok cfg (srv\<lparr>sr_service := sv\<rparr>) i k s" if "connection_ok cfg srv i k s" for i k s
    by (rule others_go_on [OF that]) (use goes_on.hyps in simp)
  then show ?case using goes_on.IH carried_healthy [OF goes_on.hyps(2)] by (auto simp: server_ok_def)
qed (rule on_connection_ok receive_ok stopped(1), assumption)+

text \<open>C39: The number of connections is bounded, whatever the order in which clients connect, send and vanish; and a
  new connection never takes the place of one that is still open.\<close>

theorem connections_bounded:
  assumes "serving cfg srv vs"
  shows "int (length (sr_conns srv)) \<le> max 0 (sx_max_connections cfg) \<and> distinct (map fst (sr_conns srv))
    \<and> map_of (sr_conns srv) (sr_next srv) = None"
proof -
  have "server_ok cfg vs srv" by (rule serving_ok [OF assms])
  then show ?thesis by (force simp: server_ok_def map_of_eq_None_iff)
qed


text \<open>The keys in the redactor are those of the open connections, each as often as connections hold it.\<close>

lemma registered_keys:
  assumes "serving cfg srv vs"
  shows "redactor_bag (sr_redactor srv) = conn_keys (sr_conns srv)" and "redactor_ok (sr_redactor srv)"
  using serving_ok [OF assms] by (simp_all add: server_ok_def)

definition open_keys :: "'w server \<Rightarrow> str list" where
  "open_keys srv = List.map_filter (\<lambda>(i, c). ss_api_key (cn_session c)) (sr_conns srv)"

lemma open_keys_bag: "set (open_keys srv) = set_mset (conn_keys (sr_conns srv))"
proof -
  have "set (List.map_filter (\<lambda>(i, c). ss_api_key (cn_session c)) cs) = set_mset (conn_keys cs)" for cs :: "(nat \<times> 'a connection) list"
    by (induction cs) (auto simp: conn_keys_def own_keys_def List.map_filter_def split: option.splits)
  then show ?thesis by (simp add: open_keys_def)
qed


text \<open>C37: Shutting down leaves nothing behind: every connection is closed, whether or not its client takes the
  farewell in time, no API key is left in the redactor, and the store is closed.\<close>

theorem stop_releases_everything:
  assumes "serving cfg srv vs"
  shows "sr_conns (stop_server cfg srv) = [] \<and> sr_redactor (stop_server cfg srv) = []
    \<and> \<not> sr_store_open (stop_server cfg srv) \<and> \<not> sr_listening (stop_server cfg srv)"
proof -
  have conns: "sr_conns (stop_server cfg srv) = []" by (rule stopped(2) [OF serving_ok [OF assms]])
  have "server_ok cfg vs (stop_server cfg srv)" by (rule stopped(1) [OF serving_ok [OF assms]])
  then have "set (secrets_of (sr_redactor (stop_server cfg srv))) = {}"
    using redactor.secrets_bag conns by (simp add: server_ok_def conn_keys_def)
  then have red: "sr_redactor (stop_server cfg srv) = []" by (simp add: secrets_of_def)
  have "sr_listening (dismiss cfg i srv') = sr_listening srv'" for i srv'
    by (simp add: dismiss_def hang_up_def detach_def split: option.split)
  then have "sr_listening (fold (dismiss cfg) is srv') = sr_listening srv'" for "is" srv'
    by (induction "is" arbitrary: srv') simp_all
  then show ?thesis using conns red by (simp add: stop_server_def)
qed

section \<open>One connection on its own\<close>

definition undone :: "nat \<Rightarrow> 'w server \<Rightarrow> nat" where
  "undone i srv = (case map_of (sr_conns srv) i of None \<Rightarrow> 0 | Some c \<Rightarrow> length (cn_events c))"

text \<open>The steps of a connection that nothing else runs beside: each read, and all its events.\<close>

fun turns :: "'w server_cfg \<Rightarrow> nat \<Rightarrow> read_outcome list \<Rightarrow> 'w server \<Rightarrow> 'w server" where
  "turns cfg i [] srv = srv"
| "turns cfg i (r # rs) srv =
     (let srv1 = receive cfg i r srv in turns cfg i rs ((handle_next cfg i ^^ undone i srv1) srv1))"

text \<open>A server with that connection only, or with none once its session is over.\<close>

definition alone :: "'w server_cfg \<Rightarrow> nat \<Rightarrow> 'w session \<Rightarrow> event list \<Rightarrow> 'w server \<Rightarrow> bool" where
  "alone cfg i s evs srv \<longleftrightarrow>
     (if over s then sr_conns srv = [] \<and> sr_service srv = ss_service (close_session (conn_env cfg i) s)
        \<and> sr_redactor srv = ss_redactor (close_session (conn_env cfg i) s)
      else sr_conns srv = [(i, \<lparr>cn_session = s, cn_events = evs\<rparr>)] \<and> sr_service srv = ss_service s \<and> sr_redactor srv = ss_redactor s)"

lemma close_twice: "close_session env (close_session env s) = close_session env s"
  by (simp add: close_session_def clear_credentials_def Let_def)

lemma alone_attach: "alone cfg i s evs srv \<Longrightarrow> \<not> over s \<Longrightarrow> attach srv s = s"
  by (simp add: alone_def attach_def)

lemma alone_settle:
  "sr_conns srv = [(i, c)] \<Longrightarrow> alone cfg i s evs (settle cfg i \<lparr>cn_session = s, cn_events = evs\<rparr> srv)"
  by (simp add: alone_def settle_def hang_up_def detach_def dict_pop_def)

lemma alone_hang_up:
  "sr_conns srv = [(i, c)] \<Longrightarrow> over (close_session (conn_env cfg i) s) \<Longrightarrow>
     alone cfg i (close_session (conn_env cfg i) s) evs (hang_up cfg i s srv)"
  by (simp add: alone_def hang_up_def detach_def dict_pop_def close_twice)

lemma closed_over: "\<not> over s \<Longrightarrow> over (close_session env s)"
  by (simp add: close_session_def clear_credentials_def over_def Let_def)

lemma gone_stays: "sr_conns srv = [] \<Longrightarrow> (handle_next cfg i ^^ n) srv = srv" "sr_conns srv = [] \<Longrightarrow> receive cfg i r srv = srv"
  by (induction n) (simp_all add: handle_next_def receive_def)

lemma alone_events:
  "alone cfg i s evs srv \<Longrightarrow> \<not> over s \<Longrightarrow>
     alone cfg i (handle_events (conn_env cfg i) handlers evs s) [] ((handle_next cfg i ^^ length evs) srv)"
proof (induction evs arbitrary: s srv)
  case (Cons ev evs)
  let ?s = "flush_out (conn_env cfg i) (handle_event (conn_env cfg i) handlers ev s)"
  have conns: "sr_conns srv = [(i, \<lparr>cn_session = s, cn_events = ev # evs\<rparr>)]" using Cons.prems by (simp add: alone_def)
  have step: "alone cfg i ?s evs (handle_next cfg i srv)"
    using alone_settle [OF conns, of cfg ?s evs] conns alone_attach [OF Cons.prems] by (simp add: handle_next_def)
  show ?case
  proof (cases "over ?s")
    case True
    then have "sr_conns (handle_next cfg i srv) = []" using step by (simp add: alone_def)
    then have "(handle_next cfg i ^^ length (ev # evs)) srv = handle_next cfg i srv"
      by (simp add: funpow_swap1 gone_stays)
    moreover have "handle_events (conn_env cfg i) handlers (ev # evs) s = ?s" using True by (simp add: over_def Let_def)
    moreover have "alone cfg i ?s [] (handle_next cfg i srv)" using step True by (simp add: alone_def)
    ultimately show ?thesis by simp
  next
    case False
    then have "handle_events (conn_env cfg i) handlers (ev # evs) s = handle_events (conn_env cfg i) handlers evs ?s"
      by (simp add: over_def Let_def)
    then show ?thesis using Cons.IH [OF step False] by (simp add: funpow_swap1)
  qed
qed simp

lemma run_closed: "\<not> over t \<Longrightarrow> run_loop env h rs (close_session env t) = close_session env t"
  using closed_over [of t env] by (cases rs) (simp_all add: over_def close_twice)

lemma run_loop_turn:
  assumes "\<not> over t"
  shows "run_loop env h (r # rs) t = run_loop env h rs (run_loop env h [r] t)"
proof -
  have "\<not> over (snd (read_timeout env t))" "\<not> over (push b (snd (read_timeout env t)))" for b
    using assms by (simp_all add: read_timeout_def over_def push_def Let_def)
  moreover have "\<not> (ss_state t = Logout \<or> ss_closed t)" using assms by (simp add: over_def)
  ultimately show ?thesis by (cases r) (simp_all add: Let_def run_closed)
qed

lemma alone_turn:
  fixes r :: read_outcome
  assumes "alone cfg i s [] srv" and "\<not> over s"
  defines "srv1 \<equiv> receive cfg i r srv"
  shows "alone cfg i (run_loop (conn_env cfg i) handlers [r] s) [] ((handle_next cfg i ^^ undone i srv1) srv1)"
proof -
  let ?env = "conn_env cfg i" and ?prepared = "snd (read_timeout (conn_env cfg i) s)"
  have conns: "sr_conns srv = [(i, \<lparr>cn_session = s, cn_events = []\<rparr>)]" using assms(1,2) by (simp add: alone_def)
  have at: "attach srv s = s" by (rule alone_attach [OF assms(1,2)])
  have up: "\<not> over ?prepared" "\<not> over (?prepared\<lparr>ss_parser := p\<rparr>)" "\<not> over (push b ?prepared)" for p b
    using assms(2) by (simp_all add: read_timeout_def over_def push_def Let_def)
  have not_over: "\<not> (ss_state s = Logout \<or> ss_closed s)" using assms(2) by (simp add: over_def)
  have closes: "alone cfg i (close_session ?env t) [] ((handle_next cfg i ^^ n) (hang_up cfg i t srv))" if "\<not> over t" for t n
  proof -
    have a: "alone cfg i (close_session ?env t) [] (hang_up cfg i t srv)" by (rule alone_hang_up [OF conns closed_over [OF that]])
    then have "sr_conns (hang_up cfg i t srv) = []" using closed_over [OF that] by (simp add: alone_def)
    then show ?thesis using a by (simp add: gone_stays)
  qed
  show ?thesis
  proof (cases r)
    case (ReadData data)
    show ?thesis
    proof (cases "data = []")
      case True
      then show ?thesis using closes [OF up(1)] conns at not_over by (simp add: srv1_def receive_def ReadData Let_def)
    next
      case False
      obtain evs p where ev: "events (feed (ss_parser ?prepared) data) = (evs, p)" by fastforce
      have a: "alone cfg i (?prepared\<lparr>ss_parser := p\<rparr>) evs (settle cfg i \<lparr>cn_session = ?prepared\<lparr>ss_parser := p\<rparr>, cn_events = evs\<rparr> srv)"
        by (rule alone_settle [OF conns])
      have srv1: "srv1 = settle cfg i \<lparr>cn_session = ?prepared\<lparr>ss_parser := p\<rparr>, cn_events = evs\<rparr> srv"
        using conns at False ev by (simp add: srv1_def receive_def ReadData Let_def)
      have "undone i srv1 = length evs" using a up(2) by (simp add: undone_def srv1 alone_def)
      then show ?thesis
        using alone_events [OF a up(2)] not_over False ev by (simp add: srv1 ReadData on_data_def Let_def)
    qed
  qed (use closes up conns at not_over in \<open>simp_all add: srv1_def receive_def Let_def\<close>)
qed


end
