(* ===== verification/Store_History.thy ===== *)
theory Store_History
  imports Uid_Store
begin

text \<open>
  What a UID store has in common with the stores it came from: \<open>succeeds\<close> holds between a store and all that follow
  it by operations, by opening the file again, also as a fresh one after corruption, and by a crash that leaves
  only the watermark file written.
\<close>

text \<open>The mailbox \<open>b\<close> of \<open>a\<close> in a later store that has not lost it.\<close>

definition later_box :: "box \<Rightarrow> store \<Rightarrow> store \<Rightarrow> bool" where
  "later_box b a c \<longleftrightarrow> (\<forall>u x. owner_of a b u = Some x \<longrightarrow> owner_of c b u = Some x)
     \<and> (\<forall>u. retired a b u \<longrightarrow> retired c b u) \<and> uidnext_of a b \<le> uidnext_of c b"

text \<open>In a store that succeeds \<open>a\<close>, a mailbox that had the UIDVALIDITY \<open>v\<close> in \<open>a\<close> is there and went on, or has a larger
  one, or has still to be created again, and will then have a larger one.\<close>

definition succeeds :: "box \<Rightarrow> int \<Rightarrow> store \<Rightarrow> store \<Rightarrow> bool" where
  "succeeds b v a c \<longleftrightarrow> store_inv c \<and> v \<le> read_watermark c
     \<and> (\<forall>v'. validity_of c b = Some v' \<longrightarrow> v < v' \<or> v' = v \<and> later_box b a c)"

lemma succeeds_refl: "store_inv a \<Longrightarrow> watermark_inv a \<Longrightarrow> validity_of a b = Some v \<Longrightarrow> succeeds b v a a"
  by (simp add: succeeds_def watermark_inv_def later_box_def)

lemma later_step: "store_inv c \<Longrightarrow> later_box b a c \<Longrightarrow> later_box b a (store_step c x)"
  unfolding later_box_def using owner_of_step [of c] retired_step [of c] uidnext_step [of c b x] by (meson le_trans)

lemma watermark_step:
  assumes "store_inv c" and "writes_sidecar x" and "v \<le> read_watermark c" and "v < 2 ^ 32 - 1"
  shows "v \<le> read_watermark (store_step c x)"
    and "validity_of c b = None \<Longrightarrow> validity_of (store_step c x) b = Some v' \<Longrightarrow> v < v'"
proof -
  have goals: "v \<le> read_watermark (store_step c x) \<and>
      (validity_of c b = None \<longrightarrow> validity_of (store_step c x) b = Some v' \<longrightarrow> v < v')"
  proof (cases rule: step_cases [OF assms(1), of x])
    case 1
    then show ?thesis using assms(3) by (simp add: read_watermark_def)
  next
    case (2 e b')
    have w: "read_watermark (store_step c x) = read_watermark (snd (ensure_mailbox e c b'))" using 2(2) by (simp add: read_watermark_def)
    show ?thesis
    proof (cases "mboxes c b'")
      case None
      note new = created_mailbox [OF None, of e]
      have "v < fst (next_uidvalidity e c)" by (rule next_uidvalidity_above [OF assms(3,4)])
      then show ?thesis using new w 2(1,3) assms(2) by (auto simp: validity_of_def split: if_splits)
    next
      case (Some r)
      then show ?thesis using w 2(3) assms(3) by (simp add: ensure_mailbox_def)
    qed
  qed
  then show "v \<le> read_watermark (store_step c x)"
    and "validity_of c b = None \<Longrightarrow> validity_of (store_step c x) b = Some v' \<Longrightarrow> v < v'" by blast+
qed

lemma succeeds_step:
  assumes "succeeds b v a c" and "v < 2 ^ 32 - 1" and "writes_sidecar x"
  shows "succeeds b v a (store_step c x)"
proof -
  have c: "store_inv c" "v \<le> read_watermark c" using assms(1) by (simp_all add: succeeds_def)
  note w = watermark_step [OF c(1) assms(3) c(2) assms(2)]
  have "v < v' \<or> v' = v \<and> later_box b a (store_step c x)" if new: "validity_of (store_step c x) b = Some v'" for v'
  proof (cases "validity_of c b")
    case None
    then show ?thesis using w(2) new by blast
  next
    case (Some v0)
    then have "v0 = v'" using validity_step [OF Some, of x] new by simp
    then show ?thesis using Some assms(1) later_step [OF c(1)] by (auto simp: succeeds_def)
  qed
  then show ?thesis using store_inv_step [OF c(1)] w(1) by (simp add: succeeds_def)
qed

lemma succeeds_run:
  "succeeds b v a c \<Longrightarrow> v < 2 ^ 32 - 1 \<Longrightarrow> list_all writes_sidecar xs \<Longrightarrow> succeeds b v a (store_run c xs)"
  by (induction xs arbitrary: c) (simp_all add: succeeds_step)

text \<open>Opening the file.\<close>

definition same_rows :: "store \<Rightarrow> store \<Rightarrow> bool" where
  "same_rows st st' \<longleftrightarrow> mboxes st' = mboxes st \<and> rows st' = rows st \<and> marks st' = marks st"

lemma same_rows_facts:
  assumes "same_rows st st'"
  shows "store_inv st' = store_inv st" "validity_of st' = validity_of st"
    "owner_of st' = owner_of st" "retired st' = retired st" "uidnext_of st' = uidnext_of st"
proof -
  show "store_inv st' = store_inv st" using assms by (simp add: same_rows_def store_inv_def live_rows_def)
  show "validity_of st' = validity_of st" "owner_of st' = owner_of st" "retired st' = retired st" "uidnext_of st' = uidnext_of st"
    by (intro ext; use assms in \<open>simp add: same_rows_def validity_of_def owner_of_def retired_def uidnext_of_def\<close>)+
qed

lemma opened_store:
  assumes "open_store e probe st = Inr st'"
  obtains "same_rows st st'" "sidecar st' = sidecar st" | "same_rows (empty_store (sidecar st)) st'" "sidecar st' = sidecar st"
  using assms that
  by (auto simp: open_store_def recover_store_def check_schema_version_def ebind_def same_rows_def empty_store_def
      split: open_probe.splits if_splits option.splits sum.splits)

lemma same_rows_watermark:
  assumes "same_rows st st'" and "read_watermark st' = read_watermark st"
  shows "watermark_inv st' = watermark_inv st" and "succeeds b v a st' = succeeds b v a st"
  using assms by (simp_all add: watermark_inv_def succeeds_def later_box_def same_rows_facts [OF assms(1)])

lemma empty_store_facts [simp]: "validity_of (empty_store t) b = None" "watermark_inv (empty_store t)"
  "read_watermark (empty_store (sidecar st)) = read_watermark st"
  by (simp_all add: validity_of_def watermark_inv_def read_watermark_def empty_store_def)

lemma open_keeps:
  assumes "open_store e probe c = Inr c'" and "store_inv c" and "watermark_inv c"
  shows "store_inv c'" and "watermark_inv c'" and "succeeds b v a c \<Longrightarrow> succeeds b v a c'"
proof -
  have "store_inv c' \<and> watermark_inv c' \<and> (succeeds b v a c \<longrightarrow> succeeds b v a c')"
    using assms(1)
  proof (cases rule: opened_store)
    case 1
    have "read_watermark c' = read_watermark c" using 1(2) by (simp add: read_watermark_def)
    then show ?thesis using same_rows_watermark [OF 1(1)] same_rows_facts(1) [OF 1(1)] assms(2,3) by blast
  next
    case 2
    have w: "read_watermark c' = read_watermark (empty_store (sidecar c))"
      using 2(2) by (simp add: read_watermark_def empty_store_def)
    have "succeeds b v a c \<Longrightarrow> succeeds b v a (empty_store (sidecar c))" by (simp add: succeeds_def)
    then show ?thesis using same_rows_watermark [OF 2(1) w] same_rows_facts(1) [OF 2(1)] store_inv_empty empty_store_facts(2) by blast
  qed
  then show "store_inv c'" "watermark_inv c'" "succeeds b v a c \<Longrightarrow> succeeds b v a c'" by blast+
qed

text \<open>A value written to the watermark file by a transaction that does not commit.\<close>

lemma torn_write:
  assumes "store_inv c" and "watermark_inv c"
  shows "store_inv (snd (next_uidvalidity e c))" and "watermark_inv (snd (next_uidvalidity e c))"
    and "succeeds b v a c \<Longrightarrow> v < 2 ^ 32 - 1 \<Longrightarrow> succeeds b v a (snd (next_uidvalidity e c))"
proof -
  let ?v = "fst (next_uidvalidity e c)" and ?c = "snd (next_uidvalidity e c)"
  have r: "same_rows c ?c" by (simp add: same_rows_def next_uidvalidity_def write_watermark_def Let_def)
  note same = same_rows_facts [OF r]
  have "?c = write_watermark e ?v c" by (simp add: next_uidvalidity_def Let_def)
  then have w: "read_watermark ?c = (if se_watermark_writable e then ?v else read_watermark c)"
    using watermark_read_back [of e ?v c] next_uidvalidity_range [of e c] by (simp add: write_watermark_def)
  show "store_inv ?c" using assms(1) same by simp
  show "watermark_inv ?c"
    using assms(2) issued_above_all [OF assms(2,1)] unfolding watermark_inv_def same w by auto
  show "succeeds b v a ?c" if "succeeds b v a c" "v < 2 ^ 32 - 1"
    using that next_uidvalidity_above [of v c e] by (auto simp: succeeds_def same w later_box_def)
qed

text \<open>An operation on one mailbox leaves the others alone.\<close>

fun op_box :: "store_op \<Rightarrow> box" where
  "op_box (OpInfo e b) = b" | "op_box (OpEnsure e b keys) = b" | "op_box (OpTombstone e b present) = b" | "op_box (OpMark b us v) = b"

definition same_box :: "box \<Rightarrow> store \<Rightarrow> store \<Rightarrow> bool" where
  "same_box b st st' \<longleftrightarrow> mboxes st' b = mboxes st b
     \<and> filter (\<lambda>r. r_box r = b) (rows st') = filter (\<lambda>r. r_box r = b) (rows st) \<and> deleted_uids st' b = deleted_uids st b"

lemma same_box_step:
  assumes "store_inv st" and "op_box x \<noteq> b"
  shows "same_box b st (store_step st x)"
proof (cases x)
  case (OpInfo e b')
  then show ?thesis using assms(2) ensure_mailbox_frame [of e st b']
    by (simp add: same_box_def mailbox_info_def ensure_mailbox_mboxes deleted_uids_def)
next
  case (OpEnsure e b' keys)
  have "filter (\<lambda>r. r_box r = b) (new_rows (se_now e) b' n fr) = []" for n fr
    using assms(2) OpEnsure set_new_rows by (fastforce simp: filter_empty_conv)
  then show ?thesis using assms OpEnsure by (simp add: same_box_def ensure_uids_eq deleted_uids_def)
next
  case (OpTombstone e b' present)
  have "filter (\<lambda>r. r_box r = b) (map (bury (se_now e) b' us) rs) = filter (\<lambda>r. r_box r = b) rs" for us rs
    using assms(2) OpTombstone by (induction rs) (auto simp: bury_def)
  moreover have "deleted_uids (snd (tombstone_missing e st b' (set present))) b = deleted_uids st b"
    using assms(2) OpTombstone by (force simp: deleted_uids_def tombstone_eq)
  ultimately show ?thesis using OpTombstone by (simp add: same_box_def tombstone_eq)
next
  case (OpMark b' us v)
  have "deleted_uids (set_deleted st b' us v) b = deleted_uids st b"
    using assms(2) OpMark by (force simp: deleted_uids_def set_deleted_def)
  then show ?thesis using OpMark by (simp add: same_box_def set_deleted_def)
qed

lemma same_box_run:
  "store_inv st \<Longrightarrow> (\<And>x. x \<in> set xs \<Longrightarrow> op_box x \<noteq> b) \<Longrightarrow> same_box b st (store_run st xs)"
proof (induction xs arbitrary: st)
  case Nil
  then show ?case by (simp add: same_box_def)
next
  case (Cons x xs)
  have "same_box b (store_step st x) (store_run (store_step st x) xs)"
    by (rule Cons.IH) (use Cons.prems in \<open>simp_all add: store_inv_step\<close>)
  then show ?case using same_box_step [of st x b] Cons.prems by (simp add: same_box_def)
qed

end
