(* ===== verification/Startup.thy ===== *)
theory Startup
  imports Server Session_Guarantees Store_History
begin

text \<open>
  Starting the gateway: \<open>imapgw/__main__.py\<close>, the construction of \<open>Server\<close> and of the parts its sessions are
  given, and \<open>configure_logging\<close> of \<open>config.py\<close>. The lemmas show that a gateway that starts is in a state from
  which the properties of \<open>Server\<close> hold, and the section at the end runs one.
\<close>

section \<open>Logging\<close>

text \<open>The part of the logging tree that \<open>configure_logging\<close> touches: the level of the root logger and, for the
  root logger, each of its handlers and the logger of the package, whether a redacting filter is attached.\<close>

record logging_tree =
  lg_level :: str
  lg_root :: bool
  lg_handlers :: "bool list"
  lg_package :: bool

definition level_names :: "str list" where
  "level_names = [''CRITICAL'', ''FATAL'', ''ERROR'', ''WARN'', ''WARNING'', ''INFO'', ''DEBUG'', ''NOTSET'']"

text \<open>\<open>setLevel\<close> raises \<open>ValueError\<close> for a name it does not know.\<close>

definition configure_logging :: "str \<Rightarrow> logging_tree \<Rightarrow> logging_tree option" where
  "configure_logging level t =
     (if py_upper level \<notin> set level_names then None
      else Some (t\<lparr>lg_level := py_upper level, lg_root := True,
        lg_handlers := map (\<lambda>_. True) (if lg_handlers t = [] then [False] else lg_handlers t), lg_package := True\<rparr>))"

section \<open>What the settings give to the server and its sessions\<close>

text \<open>The budget of retries and the first delay of a backoff are settings that no variable changes.\<close>

definition make_client :: "settings \<Rightarrow> rat \<Rightarrow> rat \<Rightarrow> (bytes \<Rightarrow> json option) \<Rightarrow> (json \<Rightarrow> bytes) \<Rightarrow> (json \<Rightarrow> str) \<Rightarrow> str \<Rightarrow> client" where
  "make_client st budget backoff loads dumps repr key =
     \<lparr>cl_base = rstrip_by (\<lambda>c. c = CHR ''/'') (st_api_url st), cl_api_key = key, cl_max_attempts = nat (max 1 (st_max_attempts st)),
      cl_retry_budget = budget, cl_backoff_base = backoff, cl_loads = loads, cl_dumps = dumps, cl_repr = repr\<rparr>"

definition session_limits :: "settings \<Rightarrow> limits" where
  "session_limits st = \<lparr>max_line = nat (st_max_line st), max_literal = nat (st_max_literal st),
     max_command_bytes = nat (st_max_command_bytes st), max_literals = nat (st_max_literals st)\<rparr>"

text \<open>
  The configuration of the server: \<open>base\<close> holds what does not come from the settings. Times and limits of the
  model are finite and not negative; other settings have no configuration.
\<close>

definition configured :: "settings \<Rightarrow> (bytes \<Rightarrow> json option) \<Rightarrow> (json \<Rightarrow> bytes) \<Rightarrow> 'w server_cfg \<Rightarrow> 'w server_cfg option" where
  "configured st loads dumps base = (case (st_retry_budget st, st_backoff_base st, st_command_timeout st, st_idle_timeout st, st_assembly_timeout st, st_refresh_interval st) of
     (FNum budget, FNum backoff, FNum command, FNum idle, FNum assembly, FNum refresh) \<Rightarrow>
       if 0 \<le> st_max_line st \<and> 0 \<le> st_max_literal st \<and> 0 \<le> st_max_command_bytes st \<and> 0 \<le> st_max_literals st
       then (let cfg = se_service (sx_env base); repr = el_repr (cf_lib cfg) in
         Some (base\<lparr>sx_env := (sx_env base)\<lparr>se_service := cfg\<lparr>cf_refresh := refresh, cf_defs := mailboxes\<rparr>,
               se_make_client := make_client st budget backoff loads dumps repr,
               se_allowed := st_allowed_inbox_id st, se_limits := session_limits st, se_command_timeout := command,
               se_idle_timeout := idle, se_assembly_timeout := assembly\<rparr>,
             sx_max_connections := st_max_connections st\<rparr>))
       else None
   | _ \<Rightarrow> None)"

section \<open>The entry point\<close>

text \<open>\<open>_run\<close>: an invalid setting ends it with an exception, a failure with an exit code; otherwise the server
  listens.\<close>

datatype 'w startup = Crashed str | ExitCode nat | Listening settings "'w server"

definition run_gateway :: "str option \<Rightarrow> (str \<times> str) list \<Rightarrow> logging_tree \<Rightarrow> store_env \<Rightarrow> open_probe \<Rightarrow> store \<Rightarrow> bool \<Rightarrow> 'w \<Rightarrow> 'w startup" where
  "run_gateway dotenv environ logs e probe file can_listen w =
     (case load_settings dotenv environ of
        Inl msg \<Rightarrow> Crashed msg
      | Inr st \<Rightarrow> (case configure_logging (st_log_level st) logs of
          None \<Rightarrow> Crashed ''unknown level''
        | Some _ \<Rightarrow> (case open_store e probe file of
            Inl _ \<Rightarrow> ExitCode 2
          | Inr db \<Rightarrow>
              if can_listen then Listening st (start_server (new_server (new_service w db (new_cache (st_cache_bytes st)))))
              else ExitCode 1)))"

text \<open>The gateway after the signal: \<open>server.stop()\<close>, exit code 0.\<close>

definition shut_down :: "'w server_cfg \<Rightarrow> 'w server \<Rightarrow> nat \<times> 'w server" where
  "shut_down cfg srv = (0, stop_server cfg srv)"

section \<open>A gateway that starts\<close>

lemma open_store_inv: "open_store e probe st = Inr st' \<Longrightarrow> store_inv st \<Longrightarrow> store_inv st'"
  using opened_store [of e probe st st'] same_rows_facts(1) store_inv_empty by metis

lemma table_ok_mailboxes: "cf_defs cfg = mailboxes \<Longrightarrow> table_ok cfg"
  by (auto simp: table_ok_def lookup_def lookup_mailbox_def mailboxes_def inbox_box_def drafts_box_def sent_box_def
      trash_box_def spam_box_def py_upper_def up_char_def split: if_splits)

lemma new_service_healthy:
  assumes "store_inv st" and "digest_ok (cf_lib cfg)" and "cf_defs cfg = mailboxes"
  shows "healthy cfg (new_service w st c)"
proof -
  have "grown cfg (new_service w st c) (new_service w st c)"
    by (rule grown_refl) (use assms in \<open>simp_all add: service_good_def service_inv_def covers_def shown_def new_service_def pins_ok_def\<close>)
  moreover have "keyed (new_service w st c)" by (simp add: keyed_def keyed_box_def new_service_def)
  ultimately show ?thesis using table_ok_mailboxes [OF assms(3)] by (simp add: healthy_def carried_def)
qed

text \<open>C38: A gateway that starts starts in order: from a store whose tables are intact, opened or set aside as corrupt,
  any settings under which it listens put it in a state from which all runs of the server begin, serving the
  store that was opened, and never one that could not be.\<close>

theorem gateway_starts_in_order:
  assumes "run_gateway dotenv environ logs e probe file can_listen w = Listening st srv" and "store_inv file"
    and "configured st loads dumps base = Some cfg" and "digest_ok (cf_lib (se_service (sx_env base)))"
  shows "serving cfg srv (\<lambda>_. None) \<and> (\<exists>db. open_store e probe file = Inr db \<and> sv_store (sr_service srv) = db)
    \<and> sx_max_connections cfg = st_max_connections st"
proof -
  obtain db where o: "open_store e probe file = Inr db"
    "srv = start_server (new_server (new_service w db (new_cache (st_cache_bytes st))))"
    using assms(1) by (auto simp: run_gateway_def split: sum.splits option.splits if_splits)
  have cfg: "cf_lib (se_service (sx_env cfg)) = cf_lib (se_service (sx_env base))" "cf_defs (se_service (sx_env cfg)) = mailboxes"
    "sx_max_connections cfg = st_max_connections st"
    using assms(3) by (auto simp: configured_def Let_def split: py_float.splits if_splits)
  have "healthy (se_service (sx_env cfg)) (new_service w db (new_cache (st_cache_bytes st)))"
    by (rule new_service_healthy) (use open_store_inv [OF o(1) assms(2)] assms(4) cfg in simp_all)
  then have "serving cfg srv (\<lambda>_. None)" unfolding o(2) by (rule serving.starts)
  moreover have "sv_store (sr_service srv) = db" by (simp add: o(2) start_server_def new_server_def new_service_def)
  ultimately show ?thesis using o(1) cfg(3) by simp
qed

section \<open>A gateway at work\<close>

text \<open>The instance of \<open>Session_Guarantees\<close> behind a server for two connections, with small limits.\<close>

definition demo_server :: "unit session_env \<Rightarrow> unit server_cfg" where
  "demo_server env0 = \<lparr>sx_env = demo_env (env0\<lparr>se_limits := \<lparr>max_line = 40, max_literal = 40, max_command_bytes = 40, max_literals = 2\<rparr>\<rparr>),
     sx_max_connections = 2, sx_conn_id = (\<lambda>_. ''c''), sx_drain = (\<lambda>_ _ _. Drained), sx_slow = (\<lambda>_. False)\<rparr>"

lemma demo_conn_env:
  obtains env1 where "conn_env (demo_server env0) i = demo_env env1" "se_drain (conn_env (demo_server env0) i) = (\<lambda>_ _. Drained)"
    "se_limits (conn_env (demo_server env0) i) = \<lparr>max_line = 40, max_literal = 40, max_command_bytes = 40, max_literals = 2\<rparr>"
proof (rule that)
  show "conn_env (demo_server env0) i = demo_env (env0\<lparr>se_limits := \<lparr>max_line = 40, max_literal = 40, max_command_bytes = 40, max_literals = 2\<rparr>,
      se_conn_id := ''c'', se_drain := (\<lambda>_ _. Drained)\<rparr>)"
    by (simp add: conn_env_def demo_server_def demo_env_def)
qed (simp_all add: conn_env_def demo_server_def demo_env_def)

lemma demo_parsed:
  fixes p :: cparser
  defines "p \<equiv> init_parser \<lparr>max_line = 40, max_literal = 40, max_command_bytes = 40, max_literals = 2\<rparr>"
  shows "events (feed p (''a1 LOGIN a@x k'' @ crlf)) = ([Command demo_login], p)"
    "events (feed p (''a2 SELECT INBOX'' @ crlf)) = ([Command demo_select], p)" "\<not> in_progress p"
  unfolding p_def by code_simp+

lemma demo_turn:
  assumes "serving cfg srv vs" and "alone cfg i s [] srv" and "\<not> over s" and "vs i = Some v"
    and p: "\<not> in_progress (ss_parser s)" "events (feed (ss_parser s) data) = ([Command cmd], p)" and "data \<noteq> []" "cmd_name cmd \<noteq> ''CLOSE''"
  obtains srv' vs' w where "serving cfg srv' vs'" "vs' i = Some w"
    "alone cfg i (flush_out (conn_env cfg i) (dispatch (conn_env cfg i) handlers cmd (s\<lparr>ss_assembly_deadline := None, ss_parser := p\<rparr>))) [] srv'"
proof -
  let ?srv = "receive cfg i (ReadData data) srv" and ?s = "s\<lparr>ss_assembly_deadline := None, ss_parser := p\<rparr>"
  have conns: "sr_conns srv = [(i, \<lparr>cn_session = s, cn_events = []\<rparr>)]" using assms(2,3) by (simp add: alone_def)
  have "?srv = settle cfg i \<lparr>cn_session = ?s, cn_events = [Command cmd]\<rparr> srv"
    using p assms(7) by (simp add: receive_def conns alone_attach [OF assms(2,3)] read_timeout_def Let_def)
  then have a: "alone cfg i ?s [Command cmd] ?srv" using alone_settle [OF conns] by simp
  have up: "\<not> over ?s" using assms(3) by (simp add: over_def)
  then have conns': "sr_conns ?srv = [(i, \<lparr>cn_session = ?s, cn_events = [Command cmd]\<rparr>)]" using a by (simp add: alone_def)
  have "handle_next cfg i ?srv = settle cfg i \<lparr>cn_session = flush_out (conn_env cfg i) (dispatch (conn_env cfg i) handlers cmd ?s), cn_events = []\<rparr> ?srv"
    by (simp add: handle_next_def conns' alone_attach [OF a up] handle_event_def)
  then have "alone cfg i (flush_out (conn_env cfg i) (dispatch (conn_env cfg i) handlers cmd ?s)) [] (handle_next cfg i ?srv)"
    using alone_settle [OF conns'] by simp
  moreover have "map_of (sr_conns ?srv) i = Some \<lparr>cn_session = ?s, cn_events = [Command cmd]\<rparr>" by (simp add: conns')
  note acted = serving.acts [OF serving.receives [OF assms(1), of i "ReadData data"] this _ refl refl, of "Command cmd" "[]"]
  moreover have "\<exists>w. reads (Command cmd) new t (Some v) = Some w" for new and t :: "'a session" using assms(8) by (simp add: reads_def)
  ultimately show thesis using that assms(4) by (metis connection.select_convs(2) fun_upd_same)
qed

text \<open>A server whose only client has logged in, and one whose client has then selected INBOX.\<close>

lemma flush_drained:
  assumes "se_drain env = (\<lambda>_ _. Drained)"
  obtains rs where "flush_out env s = s\<lparr>ss_out := [], ss_sent := rs\<rparr>"
proof (rule that)
  show "flush_out env s = s\<lparr>ss_out := [], ss_sent := (if ss_out s = [] \<or> ss_closed s then ss_sent s else said s)\<rparr>"
    using assms by (intro session.equality) (simp_all add: flush_out_def Let_def)
qed

lemma demo_connected:
  fixes env0 :: "unit session_env"
  defines "cfg \<equiv> demo_server env0"
  obtains srv vs s where "serving cfg srv vs" "vs 0 = Some []" "alone cfg 0 s [] srv" "ss_state s = NotAuthenticated"
    "ss_selected s = None" "ss_closed s = False" "ss_deferred s = []" "ss_service s = demo_service" "ss_redactor s = []"
    "ss_parser s = init_parser \<lparr>max_line = 40, max_literal = 40, max_command_bytes = 40, max_literals = 2\<rparr>" "ss_api_key s = None"
proof -
  let ?srv = "start_server (new_server demo_service) :: unit server"
  let ?env = "conn_env cfg 0" and ?t = "new_session (conn_env cfg 0) demo_service []"
  obtain env1 where e: "?env = demo_env env1" "se_drain ?env = (\<lambda>_ _. Drained)"
    "se_limits ?env = \<lparr>max_line = 40, max_literal = 40, max_command_bytes = 40, max_literals = 2\<rparr>"
    unfolding cfg_def by (rule demo_conn_env)
  have "se_service (sx_env cfg) = demo_cfg" by (simp add: cfg_def demo_server_def)
  then have "serving cfg ?srv (\<lambda>_. None)" by (intro serving.starts) (simp add: demo_healthy)
  then have sv: "serving cfg (snd (on_connection cfg ?srv)) ((\<lambda>_. None)(0 := Some []))"
    using serving.connects [of cfg ?srv "\<lambda>_. None"] by (simp add: start_server_def new_server_def)
  have al: "alone cfg 0 (flush_out ?env (push greeting ?t)) [] (snd (on_connection cfg ?srv))"
    by (simp add: on_connection_def start_server_def new_server_def Let_def cfg_def demo_server_def) (rule alone_settle, simp)
  obtain rs where fl: "flush_out ?env (push greeting ?t) = (push greeting ?t)\<lparr>ss_out := [], ss_sent := rs\<rparr>"
    by (rule flush_drained [OF e(2)])
  show thesis
    by (rule that [OF sv _ al]) (simp_all add: fl, simp_all add: new_session_def push_def e(3))
qed

lemma demo_login_served:
  fixes env0 :: "unit session_env"
  defines "cfg \<equiv> demo_server env0"
  obtains srv vs v s where "serving cfg srv vs" "vs 0 = Some v" "alone cfg 0 s [] srv" "ss_state s = Authenticated"
    "ss_api s = Some demo_client" "ss_inbox s = Some ''a@x''" "ss_service s = demo_service" "ss_closed s = False" "ss_deferred s = []"
    "ss_redactor s = [(''k'', 1)]" "ss_api_key s = Some ''k''"
    "ss_parser s = init_parser \<lparr>max_line = 40, max_literal = 40, max_command_bytes = 40, max_literals = 2\<rparr>"
proof -
  obtain env1 where e: "conn_env cfg 0 = demo_env env1" "se_drain (conn_env cfg 0) = (\<lambda>_ _. Drained)"
    unfolding cfg_def by (rule demo_conn_env)
  obtain srv vs s where c: "serving cfg srv vs" "vs 0 = Some []" "alone cfg 0 s [] srv" "ss_state s = NotAuthenticated"
    "ss_selected s = None" "ss_closed s = False" "ss_deferred s = []" "ss_service s = demo_service" "ss_redactor s = []"
    "ss_parser s = init_parser \<lparr>max_line = 40, max_literal = 40, max_command_bytes = 40, max_literals = 2\<rparr>"
    unfolding cfg_def by (rule demo_connected)
  define s1 where "s1 = s\<lparr>ss_assembly_deadline := None, ss_parser := ss_parser s\<rparr>"
  have up: "\<not> over s" using c by (simp add: over_def)
  obtain srv' vs' w where t: "serving cfg srv' vs'" "vs' 0 = Some w"
    "alone cfg 0 (flush_out (conn_env cfg 0) (dispatch (conn_env cfg 0) handlers demo_login s1)) [] srv'"
    unfolding s1_def by (rule demo_turn [OF c(1,3) up c(2), of "''a1 LOGIN a@x k'' @ crlf" demo_login "ss_parser s"])
       (use demo_parsed c(10) in \<open>simp_all add: demo_login_def\<close>)
  have new: "ss_state s1 = NotAuthenticated" "ss_selected s1 = None" "ss_closed s1 = False" "ss_deferred s1 = []"
    "ss_service s1 = demo_service" "ss_redactor s1 = []" "ss_parser s1 = ss_parser s" using c by (simp_all add: s1_def)
  note l = demo_logged_in [OF new(1-4), of env1, folded e(1)]
  have red: "redactor_register ''k'' [] = [(''k'', 1)]" by (simp add: redactor_register_def reg_count_def)
  obtain rs where fl: "flush_out (conn_env cfg 0) (dispatch (conn_env cfg 0) handlers demo_login s1)
      = (dispatch (conn_env cfg 0) handlers demo_login s1)\<lparr>ss_out := [], ss_sent := rs\<rparr>" by (rule flush_drained [OF e(2)])
  show thesis
    by (rule that [OF t]; subst fl; simp add: l new red c(10))
qed

lemma demo_select_served:
  fixes env0 :: "unit session_env"
  defines "cfg \<equiv> demo_server env0"
  obtains srv vs v s sel where "serving cfg srv vs" "vs 0 = Some v" "alone cfg 0 s [] srv" "\<not> over s" "ss_selected s = Some sel"
    "ss_inbox s = Some ''a@x''"
proof -
  obtain env1 where e: "conn_env cfg 0 = demo_env env1" "se_drain (conn_env cfg 0) = (\<lambda>_ _. Drained)"
    unfolding cfg_def by (rule demo_conn_env)
  obtain srv vs v s where c: "serving cfg srv vs" "vs 0 = Some v" "alone cfg 0 s [] srv" "ss_state s = Authenticated"
    "ss_api s = Some demo_client" "ss_inbox s = Some ''a@x''" "ss_service s = demo_service" "ss_closed s = False" "ss_deferred s = []"
    "ss_parser s = init_parser \<lparr>max_line = 40, max_literal = 40, max_command_bytes = 40, max_literals = 2\<rparr>"
    unfolding cfg_def by (rule demo_login_served)
  define s1 where "s1 = s\<lparr>ss_assembly_deadline := None, ss_parser := ss_parser s\<rparr>"
  have up: "\<not> over s" using c by (simp add: over_def)
  obtain srv' vs' w where t: "serving cfg srv' vs'" "vs' 0 = Some w"
    "alone cfg 0 (flush_out (conn_env cfg 0) (dispatch (conn_env cfg 0) handlers demo_select s1)) [] srv'"
    unfolding s1_def by (rule demo_turn [OF c(1,3) up c(2), of "''a2 SELECT INBOX'' @ crlf" demo_select "ss_parser s"])
       (use demo_parsed c(10) in \<open>simp_all add: demo_select_def\<close>)
  have pre: "ss_state s1 = Authenticated" "ss_api s1 = Some demo_client" "ss_inbox s1 = Some ''a@x''" "ss_service s1 = demo_service"
    "ss_closed s1 = False" "ss_deferred s1 = []" using c by (simp_all add: s1_def)
  obtain sel where d: "ss_selected (dispatch (conn_env cfg 0) handlers demo_select s1) = Some sel"
    "ss_inbox (dispatch (conn_env cfg 0) handlers demo_select s1) = Some ''a@x''"
    "ss_closed (dispatch (conn_env cfg 0) handlers demo_select s1) = False"
    "ss_state (dispatch (conn_env cfg 0) handlers demo_select s1) = SelectedState"
    unfolding e(1) by (rule demo_selected [OF pre, of env1])
  obtain rs where fl: "flush_out (conn_env cfg 0) (dispatch (conn_env cfg 0) handlers demo_select s1)
      = (dispatch (conn_env cfg 0) handlers demo_select s1)\<lparr>ss_out := [], ss_sent := rs\<rparr>" by (rule flush_drained [OF e(2)])
  show thesis
    by (rule that [OF t]; subst fl; simp add: d over_def)
qed

section \<open>Witnesses\<close>

lemma alone_conns: "alone cfg i s evs srv \<Longrightarrow> \<not> over s \<Longrightarrow> sr_conns srv = [(i, \<lparr>cn_session = s, cn_events = evs\<rparr>)]"
  by (simp add: alone_def)

lemma up_simps: "ss_state s \<in> {NotAuthenticated, Authenticated} \<Longrightarrow> ss_closed s = False \<Longrightarrow> \<not> over s"
  by (auto simp: over_def)

theorem connections_bounded_witness:
  "\<forall>env0 :: unit session_env. \<exists>srv :: unit server. length (sr_conns srv) = 1
    \<and> int (length (sr_conns srv)) \<le> max 0 (sx_max_connections (demo_server env0)) \<and> map_of (sr_conns srv) (sr_next srv) = None"
proof
  fix env0 :: "unit session_env"
  obtain srv vs s where c: "serving (demo_server env0) srv vs" "alone (demo_server env0) 0 s [] srv" "ss_state s = NotAuthenticated"
    "ss_closed s = False" by (rule demo_connected)
  then have "length (sr_conns srv) = 1" using alone_conns [OF c(2)] up_simps [of s] by simp
  then show "\<exists>srv :: unit server. length (sr_conns srv) = 1
    \<and> int (length (sr_conns srv)) \<le> max 0 (sx_max_connections (demo_server env0)) \<and> map_of (sr_conns srv) (sr_next srv) = None"
    using connections_bounded [OF c(1)] by blast
qed



theorem stop_releases_everything_witness:
  "\<forall>env0 :: unit session_env. \<exists>srv. sr_redactor srv = [(''k'', 1)] \<and> sr_conns srv \<noteq> []
    \<and> sr_redactor (stop_server (demo_server env0) srv) = [] \<and> sr_conns (stop_server (demo_server env0) srv) = []"
proof
  fix env0 :: "unit session_env"
  obtain srv vs s where c: "serving (demo_server env0) srv vs" "alone (demo_server env0) 0 s [] srv" "ss_state s = Authenticated"
    "ss_closed s = False" "ss_redactor s = [(''k'', 1)]" by (rule demo_login_served)
  have "sr_redactor srv = [(''k'', 1)]" "sr_conns srv \<noteq> []"
    using c(2) up_simps [of s] c(3-5) by (simp_all add: alone_def)
  then show "\<exists>srv. sr_redactor srv = [(''k'', 1)] \<and> sr_conns srv \<noteq> []
    \<and> sr_redactor (stop_server (demo_server env0) srv) = [] \<and> sr_conns (stop_server (demo_server env0) srv) = []"
    using stop_releases_everything [OF c(1)] by blast
qed


lemma demo_settings: "load_settings None [(''IMAPGW_MAX_CONNECTIONS'', ''7'')] = Inr (default_settings\<lparr>st_max_connections := 7\<rparr>)"
  by code_simp

theorem gateway_starts_in_order_witness:
  "\<forall>env0 :: unit session_env. \<exists>st srv cfg. run_gateway None [(''IMAPGW_MAX_CONNECTIONS'', ''7'')]
       \<lparr>lg_level = ''WARNING'', lg_root = False, lg_handlers = [], lg_package = False\<rparr>
       \<lparr>se_clock = 7, se_now = ''t'', se_watermark_writable = True, se_db_writable = True, se_can_rename = True\<rparr>
       (IntegrityReport ''ok'') (empty_store None) True () = Listening st srv
     \<and> configured st (\<lambda>_. None) (\<lambda>_. []) (demo_server env0) = Some cfg
     \<and> serving cfg srv (\<lambda>_. None) \<and> sx_max_connections cfg = 7"
proof
  fix env0 :: "unit session_env"
  let ?logs = "\<lparr>lg_level = ''WARNING'', lg_root = False, lg_handlers = [], lg_package = False\<rparr>"
  let ?e = "\<lparr>se_clock = 7, se_now = ''t'', se_watermark_writable = True, se_db_writable = True, se_can_rename = True\<rparr>"
  obtain st where st: "load_settings None [(''IMAPGW_MAX_CONNECTIONS'', ''7'')] = Inr st" "st_max_connections st = 7"
    "st_retry_budget st = FNum 10" "st_backoff_base st = FNum (1 / 2)" "st_command_timeout st = FNum 30" "st_idle_timeout st = FNum 1800"
    "st_assembly_timeout st = FNum 60" "st_refresh_interval st = FNum 5" "0 \<le> st_max_line st" "0 \<le> st_max_literal st"
    "0 \<le> st_max_command_bytes st" "0 \<le> st_max_literals st" "st_log_level st = ''INFO''"
    using demo_settings by (rule that) (simp_all add: default_settings_def)
  obtain db where db: "open_store ?e (IntegrityReport ''ok'') (empty_store None) = Inr db"
    by (simp add: open_store_def check_schema_version_def empty_store_def)
  obtain srv where run: "run_gateway None [(''IMAPGW_MAX_CONNECTIONS'', ''7'')] ?logs ?e (IntegrityReport ''ok'') (empty_store None) True () = Listening st srv"
    by (simp add: run_gateway_def st(1) db configure_logging_def level_names_def st(13) py_upper_def up_char_def)
  obtain cfg where cfg: "configured st (\<lambda>_. None) (\<lambda>_. []) (demo_server env0) = Some cfg"
    by (simp add: configured_def st Let_def)
  have "digest_ok (cf_lib (se_service (sx_env (demo_server env0))))" by (simp add: demo_server_def demo_facts)
  then show "\<exists>st srv cfg. run_gateway None [(''IMAPGW_MAX_CONNECTIONS'', ''7'')] ?logs ?e (IntegrityReport ''ok'') (empty_store None) True () = Listening st srv
     \<and> configured st (\<lambda>_. None) (\<lambda>_. []) (demo_server env0) = Some cfg \<and> serving cfg srv (\<lambda>_. None) \<and> sx_max_connections cfg = 7"
    using gateway_starts_in_order [OF run store_inv_empty cfg] run cfg st(2) by metis
qed

end
