(* ===== verification/Transport.thy ===== *)
theory Transport
  imports Config
begin

text \<open>
  \<open>ThreadedTransport\<close> of \<open>imapgw/apiclient.py\<close>: from a URL to one exchange with one host, and from what
  \<open>http.client\<close> returns or raises to a response or a \<open>TransportError\<close>. Worker threads are left out: a request
  is one step of the world. \<open>urlsplit\<close> of the standard library is modelled for the parts the code reads; the
  network, its checks of bracketed and of non-ASCII host names, and \<open>repr\<close> are the fields of \<open>net\<close>.

  The lemmas show where the requests of the API client go: the URL of an API call is taken apart into the host
  of the configured base URL and a target below its path, whatever the identifiers in it.
\<close>

section \<open>Splitting a URL\<close>

definition ascii_alpha :: "char \<Rightarrow> bool" where
  "ascii_alpha c \<longleftrightarrow> (65 \<le> ordc c \<and> ordc c \<le> 90) \<or> (97 \<le> ordc c \<and> ordc c \<le> 122)"

definition scheme_char :: "char \<Rightarrow> bool" where
  "scheme_char c \<longleftrightarrow> ascii_alpha c \<or> is_digit c \<or> c \<in> set ''+-.''"

record url_parts =
  up_scheme :: str
  up_netloc :: str
  up_path :: str
  up_query :: str

definition split_scheme :: "str \<Rightarrow> str \<times> str" where
  "split_scheme url = (case partition_at (CHR '':'') url of (s, found, rest) \<Rightarrow>
     if found \<and> s \<noteq> [] \<and> ascii_alpha (hd s) \<and> list_all scheme_char s then (py_lower s, rest) else ([], url))"

definition split_netloc :: "str \<Rightarrow> str \<times> str" where
  "split_netloc url =
     (if starts_with ''//'' url
      then (takeWhile (\<lambda>c. c \<notin> set ''/?#'') (drop 2 url), dropWhile (\<lambda>c. c \<notin> set ''/?#'') (drop 2 url))
      else ([], url))"

text \<open>\<open>None\<close> is a \<open>ValueError\<close>. The argument decides network locations with brackets or beyond ASCII.\<close>

definition netloc_bad :: "(str \<Rightarrow> bool) \<Rightarrow> str \<Rightarrow> bool" where
  "netloc_bad ok n \<longleftrightarrow> (CHR ''['' \<in> set n) \<noteq> (CHR '']'' \<in> set n)
     \<or> (CHR ''['' \<in> set n \<or> list_ex (\<lambda>c. 128 \<le> ordc c) n) \<and> \<not> ok n"

definition urlsplit :: "(str \<Rightarrow> bool) \<Rightarrow> str \<Rightarrow> url_parts option" where
  "urlsplit ok url =
     (let u = filter (\<lambda>c. ordc c \<notin> {9, 10, 13}) (dropWhile (\<lambda>c. ordc c \<le> 32) url) in
      case split_scheme u of (scheme, u1) \<Rightarrow>
      case split_netloc u1 of (netloc, u2) \<Rightarrow>
        if netloc_bad ok netloc then None
        else (case partition_at (CHR ''?'') (takeWhile (\<lambda>c. c \<noteq> CHR ''#'') u2) of (path, _, query) \<Rightarrow>
          Some \<lparr>up_scheme = scheme, up_netloc = netloc, up_path = path, up_query = query\<rparr>))"

text \<open>\<open>SplitResult._hostinfo\<close>: the host and the text of the port; an absent port is empty.\<close>

definition host_info :: "str \<Rightarrow> str \<times> str" where
  "host_info netloc =
     (let h = rev (takeWhile (\<lambda>c. c \<noteq> CHR ''@'') (rev netloc)) in
      case partition_at (CHR ''['') h of
        (_, True, b) \<Rightarrow> (case partition_at (CHR '']'') b of (host, _, p) \<Rightarrow>
           (host, snd (snd (partition_at (CHR '':'') p))))
      | _ \<Rightarrow> (case partition_at (CHR '':'') h of (host, _, p) \<Rightarrow> (host, p)))"

text \<open>\<open>parts.hostname\<close>; empty for \<open>None\<close>.\<close>

definition url_hostname :: "url_parts \<Rightarrow> str" where
  "url_hostname parts = (case partition_at (CHR ''%'') (fst (host_info (up_netloc parts))) of
     (h, found, zone) \<Rightarrow> py_lower h @ (if found then CHR ''%'' # zone else []))"

text \<open>\<open>parts.port\<close>: \<open>None\<close> is a \<open>ValueError\<close>, \<open>Some None\<close> no port.\<close>

definition url_port :: "url_parts \<Rightarrow> nat option option" where
  "url_port parts = (let p = snd (host_info (up_netloc parts)) in
     if p = [] then Some None
     else if py_isdigit p then (case py_int p of
         Some n \<Rightarrow> if n \<le> 65535 then Some (Some n) else None
       | None \<Rightarrow> None)
     else None)"

section \<open>One request\<close>

text \<open>What is handed to \<open>http.client\<close>.\<close>

record contact =
  ct_tls :: bool
  ct_host :: str
  ct_port :: nat
  ct_method :: str
  ct_target :: str
  ct_headers :: "(str \<times> str) list"
  ct_body :: "bytes option"

text \<open>Exceptions of \<open>http.client\<close>, with the name of their type: \<open>TimeoutError\<close>, \<open>OSError\<close> or \<open>HTTPException\<close>, with their
  text; or \<open>ValueError\<close>.\<close>

datatype net_failure = NetError str str | NetValueError str str

record 'w net =
  nt_netloc_ok :: "str \<Rightarrow> bool"
  nt_repr :: "str \<Rightarrow> str"
  nt_exchange :: "contact \<Rightarrow> 'w \<Rightarrow> (net_failure + http_response) \<times> 'w"

definition lower_headers :: "(str \<times> str) list \<Rightarrow> (str \<times> str) list" where
  "lower_headers hs = fold (\<lambda>(k, v). dict_set (py_lower k) v) hs []"

text \<open>The \<open>try\<close> statement. The text of a \<open>ValueError\<close>, which may hold a header, goes no further.\<close>

definition send_on :: "'w net \<Rightarrow> contact \<Rightarrow> 'w \<Rightarrow> (transport_failure + http_response) \<times> 'w" where
  "send_on net ct w = (case nt_exchange net ct w of
     (Inl (NetError name msg), w1) \<Rightarrow> (Inl (TransportError (name @ '': '' @ msg)), w1)
   | (Inl (NetValueError name msg), w1) \<Rightarrow> (Inl (TransportError (''invalid request ('' @ name @ '')'')), w1)
   | (Inr resp, w1) \<Rightarrow> (Inr (resp\<lparr>rs_headers := lower_headers (rs_headers resp)\<rparr>), w1))"

definition contact_target :: "url_parts \<Rightarrow> str" where
  "contact_target parts = (if up_path parts = [] then ''/'' else up_path parts)
     @ (if up_query parts = [] then [] else CHR ''?'' # up_query parts)"

definition blocking_request :: "'w net \<Rightarrow> http_request \<Rightarrow> 'w \<Rightarrow> (transport_failure + http_response) \<times> 'w" where
  "blocking_request net req w = (case urlsplit (nt_netloc_ok net) (hr_url req) of
     None \<Rightarrow> (Inl (TransportRaised ''ValueError''), w)
   | Some parts \<Rightarrow>
       if up_scheme parts \<notin> {''http'', ''https''} \<or> url_hostname parts = []
       then (Inl (TransportError (''unsupported URL: '' @ nt_repr net (hr_url req))), w)
       else (case url_port parts of
           None \<Rightarrow> (Inl (TransportRaised ''ValueError''), w)
         | Some given \<Rightarrow>
             let tls = (up_scheme parts = ''https'');
                 standard = (if tls then 443 else 80);
                 port = (case given of None \<Rightarrow> standard | Some n \<Rightarrow> if n = 0 then standard else n)
             in send_on net \<lparr>ct_tls = tls, ct_host = url_hostname parts, ct_port = port,
                  ct_method = hr_method req, ct_target = contact_target parts,
                  ct_headers = hr_headers req, ct_body = hr_body req\<rparr> w))"

text \<open>The environment of a client that uses this transport.\<close>

definition threaded_env :: "'w net \<Rightarrow> ('w \<Rightarrow> rat) \<Rightarrow> (rat \<Rightarrow> 'w \<Rightarrow> 'w) \<Rightarrow> ('w \<Rightarrow> rat \<times> 'w) \<Rightarrow> 'w http_env" where
  "threaded_env net time sleep rng =
     \<lparr>he_request = blocking_request net, he_time = time, he_sleep = sleep, he_rng = rng\<rparr>"

section \<open>The URLs of the client\<close>

text \<open>A base URL as an administrator writes it.\<close>

definition host_char :: "char \<Rightarrow> bool" where
  "host_char c \<longleftrightarrow> is_digit c \<or> (97 \<le> ordc c \<and> ordc c \<le> 122) \<or> c \<in> set ''-.''"

definition base_url :: "bool \<Rightarrow> str \<Rightarrow> nat option \<Rightarrow> str \<Rightarrow> str" where
  "base_url tls host port bpath = (if tls then ''https'' else ''http'') @ ''://'' @ host
     @ (case port of None \<Rightarrow> [] | Some n \<Rightarrow> CHR '':'' # nat_str n) @ bpath"

definition base_ok :: "str \<Rightarrow> nat option \<Rightarrow> str \<Rightarrow> bool" where
  "base_ok host port bpath \<longleftrightarrow> host \<noteq> [] \<and> list_all host_char host
     \<and> (case port of None \<Rightarrow> True | Some n \<Rightarrow> 0 < n \<and> n \<le> 65535)
     \<and> list_all path_char bpath \<and> (bpath = [] \<or> hd bpath = CHR ''/'')"

definition port_of :: "bool \<Rightarrow> nat option \<Rightarrow> nat" where
  "port_of tls port = (case port of None \<Rightarrow> if tls then 443 else 80 | Some n \<Rightarrow> n)"

definition port_text :: "nat option \<Rightarrow> str" where
  "port_text port = (case port of None \<Rightarrow> [] | Some n \<Rightarrow> CHR '':'' # nat_str n)"

lemma char_facts:
  "path_char c \<Longrightarrow> 33 \<le> ordc c \<and> ordc c < 128 \<and> c \<notin> set ''?#''"
  "query_char c \<Longrightarrow> 33 \<le> ordc c \<and> ordc c < 128 \<and> c \<noteq> CHR ''#''"
  "host_char c \<Longrightarrow> 33 \<le> ordc c \<and> ordc c < 128 \<and> c \<notin> set ''/?#[]@:%''"
  "is_digit c \<Longrightarrow> 33 \<le> ordc c \<and> ordc c < 128 \<and> c \<notin> set ''/?#[]@%''"
  by (auto simp: path_char_def query_char_def host_char_def unreserved_def is_digit_def)

lemma host_lower [simp]: "list_all host_char h \<Longrightarrow> py_lower h = h"
  by (induction h) (auto simp: py_lower_def host_char_def is_digit_def low_char_def)

lemma port_text_char: "c \<in> set (port_text port) \<Longrightarrow> c = CHR '':'' \<or> is_digit c"
  using nat_str_set by (auto simp: port_text_def split: option.splits)

lemma split_netloc_slash:
  assumes "list_all (\<lambda>c. c \<notin> set ''/?#'') n" and "r \<noteq> []" and "hd r = CHR ''/''"
  shows "split_netloc (''//'' @ n @ r) = (n, r)"
proof -
  obtain t where "r = CHR ''/'' # t" using assms by (cases r) auto
  moreover have "takeWhile (\<lambda>c. c \<notin> set ''/?#'') (n @ CHR ''/'' # t) = n"
    "dropWhile (\<lambda>c. c \<notin> set ''/?#'') (n @ CHR ''/'' # t) = CHR ''/'' # t"
    using assms(1) by (induction n) auto
  ultimately show ?thesis by (simp add: split_netloc_def starts_with_def)
qed

lemma nothing_stripped:
  assumes "list_all (\<lambda>c. 33 \<le> ordc c) u"
  shows "dropWhile (\<lambda>c. ordc c \<le> 32) u = u" and "filter (\<lambda>c. ordc c \<notin> {9, 10, 13}) u = u"
  using assms by (cases u; force simp: list_all_iff filter_id_conv)+

text \<open>The location of a base URL.\<close>

lemma location_of_base:
  assumes "base_ok host port bpath"
  shows "\<not> netloc_bad ok (host @ port_text port)" and "host_info (host @ port_text port) = (host, tl (port_text port))"
    and "list_all (\<lambda>c. c \<notin> set ''/?#'') (host @ port_text port)"
    and "list_all (\<lambda>c. 33 \<le> ordc c) (host @ port_text port)"
proof -
  let ?n = "host @ port_text port"
  have host: "list_all host_char host" using assms by (simp add: base_ok_def)
  have chars: "33 \<le> ordc c \<and> ordc c < 128 \<and> c \<notin> set ''/?#[]@''" if "c \<in> set ?n" for c
    using that host char_facts(3,4) [of c] port_text_char [of c port] by (auto simp: list_all_iff)
  show "list_all (\<lambda>c. c \<notin> set ''/?#'') ?n" "list_all (\<lambda>c. 33 \<le> ordc c) ?n"
    using chars by (auto simp: list_all_iff)
  have "CHR ''['' \<notin> set ?n" "CHR '']'' \<notin> set ?n" "CHR ''@'' \<notin> set ?n" using chars by auto
  then show "\<not> netloc_bad ok ?n" using chars by (fastforce simp: netloc_bad_def list_ex_iff)
  have "takeWhile (\<lambda>c. c \<noteq> CHR ''@'') (rev ?n) = rev ?n"
    using \<open>CHR ''@'' \<notin> set ?n\<close> by (simp only: takeWhile_eq_all_conv) auto
  moreover have "partition_at (CHR ''['') ?n = (?n, False, [])"
    by (rule partition_at_no_sep) fact
  moreover have "CHR '':'' \<notin> set host" using host char_facts(3) by (force simp: list_all_iff)
  then have "partition_at (CHR '':'') ?n = (host, port \<noteq> None, tl (port_text port))"
    by (cases port) (simp_all add: port_text_def partition_at_no_sep partition_at_append)
  ultimately show "host_info ?n = (host, tl (port_text port))"
    by (simp only: host_info_def Let_def rev_rev_ident prod.case bool.case)
qed

lemma urlsplit_base:
  assumes base: "base_ok host port bpath" and p: "safe_path p" and q: "list_all query_char q"
    and tail: "qs = [] \<and> q = [] \<or> qs = CHR ''?'' # q"
  shows "urlsplit ok (base_url tls host port bpath @ p @ qs) =
     Some \<lparr>up_scheme = if tls then ''https'' else ''http'', up_netloc = host @ port_text port,
       up_path = bpath @ p, up_query = q\<rparr>"
proof -
  let ?s = "if tls then ''https'' else ''http''"
  let ?path = "bpath @ p"
  let ?rest = "?path @ qs"
  let ?n = "host @ port_text port"
  let ?url = "?s @ CHR '':'' # ''//'' @ ?n @ ?rest"
  note loc = location_of_base [OF base]
  have path: "list_all path_char ?path" "?path \<noteq> []" "hd ?path = CHR ''/''"
    using base p by (auto simp: base_ok_def safe_path_def hd_append)
  have url: "base_url tls host port bpath @ p @ qs = ?url"
    by (simp add: base_url_def port_text_def split: option.splits)
  have "list_all (\<lambda>c. 33 \<le> ordc c) ?url"
    using loc(4) path(1) q tail char_facts(1,2) by (auto simp: list_all_iff)
  note this [THEN nothing_stripped(1)] this [THEN nothing_stripped(2)]
  moreover have "split_scheme ?url = (?s, ''//'' @ ?n @ ?rest)"
    by (cases tls) (simp_all add: split_scheme_def ascii_alpha_def scheme_char_def py_lower_def low_char_def)
  moreover have "split_netloc (''//'' @ ?n @ ?rest) = (?n, ?rest)"
    by (rule split_netloc_slash [OF loc(3)]) (use path(2,3) in \<open>auto simp: hd_append split: if_splits\<close>)
  moreover have "takeWhile (\<lambda>c. c \<noteq> CHR ''#'') ?rest = ?rest"
    using path(1) q tail char_facts(1,2) by (fastforce simp: takeWhile_eq_all_conv list_all_iff)
  moreover have "CHR ''?'' \<notin> set ?path" using path(1) char_facts(1) by (fastforce simp: list_all_iff)
  then have "partition_at (CHR ''?'') ?rest = (?path, qs \<noteq> [], q)"
    using tail by (auto simp: partition_at_no_sep partition_at_append simp del: append_assoc)
  ultimately show ?thesis unfolding url urlsplit_def Let_def by (simp only: prod.case loc(1) if_False)
qed

section \<open>Where the requests of the client go\<close>

text \<open>The base URL of a client.\<close>

definition client_base :: "client \<Rightarrow> bool \<Rightarrow> str \<Rightarrow> nat option \<Rightarrow> str \<Rightarrow> bool" where
  "client_base c tls host port bpath \<longleftrightarrow> cl_base c = base_url tls host port bpath \<and> base_ok host port bpath"

definition api_contact :: "bool \<Rightarrow> str \<Rightarrow> nat option \<Rightarrow> str \<Rightarrow> contact \<Rightarrow> bool" where
  "api_contact tls host port bpath ct \<longleftrightarrow> ct_tls ct = tls \<and> ct_host ct = host \<and> ct_port ct = port_of tls port
     \<and> starts_with (bpath @ ''/'') (ct_target ct)"

text \<open>An API call is one exchange with the host of the base URL, for a target below its path.\<close>

definition contact_of :: "bool \<Rightarrow> str \<Rightarrow> nat option \<Rightarrow> str \<Rightarrow> str \<Rightarrow> http_request \<Rightarrow> contact" where
  "contact_of tls host port target query q = \<lparr>ct_tls = tls, ct_host = host, ct_port = port_of tls port,
     ct_method = hr_method q, ct_target = target @ (if query = [] then [] else CHR ''?'' # query),
     ct_headers = hr_headers q, ct_body = hr_body q\<rparr>"

lemma base_hostname:
  assumes "base_ok host port bpath"
  shows "url_hostname \<lparr>up_scheme = s, up_netloc = host @ port_text port, up_path = p, up_query = e\<rparr> = host"
proof -
  have host: "list_all host_char host" using assms by (simp add: base_ok_def)
  then have "CHR ''%'' \<notin> set host" using char_facts(3) by (force simp: list_all_iff)
  then show ?thesis using host by (simp add: url_hostname_def location_of_base(2) [OF assms] partition_at_no_sep)
qed

lemma base_port:
  assumes "base_ok host port bpath"
  shows "url_port \<lparr>up_scheme = s, up_netloc = host @ port_text port, up_path = p, up_query = e\<rparr> = Some port"
proof (cases port)
  case None
  then show ?thesis using location_of_base(2) [OF assms] by (simp add: url_port_def port_text_def)
next
  case (Some n)
  then have n: "n \<le> 65535" using assms by (simp add: base_ok_def)
  then have "length (nat_str n) \<le> 5" by (intro length_nat_str) simp_all
  then have "py_int (nat_str n) = Some n" by (simp add: py_int_def max_str_digits_def)
  then show ?thesis using n Some location_of_base(2) [OF assms] by (simp add: url_port_def port_text_def)
qed

lemma blocking_request_base:
  assumes base: "base_ok host port bpath" and p: "safe_path p" and e: "list_all query_char e"
    and url: "hr_url q = base_url tls host port bpath @ p @ qs" and tail: "qs = [] \<and> e = [] \<or> qs = CHR ''?'' # e"
  shows "blocking_request net q = send_on net (contact_of tls host port (bpath @ p) e q)"
proof -
  have "host \<noteq> []" "bpath @ p \<noteq> []" using base p by (simp_all add: base_ok_def safe_path_def)
  then show ?thesis
    using base urlsplit_base [OF base p e tail] base_hostname [OF base] base_port [OF base]
    by (auto simp: fun_eq_iff blocking_request_def url contact_of_def contact_target_def Let_def port_of_def base_ok_def
        split: option.splits)
qed

lemma api_url_contact:
  assumes base: "client_base c tls host port bpath" and p: "safe_path p" and url: "hr_url q = api_url c p params"
  shows "blocking_request net q =
    send_on net (contact_of tls host port (bpath @ p) (if params = [] then [] else urlencode params) q)"
proof (rule blocking_request_base [OF _ p])
  show "base_ok host port bpath" using base by (simp add: client_base_def)
  show "hr_url q = base_url tls host port bpath @ p @ (if params = [] then [] else CHR ''?'' # urlencode params)"
    using base by (simp add: client_base_def url api_url_def)
qed (auto simp: urlencode_chars)

lemma api_contact_of: "safe_path p \<Longrightarrow> api_contact tls host port bpath (contact_of tls host port (bpath @ p) e q)"
  by (cases p) (auto simp: api_contact_def contact_of_def safe_path_def starts_with_def)

section \<open>Keeping the API key at home\<close>

definition guarded :: "bool \<Rightarrow> str \<Rightarrow> nat option \<Rightarrow> str \<Rightarrow> contact \<Rightarrow> bool" where
  "guarded tls host port bpath ct \<longleftrightarrow> ct_headers ct = [] \<or> api_contact tls host port bpath ct"

lemma send_on_world: "snd (send_on net ct w) = snd (nt_exchange net ct w)"
  by (auto simp: send_on_def split: prod.splits sum.splits net_failure.splits)

lemma blocking_request_cases:
  obtains "snd (blocking_request net q w) = w"
  | ct where "blocking_request net q w = send_on net ct w" and "ct_headers ct = hr_headers q"
proof (cases "urlsplit (nt_netloc_ok net) (hr_url q)")
  case None
  then show ?thesis using that(1) by (simp add: blocking_request_def)
next
  case parts: (Some parts)
  show ?thesis
  proof (cases "(up_scheme parts \<notin> {''http'', ''https''} \<or> url_hostname parts = []) \<or> url_port parts = None")
    case True
    then show ?thesis using that(1) parts by (auto simp: blocking_request_def)
  next
    case False
    then show ?thesis using that(2) parts by (auto simp: blocking_request_def Let_def)
  qed
qed

lemma modest_guarded:
  assumes base: "client_base c tls host port bpath" and "modest c inbox q" and P: "P w"
    and net: "\<And>ct w. P w \<Longrightarrow> guarded tls host port bpath ct \<Longrightarrow> P (snd (nt_exchange net ct w))"
  shows "P (snd (blocking_request net q w))"
proof (cases "hr_headers q = []")
  case True
  show ?thesis
  proof (cases rule: blocking_request_cases [of net q w])
    case (2 ct)
    then show ?thesis using net [OF P, of ct] True by (simp add: guarded_def send_on_world)
  qed (use P in simp)
next
  case False
  then obtain p params where "safe_path p" "hr_url q = api_url c p params" by (rule modest_url [OF assms(2)])
  then show ?thesis
    using net [OF P] api_contact_of by (auto simp: api_url_contact [OF base] guarded_def send_on_world)
qed

text \<open>A network that notes whom it is asked to contact.\<close>

definition noting :: "'w net \<Rightarrow> ('w \<times> contact list) net" where
  "noting net = \<lparr>nt_netloc_ok = nt_netloc_ok net, nt_repr = nt_repr net,
     nt_exchange = (\<lambda>ct (w, l). case nt_exchange net ct w of (r, w') \<Rightarrow> (r, (w', l @ [ct])))\<rparr>"

definition noted_env :: "'w net \<Rightarrow> ('w \<Rightarrow> rat) \<Rightarrow> (rat \<Rightarrow> 'w \<Rightarrow> 'w) \<Rightarrow> ('w \<Rightarrow> rat \<times> 'w) \<Rightarrow>
    ('w \<times> contact list) http_env" where
  "noted_env net time sleep rng = threaded_env (noting net) (\<lambda>(w, l). time w) (\<lambda>d (w, l). (sleep d w, l))
     (\<lambda>(w, l). case rng w of (q, w') \<Rightarrow> (q, (w', l)))"

definition all_guarded :: "bool \<Rightarrow> str \<Rightarrow> nat option \<Rightarrow> str \<Rightarrow> 'w \<times> contact list \<Rightarrow> bool" where
  "all_guarded tls host port bpath wl \<longleftrightarrow> list_all (guarded tls host port bpath) (snd wl)"

lemma noted_env_keeps:
  assumes "client_base c tls host port bpath"
  shows "env_keeps (all_guarded tls host port bpath) (modest c inbox) (noted_env net time sleep rng)"
proof -
  have "all_guarded tls host port bpath (snd (nt_exchange (noting net) ct w))"
    if "all_guarded tls host port bpath w" "guarded tls host port bpath ct" for ct w
    using that by (auto simp: all_guarded_def noting_def split: prod.splits)
  note modest_guarded [where P = "all_guarded tls host port bpath" and net = "noting net", OF assms _ _ this]
  then show ?thesis
    by (auto simp: env_keeps_def noted_env_def threaded_env_def) (auto simp: all_guarded_def split: prod.splits)
qed

text \<open>The API key goes to the host of the configured API URL and nowhere else: whatever the inbox, message and
  draft identifiers, download URLs, answers and failures, every exchange that any call of the client makes
  over the threaded transport either is with that scheme, host and port, for a target below the path of the
  base URL, or carries no header at all.\<close>

lemma key_sent_to_api_only:
  assumes "client_base c tls host port bpath" and "env = noted_env net time sleep rng"
    and "P = all_guarded tls host port bpath" and "\<And>d acc. io_keeps P (body d acc)"
  shows "io_keeps P (auth_me c env) \<and> io_keeps P (get_inbox c env inbox)
    \<and> io_keeps P (list_messages fuel c env inbox labels trash spam asc body acc)
    \<and> io_keeps P (list_drafts fuel c env inbox body acc)
    \<and> io_keeps P (get_message c env inbox mid) \<and> io_keeps P (get_raw_meta c env inbox mid)
    \<and> io_keeps P (download c env url) \<and> io_keeps P (update_labels c env inbox mid add remove)
    \<and> io_keeps P (get_draft c env inbox did) \<and> io_keeps P (create_draft c env inbox fs)
    \<and> io_keeps P (delete_draft c env inbox did)"
proof -
  have env: "env_keeps P (modest c inbox) env" unfolding assms(2,3) by (rule noted_env_keeps [OF assms(1)])
  show ?thesis by (intro conjI client_calls_keep [OF env] client_listings_keep [OF env assms(4)])
qed

definition local_client :: client where
  "local_client = \<lparr>cl_base = ''http://127.0.0.1:3210/v0'', cl_api_key = ''secret'', cl_max_attempts = 1, cl_retry_budget = 0,
     cl_backoff_base = 0, cl_loads = (\<lambda>_. None), cl_dumps = (\<lambda>_. []), cl_repr = (\<lambda>_. [])\<rparr>"

definition quiet_net :: "unit net" where
  "quiet_net = \<lparr>nt_netloc_ok = (\<lambda>_. False), nt_repr = (\<lambda>t. t),
     nt_exchange = (\<lambda>ct w. (Inr \<lparr>rs_status = 200, rs_headers = [], rs_body = []\<rparr>, w))\<rparr>"

lemma local_port: "nat_str 3210 = ''3210''"
proof -
  have "digit_char 3 = CHR ''3''" "digit_char 2 = CHR ''2''" "digit_char 1 = CHR ''1''" "digit_char 0 = CHR ''0''" by code_simp+
  then show ?thesis by (simp add: nat_str.simps)
qed

lemma local_client_base: "client_base local_client False ''127.0.0.1'' (Some 3210) ''/v0''"
  by (simp add: client_base_def local_client_def base_url_def base_ok_def host_char_def path_char_def unreserved_def
      is_digit_def local_port)

text \<open>An API call on that network is one exchange.\<close>

lemma quiet_request:
  assumes "client_base c tls host port bpath" and "safe_path p" and "hr_url q = api_url c p params"
  shows "blocking_request (noting quiet_net) q ((), l) = (Inr \<lparr>rs_status = 200, rs_headers = [], rs_body = []\<rparr>,
     ((), l @ [contact_of tls host port (bpath @ p) (if params = [] then [] else urlencode params) q]))"
  unfolding api_url_contact [OF assms] by (simp add: send_on_def noting_def quiet_net_def lower_headers_def)

text \<open>A hostile identifier stays one segment of the path.\<close>

lemma hostile_inbox:
  "snd (get_inbox local_client (noted_env quiet_net (\<lambda>_. 0) (\<lambda>_ w. w) (Pair 0)) ''@evil.test/?#'' ((), [])) = ((),
     [\<lparr>ct_tls = False, ct_host = ''127.0.0.1'', ct_port = 3210, ct_method = ''GET'',
       ct_target = ''/v0/inboxes/%40evil.test%2F%3F%23'',
       ct_headers = [(''authorization'', ''Bearer secret''), (''accept'', ''application/json'')], ct_body = None\<rparr>])"
proof -
  note quiet_request [OF local_client_base operation_paths(2) [of "''@evil.test/?#''"], where params = "[]"]
  moreover have "inbox_path ''@evil.test/?#'' = ''/inboxes/%40evil.test%2F%3F%23''" by code_simp
  ultimately show ?thesis
    by (simp add: get_inbox_def api_json_def api_request_def with_retries_def retry_loop.simps noted_env_def
        threaded_env_def attempt_outcome_def io_bind_def contact_of_def port_of_def) (simp add: local_client_def)
qed

text \<open>A URL whose port is no port is not a transport error: the \<open>ValueError\<close> of \<open>parts.port\<close> leaves the request, and
  a download of it ends outside the errors of the client.\<close>

lemma bad_port_escapes:
  assumes "hr_url q = ''https://cdn.test:99999/raw''"
  shows "blocking_request net q w = (Inl (TransportRaised ''ValueError''), w)"
proof -
  have parts: "urlsplit ok ''https://cdn.test:99999/raw'' =
      Some \<lparr>up_scheme = ''https'', up_netloc = ''cdn.test:99999'', up_path = ''/raw'', up_query = []\<rparr>" for ok
    unfolding urlsplit_def netloc_bad_def by code_simp
  have "url_hostname \<lparr>up_scheme = ''https'', up_netloc = ''cdn.test:99999'', up_path = ''/raw'', up_query = []\<rparr> = ''cdn.test''"
    "url_port \<lparr>up_scheme = ''https'', up_netloc = ''cdn.test:99999'', up_path = ''/raw'', up_query = []\<rparr> = None"
    by (simp_all add: url_hostname_def url_port_def host_info_def py_lower_def low_char_def py_isdigit_def is_digit_def
        py_int_def max_str_digits_def digits_val_def digit_val_def)
  then show ?thesis using parts by (simp add: assms blocking_request_def)
qed

lemma bad_port_download:
  "fst (download c (threaded_env net time sleep rng) ''https://cdn.test:99999/raw'' w) = Inl (PyException ''ValueError'')"
  by (simp add: download_def with_retries_def retry_loop.simps threaded_env_def bad_port_escapes attempt_outcome_def io_bind_def)

end
