(* ===== verification/Server_Traffic.thy ===== *)
theory Server_Traffic
  imports Startup Transport
begin

text \<open>
  What a whole server does to the world outside. \<open>running\<close> are the states a server reaches on one connection to
  the API, with the requests of its sessions and of the follow-up listings spelled out; it refines \<open>serving\<close>. In
  all of them the only requests are those of clients the server itself made from its settings, and the only changes
  of the store are operations of the store, so that whatever these keep is kept for good. Shown with it: where API
  keys go over the threaded transport, and that the gateway neither sends mail nor deletes messages.
\<close>

section \<open>Sessions\<close>

text \<open>The clients of the server, each with an inbox it may be used for.\<close>

definition own_client :: "'w server_cfg \<Rightarrow> client \<Rightarrow> str \<Rightarrow> bool" where
  "own_client cfg api inbox \<longleftrightarrow> api \<in> range (se_make_client (sx_env cfg)) \<and> permitted (sx_env cfg) inbox"

text \<open>A property of the service that survives whatever these reach.\<close>

definition kept_by_clients :: "'w server_cfg \<Rightarrow> ('w service \<Rightarrow> bool) \<Rightarrow> bool" where
  "kept_by_clients cfg Q \<longleftrightarrow>
     (\<forall>api inbox sv sv'. own_client cfg api inbox \<longrightarrow> reaches (se_service (sx_env cfg)) api inbox sv sv' \<longrightarrow> Q sv \<longrightarrow> Q sv')"

definition own_session :: "'w server_cfg \<Rightarrow> 'w session \<Rightarrow> bool" where
  "own_session cfg s \<longleftrightarrow> (\<forall>api inbox. ss_api s = Some api \<longrightarrow> ss_inbox s = Some inbox \<longrightarrow> own_client cfg api inbox)
     \<and> (\<forall>task \<in> set (ss_deferred s). own_client cfg (fst task) (snd task))"

definition inside :: "'w server_cfg \<Rightarrow> ('w service \<Rightarrow> bool) \<Rightarrow> 'w session \<Rightarrow> bool" where
  "inside cfg Q s \<longleftrightarrow> kept_by_clients cfg Q \<and> Q (ss_service s) \<and> own_session cfg s"

interpretation fenced: session_login "conn_env cfg i" "own_client cfg" "inside cfg Q" for cfg i Q
proof (unfold_locales, goal_cases)
  case (3 s api inbox sv)
  then show ?case unfolding inside_def kept_by_clients_def own_session_def by simp
next
  case (13 s inbox key)
  then show ?case
    by (auto simp: inside_def own_session_def own_client_def permitted_def set_credentials_def clear_credentials_def conn_env_def Let_def
        split: option.split)
qed (auto simp: inside_def own_session_def clear_credentials_def Let_def split: option.split)

section \<open>Servers\<close>

definition server_inside :: "'w server_cfg \<Rightarrow> ('w service \<Rightarrow> bool) \<Rightarrow> 'w server \<Rightarrow> bool" where
  "server_inside cfg Q srv \<longleftrightarrow> kept_by_clients cfg Q \<and> Q (sr_service srv)
     \<and> (\<forall>(i, c) \<in> set (sr_conns srv). own_session cfg (cn_session c))"

lemma within_attach:
  "server_inside cfg Q srv \<Longrightarrow> map_of (sr_conns srv) i = Some c \<Longrightarrow> inside cfg Q (attach srv (cn_session c))"
  by (drule map_of_SomeD) (fastforce simp: server_inside_def inside_def own_session_def attach_def)

lemma hang_up_inside: "server_inside cfg Q srv \<Longrightarrow> inside cfg Q s \<Longrightarrow> server_inside cfg Q (hang_up cfg i s srv)"
  using fenced.hung_up [of cfg Q s i] by (auto simp: server_inside_def inside_def hang_up_def detach_def dict_pop_def)

lemma settle_inside:
  "server_inside cfg Q srv \<Longrightarrow> inside cfg Q (cn_session c) \<Longrightarrow> server_inside cfg Q (settle cfg i c srv)"
  using hang_up_inside [of cfg Q srv "cn_session c" i] set_dict_set [of i c "sr_conns srv"]
  by (auto simp: server_inside_def inside_def settle_def detach_def)

lemma on_connection_inside:
  assumes "server_inside cfg Q srv"
  shows "server_inside cfg Q (snd (on_connection cfg srv))"
proof -
  let ?i = "sr_next srv"
  let ?s = "new_session (conn_env cfg ?i) (sr_service srv) (sr_redactor srv)"
  have s: "inside cfg Q ?s" using assms by (simp add: server_inside_def inside_def own_session_def new_session_def)
  then have "inside cfg Q (flush_out (conn_env cfg ?i) (push greeting ?s))" by (intro fenced.flushed fenced.pushed)
  moreover have "server_inside cfg Q (srv\<lparr>sr_next := ?i + 1, sr_conns := dict_set ?i \<lparr>cn_session = ?s, cn_events = []\<rparr> (sr_conns srv)\<rparr>)"
    using assms s set_dict_set [of ?i "\<lparr>cn_session = ?s, cn_events = []\<rparr>" "sr_conns srv"] by (auto simp: server_inside_def inside_def)
  ultimately show ?thesis using assms by (simp add: on_connection_def Let_def settle_inside)
qed

lemma receive_inside:
  assumes "server_inside cfg Q srv"
  shows "server_inside cfg Q (receive cfg i r srv)"
proof (cases "map_of (sr_conns srv) i")
  case (Some c)
  have "inside cfg Q (snd (read_timeout (conn_env cfg i) (attach srv (cn_session c))))"
    using within_attach [OF assms Some] by (simp add: read_timeout_def Let_def fenced.assembling)
  then show ?thesis
    using assms Some
    by (auto simp: receive_def Let_def hang_up_inside settle_inside fenced.pushed fenced.parsing split: read_outcome.split prod.split)
qed (simp add: receive_def assms)

lemma handle_next_inside: "server_inside cfg Q srv \<Longrightarrow> server_inside cfg Q (handle_next cfg i srv)"
  by (auto simp: handle_next_def settle_inside within_attach fenced.flushed fenced.event_handled split: option.split list.split)

lemma dismiss_inside:
  assumes "server_inside cfg Q srv"
  shows "server_inside cfg Q (dismiss cfg i srv)"
proof (cases "map_of (sr_conns srv) i")
  case (Some c)
  let ?s = "attach srv (cn_session c)"
  have s: "inside cfg Q ?s" by (rule within_attach [OF assms Some])
  have "inside cfg Q (farewell cfg i ?s)"
  proof (cases "sx_slow cfg i \<and> \<not> ss_closed ?s")
    case True
    then show ?thesis using s by (simp add: farewell_def abort_def inside_def own_session_def)
  next
    case False
    have "inside cfg Q (close_session (conn_env cfg i) (push (Bye ''server shutting down'') ?s))"
      by (intro fenced.hung_up fenced.pushed s)
    then show ?thesis unfolding farewell_def say_bye_and_close_def if_not_P [OF False] by simp
  qed
  then show ?thesis using assms Some by (simp add: dismiss_def hang_up_inside)
qed (simp add: dismiss_def assms)

lemma stop_inside:
  assumes "server_inside cfg Q srv"
  shows "server_inside cfg Q (stop_server cfg srv)"
proof -
  have "server_inside cfg Q (fold (dismiss cfg) is srv')" if "server_inside cfg Q srv'" for "is" srv'
    using that by (induction "is" arbitrary: srv') (simp_all add: dismiss_inside)
  moreover have "server_inside cfg Q (srv\<lparr>sr_listening := False\<rparr>)" using assms by (simp add: server_inside_def)
  ultimately have "server_inside cfg Q (fold (dismiss cfg) (map fst (sr_conns srv)) (srv\<lparr>sr_listening := False\<rparr>))" by blast
  then show ?thesis by (simp add: stop_server_def server_inside_def)
qed

section \<open>All runs, with their requests\<close>

text \<open>The states reached from the service \<open>sv\<close>. Between the steps of the connections, follow-up listings of earlier
  commands go on with the client of their session, and time passes.\<close>

inductive running :: "'w server_cfg \<Rightarrow> 'w service \<Rightarrow> 'w server \<Rightarrow> bool" for cfg sv where
  begins: "running cfg sv (start_server (new_server sv))"
| accepts: "running cfg sv srv \<Longrightarrow> running cfg sv (snd (on_connection cfg srv))"
| hears: "running cfg sv srv \<Longrightarrow> running cfg sv (receive cfg i r srv)"
| handles: "running cfg sv srv \<Longrightarrow> running cfg sv (handle_next cfg i srv)"
| catches_up: "running cfg sv srv \<Longrightarrow> own_client cfg api inbox \<Longrightarrow>
    running cfg sv (srv\<lparr>sr_service := snd (sync (se_service (sx_env cfg)) api inbox ''Drafts'' True (sr_service srv))\<rparr>)"
| waits: "running cfg sv srv \<Longrightarrow>
    running cfg sv (srv\<lparr>sr_service := (sr_service srv)\<lparr>sv_world := he_sleep (cf_http (se_service (sx_env cfg))) d (sv_world (sr_service srv))\<rparr>\<rparr>)"
| shuts_down: "running cfg sv srv \<Longrightarrow> running cfg sv (stop_server cfg srv)"

text \<open>These are runs in the sense of \<open>serving\<close>: whatever holds in those holds here.\<close>

lemma running_serving:
  assumes "running cfg sv srv" and "healthy (se_service (sx_env cfg)) sv"
  shows "\<exists>vs. serving cfg srv vs"
  using assms
proof (induction rule: running.induct)
  case (handles srv i)
  then obtain vs where vs: "serving cfg srv vs" by blast
  show ?case
  proof (cases "\<exists>c ev evs. map_of (sr_conns srv) i = Some c \<and> cn_events c = ev # evs")
    case True
    then show ?thesis using serving.acts [OF vs _ _ refl refl] by blast
  next
    case False
    then have "handle_next cfg i srv = srv" by (auto simp: handle_next_def split: option.split list.split)
    then show ?thesis using vs by auto
  qed
next
  case (catches_up srv api inbox)
  then obtain vs where vs: "serving cfg srv vs" by blast
  let ?cfg = "se_service (sx_env cfg)"
  have "carried ?cfg (sr_service srv) (sr_service srv)" using serving_ok [OF vs] by (simp add: server_ok_def healthy_def)
  then have "carried ?cfg (sr_service srv) (snd (sync ?cfg api inbox ''Drafts'' True (sr_service srv)))"
    using keys.sync_kept [of ?cfg "sr_service srv" api inbox "''Drafts''" True] unfolding io_keeps_def by blast
  then show ?case using serving.goes_on [OF vs] by blast
next
  case (waits srv d)
  then obtain vs where vs: "serving cfg srv vs" by blast
  have "carried (se_service (sx_env cfg)) (sr_service srv) (sr_service srv)" using serving_ok [OF vs] by (simp add: server_ok_def healthy_def)
  then have "carried (se_service (sx_env cfg)) (sr_service srv) ((sr_service srv)\<lparr>sv_world := w\<rparr>)" for w
    by (simp add: carried_def grown_world keyed_def)
  then show ?case using serving.goes_on [OF vs] by blast
qed (blast intro: serving.intros)+

lemma running_inside:
  assumes "running cfg sv srv" and "kept_by_clients cfg Q" and "Q sv"
    and wait: "\<And>d s. Q s \<Longrightarrow> Q (s\<lparr>sv_world := he_sleep (cf_http (se_service (sx_env cfg))) d (sv_world s)\<rparr>)"
  shows "server_inside cfg Q srv"
  using assms(1)
proof (induction rule: running.induct)
  case begins
  then show ?case using assms(2,3) by (simp add: server_inside_def start_server_def new_server_def)
next
  case (catches_up srv api inbox)
  have "reaches (se_service (sx_env cfg)) api inbox (sr_service srv)
      (snd (sync (se_service (sx_env cfg)) api inbox ''Drafts'' True (sr_service srv)))"
    using roams_operations(1) unfolding roams_def by blast
  then have "Q (snd (sync (se_service (sx_env cfg)) api inbox ''Drafts'' True (sr_service srv)))"
    using catches_up unfolding server_inside_def kept_by_clients_def by blast
  then show ?case using catches_up.IH by (simp add: server_inside_def)
next
  case (waits srv d)
  then show ?case using wait by (simp add: server_inside_def)
qed (simp_all add: on_connection_inside receive_inside handle_next_inside stop_inside)

section \<open>Where the API keys go\<close>

text \<open>C4: An API key goes to the host of the configured API URL and nowhere else. Whatever clients connect and send,
  in every order in which the server runs their connections and the follow-up listings of earlier commands, and
  whatever identifiers, download URLs, answers and failures occur: every exchange a server makes over the
  threaded transport either is with the scheme, host and port of the API URL, for a target below its path, or
  carries no header at all.\<close>

theorem keys_stay_with_api:
  assumes "running cfg sv srv" and "cf_http (se_service (sx_env cfg)) = noted_env net time sleep rng"
    and "\<And>key. client_base (se_make_client (sx_env cfg) key) tls host port bpath" and "snd (sv_world sv) = []"
  shows "list_all (guarded tls host port bpath) (snd (sv_world (sr_service srv)))"
proof -
  let ?Q = "\<lambda>s. all_guarded tls host port bpath (sv_world s)"
  have env: "env_keeps (all_guarded tls host port bpath) (modest (se_make_client (sx_env cfg) key) inbox) (cf_http (se_service (sx_env cfg)))" for key inbox
    unfolding assms(2) by (rule noted_env_keeps [OF assms(3)])
  then have "kept_by_clients cfg ?Q" using reachesD unfolding kept_by_clients_def own_client_def by blast
  moreover have "?Q sv" using assms(4) by (simp add: all_guarded_def)
  moreover have "all_guarded tls host port bpath (he_sleep (cf_http (se_service (sx_env cfg))) d w)" if "all_guarded tls host port bpath w" for d w
    using env [of undefined undefined] that unfolding env_keeps_def by blast
  ultimately have "server_inside cfg ?Q srv" by (intro running_inside [OF assms(1)]) simp_all
  then show ?thesis by (simp add: server_inside_def all_guarded_def)
qed

text \<open>The clients of a gateway have the API URL of its settings; the default one is well-formed.\<close>

lemma configured_clients:
  assumes "configured st loads dumps base = Some cfg" and "base_ok host port bpath"
    and "rstrip_by (\<lambda>c. c = CHR ''/'') (st_api_url st) = base_url tls host port bpath"
  shows "client_base (se_make_client (sx_env cfg) key) tls host port bpath"
  using assms by (auto simp: configured_def make_client_def client_base_def Let_def split: py_float.splits if_splits)

lemma default_clients:
  assumes "configured default_settings loads dumps base = Some cfg"
  shows "client_base (se_make_client (sx_env cfg) key) False ''127.0.0.1'' (Some 3210) ''/v0''"
proof -
  have base: "base_ok ''127.0.0.1'' (Some 3210) ''/v0''" "base_url False ''127.0.0.1'' (Some 3210) ''/v0'' = ''http://127.0.0.1:3210/v0''"
    using local_client_base by (simp_all add: client_base_def local_client_def)
  show ?thesis by (rule configured_clients [OF assms base(1)]) (simp add: base(2) default_settings_def rstrip_by_def)
qed

text \<open>A server on a quiet network whose follow-up listing makes one exchange.\<close>

definition quiet_cfg :: "(unit \<times> contact list) session_env \<Rightarrow> (unit \<times> contact list) server_cfg" where
  "quiet_cfg env0 = \<lparr>sx_env = env0\<lparr>se_service := \<lparr>cf_http = noted_env quiet_net (\<lambda>_. 0) (\<lambda>_ w. w) (Pair 0), cf_fuel = 2,
       cf_lib = demo_lib, cf_store_env = (\<lambda>_. demo_store_env), cf_defs = mailboxes, cf_refresh = 15\<rparr>,
       se_make_client := (\<lambda>key. local_client\<lparr>cl_api_key := key\<rparr>), se_allowed := None\<rparr>,
     sx_max_connections = 2, sx_conn_id = (\<lambda>_. ''c''), sx_drain = (\<lambda>_ _ _. Drained), sx_slow = (\<lambda>_. False)\<rparr>"

definition quiet_service :: "(unit \<times> contact list) service" where
  "quiet_service = new_service ((), []) (empty_store None) (new_cache 100)"

lemma quiet_listing:
  defines "api \<equiv> local_client\<lparr>cl_api_key := ''secret''\<rparr>"
  shows "map ct_host (snd (sv_world (snd (sync (se_service (sx_env (quiet_cfg env0))) api ''a@x'' ''Drafts'' True quiet_service)))) = [''127.0.0.1'']"
proof -
  let ?cfg = "se_service (sx_env (quiet_cfg env0))"
  have base: "client_base api False ''127.0.0.1'' (Some 3210) ''/v0''" using local_client_base by (simp add: api_def client_base_def)
  have box: "lookup ?cfg ''Drafts'' = Some drafts_box" "md_kind drafts_box = DraftItems" "cf_fuel ?cfg = Suc 1"
    by (simp_all add: quiet_cfg_def lookup_def lookup_mailbox_def mailboxes_def inbox_box_def drafts_box_def py_upper_def up_char_def)
  have http: "he_request (service_http ?cfg) q s =
      (case blocking_request (noting quiet_net) q (sv_world s) of (r, w) \<Rightarrow> (r, s\<lparr>sv_world := w\<rparr>))"
    "he_time (service_http ?cfg) s = 0" for q s
    by (simp_all add: service_http_def quiet_cfg_def noted_env_def threaded_env_def case_prod_unfold Let_def)
  have api: "cl_max_attempts api = 1" "cl_retry_budget api = 0" "cl_loads api = (\<lambda>_. None)" by (simp_all add: api_def local_client_def)
  have world: "sv_world quiet_service = ((), [])" "sv_latest quiet_service b = None" for b
    by (simp_all add: quiet_service_def new_service_def)
  note quiet_request [OF base operation_paths(4) [of "''a@x''"]]
  then show ?thesis
    by (simp add: sync_def box world do_sync_def collect_def collect_drafts_def list_drafts_def api_json_def api_request_def
        with_retries_def retry_loop.simps attempt_outcome_def io_bind_def http api Let_def contact_of_def
        page_items_def jget_def split: option.split sum.split)
qed

theorem keys_stay_with_api_witness:
  "\<forall>env0. \<exists>srv. running (quiet_cfg env0) quiet_service srv \<and> map ct_host (snd (sv_world (sr_service srv))) = [''127.0.0.1'']
     \<and> list_all (guarded False ''127.0.0.1'' (Some 3210) ''/v0'') (snd (sv_world (sr_service srv)))"
proof
  fix env0
  let ?cfg = "quiet_cfg env0" and ?srv = "start_server (new_server quiet_service)" and ?api = "local_client\<lparr>cl_api_key := ''secret''\<rparr>"
  let ?next = "?srv\<lparr>sr_service := snd (sync (se_service (sx_env ?cfg)) ?api ''a@x'' ''Drafts'' True (sr_service ?srv))\<rparr>"
  have clients: "client_base (se_make_client (sx_env ?cfg) key) False ''127.0.0.1'' (Some 3210) ''/v0''" for key
    using local_client_base by (simp add: quiet_cfg_def client_base_def)
  have http: "cf_http (se_service (sx_env ?cfg)) = noted_env quiet_net (\<lambda>_. 0) (\<lambda>_ w. w) (Pair 0)" by (simp add: quiet_cfg_def)
  have "own_client ?cfg ?api inbox" if "permitted (sx_env ?cfg) inbox" for inbox using that by (auto simp: own_client_def quiet_cfg_def)
  then have "own_client ?cfg ?api ''a@x''" by (simp add: permitted_def quiet_cfg_def)
  then have run: "running ?cfg quiet_service ?next" by (rule running.catches_up [OF running.begins])
  have "list_all (guarded False ''127.0.0.1'' (Some 3210) ''/v0'') (snd (sv_world (sr_service ?next)))"
    by (rule keys_stay_with_api [OF run http clients]) (simp add: quiet_service_def new_service_def)
  moreover have "sr_service ?srv = quiet_service" by (simp add: start_server_def new_server_def)
  ultimately show "\<exists>srv. running ?cfg quiet_service srv \<and> map ct_host (snd (sv_world (sr_service srv))) = [''127.0.0.1'']
     \<and> list_all (guarded False ''127.0.0.1'' (Some 3210) ''/v0'') (snd (sv_world (sr_service srv)))"
    using run quiet_listing [of env0] by (intro exI [of _ ?next]) simp
qed

section \<open>What is asked of the API\<close>

definition modest_log :: "'w server_cfg \<Rightarrow> 'v \<times> http_log list \<Rightarrow> bool" where
  "modest_log cfg wl \<longleftrightarrow>
     list_all (\<lambda>q. \<exists>key inbox. permitted (sx_env cfg) inbox \<and> modest (se_make_client (sx_env cfg) key) inbox q) (sent_requests (snd wl))"

lemma sent_requests_append [simp]: "sent_requests (xs @ ys) = sent_requests xs @ sent_requests ys"
  by (induction xs rule: sent_requests.induct) simp_all

lemma modest_log_kept:
  "own_client cfg api inbox \<Longrightarrow> env_keeps (modest_log cfg) (modest api inbox) (recording env)"
  by (auto simp: env_keeps_def recording_def modest_log_def own_client_def split: prod.split)

lemma requests_of_run:
  assumes "running cfg sv srv" and "cf_http (se_service (sx_env cfg)) = recording env" and "snd (sv_world sv) = []"
  shows "modest_log cfg (sv_world (sr_service srv))"
proof -
  let ?Q = "\<lambda>s. modest_log cfg (sv_world s)"
  have "own_client cfg api inbox \<Longrightarrow> env_keeps (modest_log cfg) (modest api inbox) (cf_http (se_service (sx_env cfg)))" for api inbox
    unfolding assms(2) by (rule modest_log_kept)
  then have "kept_by_clients cfg ?Q" using reachesD unfolding kept_by_clients_def by blast
  moreover have "?Q sv" using assms(3) by (simp add: modest_log_def)
  moreover have "modest_log cfg (he_sleep (cf_http (se_service (sx_env cfg))) d w)" if "modest_log cfg w" for d w
    using that by (cases w) (simp add: assms(2) recording_def modest_log_def)
  ultimately have "server_inside cfg ?Q srv" by (intro running_inside [OF assms(1)]) simp_all
  then show ?thesis by (simp add: server_inside_def)
qed

text \<open>C6: No mail is sent and no message deleted: in every run of a server, whatever its clients ask, and whatever the API
  answers or fails to, each request it makes is, for an inbox a client may log in to, a read, the creation of a
  draft, a change of the labels of a message, or the deletion of a draft.\<close>

theorem mail_never_sent_or_deleted:
  assumes "running cfg sv srv" and "cf_http (se_service (sx_env cfg)) = recording env" and "snd (sv_world sv) = []"
  shows "list_all (\<lambda>q. \<exists>key inbox. permitted (sx_env cfg) inbox \<and> modest (se_make_client (sx_env cfg) key) inbox q)
    (sent_requests (snd (sv_world (sr_service srv))))"
  using requests_of_run [OF assms] by (simp add: modest_log_def)

text \<open>The store changes by operations on the mailboxes of such inboxes.\<close>

definition server_issued :: "'w server_cfg \<Rightarrow> store_op \<Rightarrow> bool" where
  "server_issued cfg x \<longleftrightarrow> (\<exists>inbox. permitted (sx_env cfg) inbox \<and> issued (se_service (sx_env cfg)) inbox x)"

lemma running_store:
  assumes "running cfg sv srv"
  shows "store_reaches (server_issued cfg) (sv_store sv) (sv_store (sr_service srv))"
proof -
  let ?Q = "\<lambda>s. store_reaches (server_issued cfg) (sv_store sv) (sv_store s)"
  have "store_reaches (server_issued cfg) (sv_store s) (sv_store s')"
    if "own_client cfg api inbox" "reaches (se_service (sx_env cfg)) api inbox s s'" for api inbox s s'
    by (rule store_reaches_mono [OF reaches_stored [OF that(2)]]) (use that(1) in \<open>auto simp: own_client_def server_issued_def\<close>)
  then have "kept_by_clients cfg ?Q" unfolding kept_by_clients_def using store_reaches_trans by blast
  then have "server_inside cfg ?Q srv" by (rule running_inside [OF assms]) simp_all
  then show ?thesis by (simp add: server_inside_def)
qed

text \<open>C7: A gateway that is configured for one inbox touches no other: in every run each request it makes that carries
  the API key asks who the key belongs to, or is for a path of that inbox; and in the store the mailboxes of all
  other inboxes, their messages and their marks stay what they were.\<close>

theorem only_the_allowed_inbox:
  assumes "running cfg sv srv" and "cf_http (se_service (sx_env cfg)) = recording env" and "snd (sv_world sv) = []"
    and "store_inv (sv_store sv)" and "se_allowed (sx_env cfg) = Some inbox" and "inbox \<noteq> []"
  shows "list_all (\<lambda>q. hr_headers q \<noteq> [] \<longrightarrow>
      (\<exists>key p params. concerns inbox p \<and> hr_url q = api_url (se_make_client (sx_env cfg) key) p params))
        (sent_requests (snd (sv_world (sr_service srv))))
    \<and> (\<forall>b. box_inbox b \<noteq> inbox \<longrightarrow> same_box b (sv_store sv) (sv_store (sr_service srv)))"
proof
  have allowed: "permitted (sx_env cfg) i \<longleftrightarrow> i = inbox" for i using assms(5,6) by (simp add: permitted_def)
  have own: "\<exists>key p params. concerns inbox p \<and> hr_url q = api_url (se_make_client (sx_env cfg) key) p params"
    if m: "\<exists>key i. permitted (sx_env cfg) i \<and> modest (se_make_client (sx_env cfg) key) i q" and h: "hr_headers q \<noteq> []" for q
  proof -
    obtain key where "modest (se_make_client (sx_env cfg) key) inbox q" using m unfolding allowed by blast
    then obtain p params where "concerns inbox p" "hr_url q = api_url (se_make_client (sx_env cfg) key) p params"
      using h by (rule modest_url)
    then show ?thesis by blast
  qed
  show "list_all (\<lambda>q. hr_headers q \<noteq> [] \<longrightarrow>
      (\<exists>key p params. concerns inbox p \<and> hr_url q = api_url (se_make_client (sx_env cfg) key) p params))
        (sent_requests (snd (sv_world (sr_service srv))))"
    using requests_of_run [OF assms(1-3)] own unfolding modest_log_def list_all_iff by blast
  obtain ops where ops: "list_all (server_issued cfg) ops" "sv_store (sr_service srv) = store_run (sv_store sv) ops"
    using running_store [OF assms(1)] by (auto simp: store_reaches_def)
  have "box_inbox (op_box x) = inbox" if "server_issued cfg x" for x
    using that unfolding server_issued_def allowed by (cases x) auto
  then show "\<forall>b. box_inbox b \<noteq> inbox \<longrightarrow> same_box b (sv_store sv) (sv_store (sr_service srv))"
    unfolding ops(2) using ops(1) by (intro allI impI same_box_run [OF assms(4)]) (auto simp: list_all_iff)
qed

definition recorded_server :: "(unit \<times> http_log list) session_env \<Rightarrow> (unit \<times> http_log list) server_cfg" where
  "recorded_server env0 = \<lparr>sx_env = env0\<lparr>se_service := recorded_cfg, se_make_client := (\<lambda>_. demo_client), se_allowed := Some ''a@x''\<rparr>,
     sx_max_connections = 2, sx_conn_id = (\<lambda>_. ''c''), sx_drain = (\<lambda>_ _ _. Drained), sx_slow = (\<lambda>_. False)\<rparr>"

lemma recorded_listing:
  "map hr_method (sent_requests (snd (sv_world (snd (sync recorded_cfg demo_client ''a@x'' ''Drafts'' True
     (new_service ((), []) (empty_store None) c)))))) = [''GET'']"
proof -
  let ?s = "new_service ((), []) (empty_store None) c :: (unit \<times> http_log list) service"
  have world: "sv_world (snd (finish_sync cfg inbox mdef [] s)) = sv_world s" if "service_inv s" for cfg inbox mdef and s :: "'v service"
    by (rule finish_sync_ok [OF that, of "[]" cfg inbox mdef]) (simp_all add: apply_pins_def Let_def listing_ok_def)
  obtain d where d: "demo_json ''GET'' = Some (JObj d)" and items: "page_items ''drafts'' d = Inr []"
    and last: "jget d ''next_page_token'' = JNull"
    by (simp add: demo_json_def page_items_def jget_def)
  have req: "with_retries demo_client (service_http recorded_cfg) q s = (Inr \<lparr>rs_status = 200, rs_headers = [], rs_body = hr_method q\<rparr>,
      s\<lparr>sv_world := ((), snd (sv_world s) @ [Sent q (Inr \<lparr>rs_status = 200, rs_headers = [], rs_body = hr_method q\<rparr>)])\<rparr>)" for q s
    by (cases "sv_world s") (simp add: with_retries_def retry_loop.simps service_http_def recorded_cfg_def recording_def demo_http_def attempt_outcome_def)
  have box: "lookup recorded_cfg ''Drafts'' = Some drafts_box" "md_kind drafts_box = DraftItems" "cf_fuel recorded_cfg = Suc 1"
    using demo_facts(5) by (simp_all add: lookup_def recorded_cfg_def demo_cfg_def drafts_box_def)
  have loads: "cl_loads demo_client = demo_json" by (simp add: demo_client_def)
  obtain w where "map hr_method (sent_requests (snd w)) = [''GET'']"
    "collect recorded_cfg demo_client ''a@x'' drafts_box ?s = (Inr [], new_service w (empty_store None) c)"
    by (rule that)
       (simp_all add: collect_def collect_drafts_def list_drafts_def io_bind_def api_json_def api_request_def req box loads d items last
          Let_def new_service_def)
  then show ?thesis by (simp add: sync_forced [OF box(1)] do_sync_def io_bind_def world new_service_inv) (simp add: new_service_def)
qed

lemma recorded_run:
  fixes env0 :: "(unit \<times> http_log list) session_env"
  defines "cfg \<equiv> recorded_server env0" and "sv \<equiv> new_service ((), []) (empty_store None) (new_cache 100)"
  obtains srv where "running cfg sv srv" "map hr_method (sent_requests (snd (sv_world (sr_service srv)))) = [''GET'']"
    "cf_http (se_service (sx_env cfg)) = recording demo_http" "snd (sv_world sv) = []"
proof -
  have cfg: "se_service (sx_env cfg) = recorded_cfg" "se_make_client (sx_env cfg) = (\<lambda>_. demo_client)" "permitted (sx_env cfg) ''a@x''"
    by (simp_all add: cfg_def recorded_server_def permitted_def)
  have "own_client cfg demo_client ''a@x''" by (simp add: own_client_def cfg)
  note r = running.catches_up [OF running.begins this, of sv, unfolded cfg]
  show ?thesis
  proof (rule that [OF r])
    have "sr_service (start_server (new_server sv)) = sv" by (simp add: start_server_def new_server_def)
    then show "map hr_method (sent_requests (snd (sv_world (sr_service (start_server (new_server sv)
        \<lparr>sr_service := snd (sync recorded_cfg demo_client ''a@x'' ''Drafts'' True (sr_service (start_server (new_server sv))))\<rparr>))))) = [''GET'']"
      using recorded_listing by (simp add: sv_def)
  qed (simp_all add: cfg recorded_cfg_def sv_def new_service_def)
qed

theorem mail_never_sent_or_deleted_witness:
  "\<forall>env0. \<exists>srv. running (recorded_server env0) (new_service ((), []) (empty_store None) (new_cache 100)) srv
     \<and> map hr_method (sent_requests (snd (sv_world (sr_service srv)))) = [''GET'']
     \<and> list_all (\<lambda>q. \<exists>key inbox. permitted (sx_env (recorded_server env0)) inbox
          \<and> modest (se_make_client (sx_env (recorded_server env0)) key) inbox q) (sent_requests (snd (sv_world (sr_service srv))))"
proof
  fix env0
  let ?cfg = "recorded_server env0" and ?sv = "new_service ((), []) (empty_store None) (new_cache 100) :: (unit \<times> http_log list) service"
  obtain srv where r: "running ?cfg ?sv srv" "map hr_method (sent_requests (snd (sv_world (sr_service srv)))) = [''GET'']"
    "cf_http (se_service (sx_env ?cfg)) = recording demo_http" "snd (sv_world ?sv) = []" by (rule recorded_run [of env0])
  show "\<exists>srv. running ?cfg ?sv srv \<and> map hr_method (sent_requests (snd (sv_world (sr_service srv)))) = [''GET'']
     \<and> list_all (\<lambda>q. \<exists>key inbox. permitted (sx_env ?cfg) inbox \<and> modest (se_make_client (sx_env ?cfg) key) inbox q)
         (sent_requests (snd (sv_world (sr_service srv))))"
    by (intro exI [of _ srv] conjI r(1,2) mail_never_sent_or_deleted [OF r(1,3,4)])
qed

theorem only_the_allowed_inbox_witness:
  "\<forall>env0. \<exists>srv. running (recorded_server env0) (new_service ((), []) (empty_store None) (new_cache 100)) srv
     \<and> map hr_method (sent_requests (snd (sv_world (sr_service srv)))) = [''GET'']
     \<and> (\<forall>b. box_inbox b \<noteq> ''a@x'' \<longrightarrow> same_box b (empty_store None) (sv_store (sr_service srv)))"
proof
  fix env0
  let ?cfg = "recorded_server env0" and ?sv = "new_service ((), []) (empty_store None) (new_cache 100) :: (unit \<times> http_log list) service"
  obtain srv where r: "running ?cfg ?sv srv" "map hr_method (sent_requests (snd (sv_world (sr_service srv)))) = [''GET'']"
    "cf_http (se_service (sx_env ?cfg)) = recording demo_http" "snd (sv_world ?sv) = []" by (rule recorded_run [of env0])
  have s: "sv_store ?sv = empty_store None" "se_allowed (sx_env ?cfg) = Some ''a@x''" by (simp_all add: new_service_def recorded_server_def)
  have "store_inv (sv_store ?sv)" unfolding s by simp
  then have "\<forall>b. box_inbox b \<noteq> ''a@x'' \<longrightarrow> same_box b (sv_store ?sv) (sv_store (sr_service srv))"
    using only_the_allowed_inbox [OF r(1,3,4) _ s(2)] by simp
  then show "\<exists>srv. running ?cfg ?sv srv \<and> map hr_method (sent_requests (snd (sv_world (sr_service srv)))) = [''GET'']
     \<and> (\<forall>b. box_inbox b \<noteq> ''a@x'' \<longrightarrow> same_box b (empty_store None) (sv_store (sr_service srv)))"
    unfolding s(1) by (intro exI [of _ srv] conjI r(1,2))
qed

end
