(* ===== verification/Lifetime.thy ===== *)
theory Lifetime
  imports Server_Traffic Store_History
begin

text \<open>
  The store file over its whole life: opened by one gateway after another, found corrupt and set aside, lost, or
  left by a crash with a watermark of a transaction that did not commit. \<open>lives\<close> are the stores this can lead to.
  The lemmas show what a client may remember across all of it: a UID with the UIDVALIDITY of its mailbox.
\<close>

lemma issued_writes:
  assumes "\<And>w. se_watermark_writable (cf_store_env (se_service (sx_env cfg)) w)" and "list_all (server_issued cfg) ops"
  shows "list_all writes_sidecar ops"
proof -
  have "server_issued cfg x \<Longrightarrow> writes_sidecar x" for x using assms(1) by (cases x) (auto simp: server_issued_def)
  then show ?thesis using assms(2) by (auto simp: list_all_iff)
qed

inductive lives :: "'w server_cfg set \<Rightarrow> store \<Rightarrow> store \<Rightarrow> bool" for cfgs st where
  kept: "lives cfgs st st"
| opened: "lives cfgs st st1 \<Longrightarrow> open_store e probe st1 = Inr db \<Longrightarrow> lives cfgs st db"
| served: "lives cfgs st db \<Longrightarrow> cfg \<in> cfgs \<Longrightarrow> running cfg (new_service w db c) srv \<Longrightarrow> lives cfgs st (sv_store (sr_service srv))"
| torn: "lives cfgs st st1 \<Longrightarrow> lives cfgs st (snd (next_uidvalidity e st1))"
| lost: "lives cfgs st st1 \<Longrightarrow> lives cfgs st (empty_store (sidecar st1))"

text \<open>In particular a gateway that is started by its entry point and runs.\<close>

lemma gateway_lives:
  assumes "lives cfgs st file" and "run_gateway dotenv environ logs e probe file can_listen w = Listening settings srv0"
    and "cfg \<in> cfgs" and "running cfg (sr_service srv0) srv"
  shows "lives cfgs st (sv_store (sr_service srv))"
proof -
  obtain db where "open_store e probe file = Inr db" "sr_service srv0 = new_service w db (new_cache (st_cache_bytes settings))"
    using assms(2) by (auto simp: run_gateway_def start_server_def new_server_def split: sum.splits option.splits if_splits)
  then show ?thesis using lives.served [OF lives.opened [OF assms(1)] assms(3)] assms(4) by metis
qed

lemma lives_keeps:
  assumes "lives cfgs st st'" and "store_inv st" and "watermark_inv st"
    and writable: "\<And>cfg w. cfg \<in> cfgs \<Longrightarrow> se_watermark_writable (cf_store_env (se_service (sx_env cfg)) w)"
  shows "store_inv st' \<and> watermark_inv st' \<and> (succeeds b v a st \<longrightarrow> v < 2 ^ 32 - 1 \<longrightarrow> succeeds b v a st')"
  using assms(1)
proof (induction rule: lives.induct)
  case kept
  then show ?case using assms(2,3) by simp
next
  case (opened st1 e probe db)
  then show ?case using open_keeps [OF opened.hyps(2)] by blast
next
  case (served db cfg w c srv)
  obtain ops where ops: "list_all (server_issued cfg) ops" "sv_store (sr_service srv) = store_run db ops"
    using running_store [OF served.hyps(3)] by (auto simp: store_reaches_def new_service_def)
  have "list_all writes_sidecar ops" by (rule issued_writes [OF writable [OF served.hyps(2)] ops(1)])
  then show ?case using served.IH store_inv_run watermark_inv_run succeeds_run unfolding ops(2) by blast
next
  case (torn st1 e)
  then show ?case using torn_write by blast
next
  case (lost st1)
  then show ?case by (auto simp: succeeds_def)
qed


text \<open>A gateway that lists the drafts of an inbox; another one after it lists them again.\<close>

lemma drafts_listed:
  fixes env0 :: "unit session_env"
  defines "cfg \<equiv> demo_server env0"
  obtains srv where "running cfg (new_service () db (new_cache 100)) srv"
    "sr_service srv = snd (sync demo_cfg demo_client ''a@x'' ''Drafts'' True (new_service () db (new_cache 100)))"
proof -
  let ?srv = "start_server (new_server (new_service () db (new_cache 100))) :: unit server"
  have "own_client cfg demo_client ''a@x''" by (simp add: own_client_def cfg_def demo_server_def demo_env_def permitted_def)
  note run = running.catches_up [OF running.begins this, of "new_service () db (new_cache 100)"]
  show ?thesis by (rule that [OF run]) (simp add: cfg_def demo_server_def start_server_def new_server_def)
qed

lemma first_listing:
  "validity_of (sv_store (snd (sync demo_cfg demo_client ''a@x'' ''Drafts'' True (new_service () (empty_store None) c))))
     (Box ''a@x'' ''Drafts'') = Some 7"
proof -
  have env: "cf_store_env demo_cfg = (\<lambda>_. demo_store_env)" "md_name drafts_box = ''Drafts''" by (simp_all add: demo_cfg_def drafts_box_def)
  have "read_watermark (empty_store None) = 0" by (simp add: read_watermark_def empty_store_def)
  then have nxt: "fst (next_uidvalidity demo_store_env (empty_store None)) = 7"
    by (simp add: next_uidvalidity_def demo_store_env_def Let_def)
  obtain st where st: "ensure_mailbox demo_store_env (empty_store None) (Box ''a@x'' ''Drafts'') = ((7, 1), st)"
    "mboxes st = [Box ''a@x'' ''Drafts'' \<mapsto> (7, 1)]" "rows st = []"
  proof
    show "ensure_mailbox demo_store_env (empty_store None) (Box ''a@x'' ''Drafts'') = ((7, 1), (empty_store (Some (int_str 7)))
        \<lparr>mboxes := [Box ''a@x'' ''Drafts'' \<mapsto> (7, 1)]\<rparr>)"
      using nxt by (simp add: ensure_mailbox_def empty_store_def next_uidvalidity_def write_watermark_def Let_def demo_store_env_def)
  qed (simp_all add: empty_store_def)
  have again: "ensure_mailbox demo_store_env st (Box ''a@x'' ''Drafts'') = ((7, 1), st)" by (simp add: ensure_mailbox_def st(2))
  show ?thesis
    by (simp add: sync_forced [OF demo_facts(5)] do_sync_def io_bind_def demo_collect_drafts finish_sync_def apply_pins_def
        new_service_def allocate_def ensure_uids_def live_map_def retire_missing_def tombstone_missing_def service_info_def
        mailbox_info_def validity_of_def store_env_of_def env io_then_def Let_def st again)
qed


end
