(* ===== verification/Spec2Isabelle.thy ===== *)
theory Spec2Isabelle
  imports Imap_Parser Fetch_Grammar Byte_Cache Uid_Store Responses Api_Client Drafts Search
    Session_Guarantees Sync_Coalescing Lifetime
begin

text \<open>
  A model of the IMAP gateway (\<open>src/imapgw\<close>): an IMAP4rev1 server whose mailboxes are views of an inbox of an
  HTTP mail API. A connection reads commands (\<open>parser.py\<close>), a session dispatches them to handlers
  (\<open>session.py\<close>, \<open>commands.py\<close>), the handlers call the mailbox service (\<open>mailbox.py\<close>), which lists the inbox
  through the API client (\<open>apiclient.py\<close>), renders drafts (\<open>drafts.py\<close>), remembers UIDs in a SQLite file
  (\<open>uidstore.py\<close>) and raw messages in a byte-bounded cache (\<open>bytecache.py\<close>), and answers through the
  response builders (\<open>responses.py\<close>). FETCH items and sequence sets are the grammar of \<open>fetch.py\<close>, SEARCH that
  of \<open>search.py\<close>, the settings and the redaction of secrets in logs \<open>config.py\<close>. \<open>server.py\<close> listens and runs one
  session per connection, all over one service and one redactor; \<open>__main__.py\<close> puts the parts together.

  Theories, bottom up, and the code they model:

  \<^item> \<open>Gateway_Prelude\<close>: results as sums (\<open>ebind\<close>, \<open>emap\<close>), Python's text operations, decimal numbers, the
    lemmas on lists and texts that the others share.
  \<^item> \<open>Imap_Parser\<close> (\<open>parser.py\<close>): the record \<open>cparser\<close> is \<open>CommandParser\<close>; \<open>feed\<close>, \<open>reset\<close>, \<open>events\<close> its
    methods; the tokenizer. The generator \<open>events()\<close> is the list of all events it yields; a raise in it is the
    event \<open>Raised\<close>. Lemmas: progress (termination), equivalence of feeding in chunks and whole, bounds on the
    memory held, literals octet for octet, round trip of printed commands.
  \<^item> \<open>Fetch_Grammar\<close> (\<open>fetch.py\<close>): sequence sets, FETCH attributes with their merging, body sections.
  \<^item> \<open>Byte_Cache\<close> (\<open>bytecache.py\<close>): the \<open>OrderedDict\<close> is an association list, oldest first; the size counter
    is the code's own, not recomputed. The locale of a bounded cache is interpreted on it.
  \<^item> \<open>Uid_Store\<close> (\<open>uidstore.py\<close>): the tables are a record of rows, mailboxes and marks; constraint violations
    are \<open>IntegrityError\<close>; opening, quarantine of a corrupt file and the UIDVALIDITY watermark in its file.
    \<open>Store_History\<close>: what a store keeps of all stores before it.
  \<^item> \<open>Calendar\<close>: dates and times of day. \<open>Responses\<close> (\<open>responses.py\<close>): every builder, as bytes.
  \<^item> \<open>Effects\<close>: effects as a state and error monad \<open>('w, 'e, 'a) io\<close>, with \<open>io_keeps\<close> for what a computation
    keeps, and the interface of HTTP.
  \<^item> \<open>Api_Client\<close> (\<open>apiclient.py\<close>): requests, error classes, retries with their budget, pagination (with fuel:
    the number of pages; \<open>pagination_terminates\<close> shows which fuel is enough), every call.
  \<^item> \<open>Transport\<close> (\<open>ThreadedTransport\<close> of \<open>apiclient.py\<close>): from a URL to an exchange with a host; where the requests
    of the client go. It instantiates the transport the client is given; everything else is over any transport.
  \<^item> \<open>Drafts\<close> (\<open>drafts.py\<close>), \<open>Search\<close> (\<open>search.py\<close>).
  \<^item> \<open>Mailbox_Model\<close>, \<open>Mailbox_Service\<close>, \<open>Mailbox_Sync\<close>, \<open>Mailbox_Guarantees\<close>, \<open>Mailbox_Views\<close>
    (\<open>mailbox.py\<close>): the record \<open>service\<close> is \<open>MailboxService\<close>; one definition per method, and one per body of a
    loop. \<open>service_law\<close> is the interface of the elementary changes of a service; it is interpreted on the
    invariant of the service (\<open>good\<close>), on the order of its successive views (\<open>views\<close>), on what the sessions of
    a server rely on (\<open>keys\<close>) and, in \<open>Traffic\<close>, on what an operation does to the world and
    the store (\<open>outgoing\<close>).
  \<^item> \<open>Sync_Coalescing\<close> (\<open>mailbox.py\<close>, \<open>sync\<close> and \<open>_join\<close>): the sharing of one listing between concurrent
    callers, as a step relation between the suspension points of the coroutines.
  \<^item> \<open>Config\<close> (\<open>config.py\<close>): settings, \<open>.env\<close> files, the redacting filter. \<open>counted_secrets\<close> is what the users of
    the filter rely on; it is interpreted on the code's reference counts. \<open>filter_hides\<close>: no registered secret
    passes the filter.
  \<^item> \<open>Session\<close> (\<open>session.py\<close>): the record \<open>session\<close>; output buffer, credentials, dispatch with every error
    clause, the announcement of changes, deferred work, the read loop, teardown. \<open>Commands\<close> (\<open>commands.py\<close>):
    every handler and both handler tables; \<open>handler_table\<close>, what dispatch expects of a table, is interpreted on
    the code's own table.
  \<^item> \<open>Client_View\<close>: the sequence numbers a client derives from the untagged responses it reads, against the view of
    the session, through every handler and over histories in which other sessions change the service.
  \<^item> \<open>Session_Frame\<close>: the locale \<open>session_frame\<close> lists the elementary changes a handler makes and carries a property
    that survives them through every handler but LOGIN; \<open>session_login\<close> extends it to LOGIN, whole commands and
    teardown. Their interpretations are \<open>same_keys\<close> and \<open>locked\<close> in \<open>Credentials\<close>, who holds which key, and \<open>fenced\<close>
    in \<open>Server_Traffic\<close>.
  \<^item> \<open>Session_Guarantees\<close>: properties of sessions over the handlers, and concrete sessions.
  \<^item> \<open>Server\<close> (\<open>server.py\<close>): the record \<open>server\<close> is \<open>Server\<close> with the parts its sessions share; \<open>serving\<close> is the step
    relation of the event loop: a connection is accepted, read from, given its next event, closed, in any order.
    \<open>server_ok\<close> is its invariant. A command runs in one piece. The lemmas show that the steps of one connection
    make up \<open>session_run\<close>, and that all clients, the shared service and the shared redactor agree at all times.
  \<^item> \<open>Startup\<close> (\<open>__main__.py\<close>, \<open>configure_logging\<close>): settings to running server, the error exits, the shutdown; and a
    gateway that runs, on which the properties of \<open>Server\<close> are evaluated.
  \<^item> \<open>Server_Traffic\<close>: the runs of a server with all their requests (\<open>running\<close>, a refinement of \<open>serving\<close>), and what
    \<open>Transport\<close> then shows of the whole gateway: where its API keys go; and that it sends no mail, deletes no
    message, and stays within the inboxes its clients may log in to.
  \<^item> \<open>Lifetime\<close>: the store over many runs of the gateway, crashes, corruption and loss included (\<open>lives\<close>): what a UID
    means to a client that remembers it.

  What is outside the repository is a parameter: the network (\<open>he_request\<close>; under \<open>Transport\<close>, \<open>nt_exchange\<close>), time and sleeping, the
  \<open>email\<close>, \<open>html\<close>, \<open>json\<close> and \<open>hashlib\<close> packages (\<open>email_lib\<close>, \<open>search_lib\<close>, \<open>cl_loads\<close>), the file system
  and clock seen by the store (\<open>store_env\<close>), the peer of a connection (\<open>se_drain\<close>, the list of reads).
  Hypotheses about them are named (\<open>digest_ok\<close>: a digest is hexadecimal text; \<open>clock_monotonic\<close>) and hold for
  the instances in the witnesses.

  Not modelled: SQLite's file format, WAL and threads; sockets and the thread pool of \<open>ThreadedTransport\<close>;
  signals; the texts of log messages; the scripts and tests, which drive a running gateway from outside. The deadline of a
  command is checked when a call of the service returns, not while it waits. An operation of the service runs
  to its end before another begins, except in \<open>Sync_Coalescing\<close>, which is about their interleaving.
\<close>

end
